(* ===== verification/Prelude.thy ===== *)
theory Prelude
  imports Main "HOL-Library.Word"
begin

text \<open>
  Shared vocabulary of the development: the machine integers of \<^verbatim>\<open>kernel/types.h\<close>, the
  outcome type of kernel code (a value and a state, a panic, a context switch with the rest of the routine, a
  spin on a lock somebody else holds, a loop that ran out of fuel), sequencing of such code,
  byte-addressed memory with little-endian 64-bit loads and stores, and the generic facts on
  words and lists that the component theories use.
\<close>

unbundle bit_operations_syntax

section \<open>Machine integers\<close>

type_synonym u8 = "8 word"
type_synonym u16 = "16 word"
type_synonym u32 = "32 word"
type_synonym u64 = "64 word"

type_synonym memory = "u64 \<Rightarrow> u8"

named_theorems kdefs \<open>definitions of kernel routines, unfolded together in component proofs\<close>
named_theorems frames \<open>what a routine leaves unchanged\<close>

section \<open>Outcomes of kernel code\<close>

text \<open>
  Kernel routines are functions from a state to an outcome. \<open>Ok v s\<close> is a normal return,
  \<open>Panic msg\<close> a call of \<^verbatim>\<open>panic(msg)\<close>, which never returns. \<open>Swtch s k\<close> is a routine that has
  called \<^verbatim>\<open>swtch()\<close> in state \<open>s\<close>: the processor runs other threads, and when it comes back, in some
  state \<open>s'\<close>, the rest of the routine is \<open>k s'\<close>. \<open>Stuck\<close> is a busy loop that cannot end while no
  other hart runs (a spin on a lock that is held elsewhere), and \<open>NoFuel\<close> a loop whose fuel was
  too small; where a loop's length is determined by its inputs the theories prove that the fuel
  they give suffices.
\<close>

datatype ('a, 's) outcome =
    Ok 'a 's
  | Panic string
  | Swtch 's "'s \<Rightarrow> ('a, 's) outcome"
  | Stuck
  | NoFuel

primrec bind :: "('a, 's) outcome \<Rightarrow> ('a \<Rightarrow> 's \<Rightarrow> ('b, 's) outcome) \<Rightarrow> ('b, 's) outcome" where
  "bind (Ok v s) f = f v s"
| "bind (Panic m) f = Panic m"
| "bind (Swtch s k) f = Swtch s (\<lambda>s'. bind (k s') f)"
| "bind Stuck f = Stuck"
| "bind NoFuel f = NoFuel"

text \<open>The values a routine can return, whatever happens while it is switched out.\<close>

inductive returns :: "('a, 's) outcome \<Rightarrow> 'a \<Rightarrow> 's \<Rightarrow> bool" where
  returns_Ok: "returns (Ok v s) v s"
| returns_Swtch: "returns (k s') v s \<Longrightarrow> returns (Swtch s0 k) v s"

inductive_simps returns_simps [simp]:
  "returns (Ok v' s') v s" "returns (Panic m) v s" "returns (Swtch s0 k) v s" "returns Stuck v s" "returns NoFuel v s"

lemma bind_eq_Ok [simp]:
  "bind m k = Ok v s \<longleftrightarrow> (\<exists>v' s'. m = Ok v' s' \<and> k v' s' = Ok v s)"
  by (cases m) auto

lemma bind_eq_Panic:
  "bind m k = Panic e \<longleftrightarrow> m = Panic e \<or> (\<exists>v' s'. m = Ok v' s' \<and> k v' s' = Panic e)"
  by (cases m) auto

lemma kbind_assoc: "bind (bind m k) l = bind m (\<lambda>v s. bind (k v s) l)"
  by (induction m) auto

lemma bind_Ok_right [simp]: "bind m Ok = m"
  by (induction m) auto

lemma returns_bind [simp]: "returns (bind m k) v s \<longleftrightarrow> (\<exists>v' s'. returns m v' s' \<and> returns (k v' s') v s)"
  by (induction m) auto

lemma kbind_cong [fundef_cong]:
  "m = m' \<Longrightarrow> (\<And>v s. returns m' v s \<Longrightarrow> k v s = k' v s) \<Longrightarrow> bind m k = bind m' k'"
proof -
  have "(\<And>v s. returns m' v s \<Longrightarrow> k v s = k' v s) \<Longrightarrow> bind m' k = bind m' k'"
  proof (induction m')
    case (Swtch s c)
    then have "bind (c s') k = bind (c s') k'" for s' by auto
    then show ?case by simp
  qed simp_all
  then show "m = m' \<Longrightarrow> (\<And>v s. returns m' v s \<Longrightarrow> k v s = k' v s) \<Longrightarrow> bind m k = bind m' k'" by simp
qed

text \<open>
  \<open>safe R I Q m\<close>: the routine \<open>m\<close> does not panic, spin or run out of fuel, and ends with \<open>Q\<close>, provided that
  whenever it is switched out in state \<open>s\<close> it is resumed in a state related to \<open>s\<close> by \<open>R\<close>. The predicate \<open>I\<close>
  holds at every point at which the routine is switched out, also when it is about to be resumed; with the
  disk in \<open>I\<close> this is what a crash can leave behind. There is always some state in which it can be resumed, so the
  statement is never empty. \<open>post\<close> is the version without \<open>I\<close>.
\<close>

primrec safe :: "('s \<Rightarrow> 's \<Rightarrow> bool) \<Rightarrow> ('s \<Rightarrow> bool) \<Rightarrow> ('a \<Rightarrow> 's \<Rightarrow> bool) \<Rightarrow> ('a, 's) outcome \<Rightarrow> bool" where
  "safe R I Q (Ok v s) \<longleftrightarrow> Q v s"
| "safe R I Q (Panic m) \<longleftrightarrow> False"
| "safe R I Q (Swtch s k) \<longleftrightarrow> I s \<and> (\<exists>s'. R s s') \<and> (\<forall>s'. R s s' \<longrightarrow> I s' \<and> safe R I Q (k s'))"
| "safe R I Q Stuck \<longleftrightarrow> False"
| "safe R I Q NoFuel \<longleftrightarrow> False"

abbreviation post :: "('s \<Rightarrow> 's \<Rightarrow> bool) \<Rightarrow> ('a \<Rightarrow> 's \<Rightarrow> bool) \<Rightarrow> ('a, 's) outcome \<Rightarrow> bool" where
  "post R \<equiv> safe R (\<lambda>_. True)"

lemma safe_bind [simp]: "safe R I Q (bind m k) \<longleftrightarrow> safe R I (\<lambda>v s. safe R I Q (k v s)) m"
  by (induction m) auto

lemma safe_mono: "safe R I Q m \<Longrightarrow> (\<And>s. I s \<Longrightarrow> I' s) \<Longrightarrow> (\<And>v s. Q v s \<Longrightarrow> Q' v s) \<Longrightarrow> safe R I' Q' m"
  by (induction m) auto

lemma safe_seq: "safe R I Q' m \<Longrightarrow> (\<And>v s. Q' v s \<Longrightarrow> safe R I Q (k v s)) \<Longrightarrow> safe R I Q (bind m k)"
  unfolding safe_bind by (rule safe_mono)

section \<open>Fixed-width integers as bytes\<close>

text \<open>
  RISC-V is little-endian: \<open>bytes_of n w\<close> are the \<open>n\<close> low bytes of \<open>w\<close>, least significant
  first, and \<open>word_of\<close> reads such a byte list back. On-disk structures and page-table entries
  are stored this way.
\<close>

definition bytes_of :: "nat \<Rightarrow> 'a::len word \<Rightarrow> u8 list" where
  "bytes_of n w = map (\<lambda>i. ucast (drop_bit (8 * i) w)) [0..<n]"

fun word_of :: "u8 list \<Rightarrow> 'a::len word" where
  "word_of [] = 0"
| "word_of (b # bs) = ucast b OR push_bit 8 (word_of bs)"

lemma bit_word_of:
  "bit (word_of bs :: 'a::len word) k \<longleftrightarrow>
     k < LENGTH('a) \<and> k div 8 < length bs \<and> bit (bs ! (k div 8)) (k mod 8)"
proof (induction bs arbitrary: k)
  case Nil
  then show ?case by simp
next
  case (Cons b bs)
  show ?case
  proof (cases "k < 8")
    case True
    then show ?thesis by (auto simp: bit_simps)
  next
    case False
    then have "k = (k - 8) + 8" by simp
    then obtain j where k: "k = j + 8" by blast
    have "\<not> bit b k" using k bit_imp_le_length[of b k] by auto
    moreover have "(j + 8) div 8 = Suc (j div 8)" by simp
    ultimately show ?thesis using Cons[of j] by (auto simp: k bit_simps)
  qed
qed

lemma length_bytes_of [simp]: "length (bytes_of n w) = n"
  by (simp add: bytes_of_def)

lemma word_of_bytes_of:
  "LENGTH('a) \<le> 8 * n \<Longrightarrow> word_of (bytes_of n (w :: 'a::len word)) = w"
  by (rule bit_word_eqI)
    (auto simp: bit_word_of bytes_of_def bit_simps div_less_iff_less_mult mult.commute)

lemma bytes_of_word_of:
  assumes "8 * length bs \<le> LENGTH('a)"
  shows "bytes_of (length bs) (word_of bs :: 'a::len word) = bs"
proof (rule nth_equalityI)
  fix i assume "i < length (bytes_of (length bs) (word_of bs :: 'a word))"
  then have i: "i < length bs" by simp
  show "bytes_of (length bs) (word_of bs :: 'a word) ! i = bs ! i"
    by (rule bit_word_eqI) (use i assms in \<open>auto simp: bytes_of_def bit_simps bit_word_of\<close>)
qed simp

section \<open>Byte-addressed memory\<close>

text \<open>
  Addresses are 64-bit words and address arithmetic wraps. \<open>store_bytes\<close> is the effect of
  copying a byte list to an address, \<open>load_bytes\<close> reads one; \<open>load64\<close> and \<open>store64\<close> are the
  loads and stores through \<^verbatim>\<open>uint64 *\<close> pointers.
\<close>

definition load_bytes :: "memory \<Rightarrow> u64 \<Rightarrow> nat \<Rightarrow> u8 list" where
  "load_bytes m a n = map (\<lambda>i. m (a + of_nat i)) [0..<n]"

definition store_bytes :: "memory \<Rightarrow> u64 \<Rightarrow> u8 list \<Rightarrow> memory" where
  "store_bytes m a bs = (\<lambda>x. if unat (x - a) < length bs then bs ! unat (x - a) else m x)"

definition load64 :: "memory \<Rightarrow> u64 \<Rightarrow> u64" where
  "load64 m a = word_of (load_bytes m a 8)"

definition store64 :: "memory \<Rightarrow> u64 \<Rightarrow> u64 \<Rightarrow> memory" where
  "store64 m a v = store_bytes m a (bytes_of 8 v)"

lemma unat_of_nat64: "n < 2 ^ 64 \<Longrightarrow> unat (of_nat n :: u64) = n"
  by (simp add: unat_of_nat)

lemma unat_add_of_nat:
  "unat a + n < 2 ^ 64 \<Longrightarrow> unat (a + of_nat n :: u64) = unat a + n"
  by (simp add: unat_plus_if' unat_of_nat64)

lemma unat_diff_of_nat: "n \<le> unat a \<Longrightarrow> unat (a - of_nat n :: u64) = unat a - n"
proof -
  assume n: "n \<le> unat a"
  then have "n < 2 ^ 64" using unsigned_less[of a, where 'a = nat] by simp
  with n show ?thesis by (simp add: unat_sub_if' unat_of_nat64)
qed

lemma unat_add_of_nat_eq:
  assumes "n < 2 ^ 64"
  shows "unat (y + of_nat n :: u64) = n \<longleftrightarrow> y = 0"
proof
  assume "unat (y + of_nat n) = n"
  then have "of_nat (unat (y + of_nat n)) = (of_nat n :: u64)" by (rule arg_cong)
  then show "y = 0" by simp
qed (use assms in \<open>simp add: unat_of_nat64\<close>)

lemma unat_ucast_up:
  "LENGTH('a) \<le> LENGTH('b) \<Longrightarrow> unat (ucast (w :: 'a::len word) :: 'b::len word) = unat w"
proof -
  assume "LENGTH('a) \<le> LENGTH('b)"
  then have "unat w < 2 ^ LENGTH('b)"
    by (intro less_le_trans[OF unsigned_less power_increasing]) simp_all
  then show ?thesis by (simp add: unsigned_ucast_eq take_bit_nat_eq_self)
qed

lemma length_load_bytes [simp]: "length (load_bytes m a n) = n"
  by (simp add: load_bytes_def)

lemma nth_load_bytes: "i < n \<Longrightarrow> load_bytes m a n ! i = m (a + of_nat i)"
  by (simp add: load_bytes_def)

lemma store_bytes_Nil [simp]: "store_bytes m a [] = m"
  by (simp add: store_bytes_def)

lemma load_store_bytes:
  assumes "length bs \<le> 2 ^ 64"
  shows "load_bytes (store_bytes m a bs) a (length bs) = bs"
proof (rule nth_equalityI)
  fix i assume "i < length (load_bytes (store_bytes m a bs) a (length bs))"
  then have "i < length bs" by simp
  moreover have "unat (of_nat i :: u64) = i"
    using \<open>i < length bs\<close> assms by (intro unat_of_nat64) simp
  ultimately show "load_bytes (store_bytes m a bs) a (length bs) ! i = bs ! i"
    by (simp add: nth_load_bytes store_bytes_def)
qed simp

lemma load_bytes_cong:
  "(\<And>i. i < n \<Longrightarrow> m (a + of_nat i) = m' (a + of_nat i)) \<Longrightarrow> load_bytes m a n = load_bytes m' a n"
  by (simp add: load_bytes_def)

lemma load64_cong:
  "(\<And>i. i < 8 \<Longrightarrow> m (a + of_nat i) = m' (a + of_nat i)) \<Longrightarrow> load64 m a = load64 m' a"
  unfolding load64_def by (simp cong: load_bytes_cong)

lemma load64_store64_same [simp]: "load64 (store64 m a v) a = v"
proof -
  have "load_bytes (store_bytes m a (bytes_of 8 v)) a 8 = bytes_of 8 v"
    using load_store_bytes[of "bytes_of 8 v" m a] by simp
  then show ?thesis
    by (simp add: load64_def store64_def word_of_bytes_of)
qed

text \<open>A store reaches only the bytes of its own range.\<close>

lemma store_bytes_other: "\<not> unat (x - a) < length bs \<Longrightarrow> store_bytes m a bs x = m x"
  by (simp add: store_bytes_def)

lemma store_bytes_hit:
  "i < length bs \<Longrightarrow> length bs \<le> 2 ^ 64 \<Longrightarrow> store_bytes m a bs (a + of_nat i) = bs ! i"
  by (simp add: store_bytes_def unat_of_nat64)

lemma store64_other: "\<not> unat (x - a) < 8 \<Longrightarrow> store64 m a v x = m x"
  by (simp add: store64_def store_bytes_def)

lemma store_bytes_append:
  assumes "length xs + length ys \<le> 2 ^ 64"
  shows "store_bytes (store_bytes m a xs) (a + of_nat (length xs)) ys = store_bytes m a (xs @ ys)"
proof
  fix x
  define d where "d = unat (x - a)"
  have d: "d < 2 ^ 64" using unsigned_less[where w = "x - a" and 'a = nat] by (simp add: d_def)
  show "store_bytes (store_bytes m a xs) (a + of_nat (length xs)) ys x = store_bytes m a (xs @ ys) x"
  proof (cases "ys = []")
    case True
    then show ?thesis by simp
  next
    case False
    then have l: "length xs < 2 ^ 64" using assms by (cases ys) auto
    have e: "unat (x - (a + of_nat (length xs))) =
      (if length xs \<le> d then d - length xs else 2 ^ 64 + d - length xs)"
    proof -
      have eq: "x - (a + of_nat (length xs)) = (x - a) - of_nat (length xs)" by simp
      show ?thesis
        unfolding eq
        using l unat_of_nat64[OF l] unat_sub_if'[of "x - a" "of_nat (length xs)"]
        by (auto simp: d_def)
    qed
    show ?thesis
    proof (cases "length xs \<le> d")
      case True
      then show ?thesis
        using e by (auto simp: store_bytes_def d_def nth_append)
    next
      case False
      then have "\<not> unat (x - (a + of_nat (length xs))) < length ys"
        using e assms by auto
      with False show ?thesis
        by (auto simp: store_bytes_def d_def nth_append)
    qed
  qed
qed

section \<open>Lists\<close>

lemma list_update_idem: "i < length xs \<Longrightarrow> xs ! i = x \<Longrightarrow> xs[i := x] = xs"
  by (metis list_update_id)

end
