(* ===== verification/Riscv.thy ===== *)
theory Riscv
  imports Prelude
begin

text \<open>
  The constants and macros of \<^verbatim>\<open>kernel/param.h\<close>, \<^verbatim>\<open>kernel/memlayout.h\<close> and \<^verbatim>\<open>kernel/riscv.h\<close>:
  sizes of kernel tables, the physical and virtual memory layout, page rounding, page-table
  entries and the split of a virtual address into table indices. The lemmas are the facts on
  rounding, entry packing and index extraction that the allocator and the page-table code
  rely on.
\<close>

section \<open>Table sizes\<close>

definition NPROC :: nat where "NPROC = 64"
definition NCPU :: nat where "NCPU = 8"
definition NOFILE :: nat where "NOFILE = 16"
definition NFILE :: nat where "NFILE = 100"
definition NINODE :: nat where "NINODE = 50"
definition NDEV :: nat where "NDEV = 10"
definition ROOTDEV :: u32 where "ROOTDEV = 1"
definition MAXARG :: nat where "MAXARG = 32"
definition MAXOPBLOCKS :: nat where "MAXOPBLOCKS = 10"
definition LOGSIZE :: nat where "LOGSIZE = MAXOPBLOCKS * 3"
definition NBUF :: nat where "NBUF = MAXOPBLOCKS * 3"
definition FSSIZE :: nat where "FSSIZE = 2000"
definition MAXPATH :: nat where "MAXPATH = 128"

lemmas param_defs = NPROC_def NCPU_def NOFILE_def NFILE_def NINODE_def NDEV_def ROOTDEV_def
  MAXARG_def MAXOPBLOCKS_def LOGSIZE_def NBUF_def FSSIZE_def MAXPATH_def

section \<open>Pages\<close>

definition PGSIZE :: u64 where "PGSIZE = 4096"

definition PGROUNDUP :: "u64 \<Rightarrow> u64" where
  "PGROUNDUP sz = (sz + PGSIZE - 1) AND NOT (PGSIZE - 1)"

definition PGROUNDDOWN :: "u64 \<Rightarrow> u64" where
  "PGROUNDDOWN a = a AND NOT (PGSIZE - 1)"

definition aligned :: "u64 \<Rightarrow> bool" where
  "aligned p \<longleftrightarrow> p mod PGSIZE = 0"

section \<open>Memory layout\<close>

definition UART0 :: u64 where "UART0 = 0x10000000"
definition VIRTIO0 :: u64 where "VIRTIO0 = 0x10001000"
definition PLIC :: u64 where "PLIC = 0x0c000000"
definition KERNBASE :: u64 where "KERNBASE = 0x80000000"
definition PHYSTOP :: u64 where "PHYSTOP = KERNBASE + 128 * 1024 * 1024"

text \<open>One beyond the highest virtual address the kernel uses: one bit less than Sv39 allows.\<close>

definition MAXVA :: u64 where "MAXVA = push_bit (9 + 9 + 9 + 12 - 1) 1"
definition TRAMPOLINE :: u64 where "TRAMPOLINE = MAXVA - PGSIZE"
definition TRAPFRAME :: u64 where "TRAPFRAME = TRAMPOLINE - PGSIZE"
definition KSTACK :: "nat \<Rightarrow> u64" where
  "KSTACK p = TRAMPOLINE - (of_nat p + 1) * 2 * PGSIZE"

lemmas layout_defs = UART0_def VIRTIO0_def PLIC_def KERNBASE_def PHYSTOP_def MAXVA_def
  TRAMPOLINE_def TRAPFRAME_def KSTACK_def

section \<open>Page-table entries\<close>

definition PTE_V :: u64 where "PTE_V = push_bit 0 1"
definition PTE_R :: u64 where "PTE_R = push_bit 1 1"
definition PTE_W :: u64 where "PTE_W = push_bit 2 1"
definition PTE_X :: u64 where "PTE_X = push_bit 3 1"
definition PTE_U :: u64 where "PTE_U = push_bit 4 1"

definition PA2PTE :: "u64 \<Rightarrow> u64" where
  "PA2PTE pa = push_bit 10 (drop_bit 12 pa)"

definition PTE2PA :: "u64 \<Rightarrow> u64" where
  "PTE2PA pte = push_bit 12 (drop_bit 10 pte)"

definition PTE_FLAGS :: "u64 \<Rightarrow> u64" where
  "PTE_FLAGS pte = pte AND 0x3FF"

definition PXSHIFT :: "nat \<Rightarrow> nat" where
  "PXSHIFT level = 12 + 9 * level"

definition PX :: "nat \<Rightarrow> u64 \<Rightarrow> u64" where
  "PX level va = drop_bit (PXSHIFT level) va AND 0x1FF"

definition SATP_SV39 :: u64 where "SATP_SV39 = push_bit 60 8"

definition MAKE_SATP :: "u64 \<Rightarrow> u64" where
  "MAKE_SATP pagetable = SATP_SV39 OR drop_bit 12 pagetable"

lemmas pte_bits = PTE_V_def PTE_R_def PTE_W_def PTE_X_def PTE_U_def

section \<open>Rounding\<close>

lemma unat_take_bit: "unat (take_bit n (x :: 'a::len word)) = unat x mod 2 ^ n"
  unfolding unsigned_take_bit_eq by (simp add: take_bit_eq_mod)

lemma PGROUNDDOWN_bits: "PGROUNDDOWN a = push_bit 12 (drop_bit 12 a)"
proof -
  have "NOT (PGSIZE - 1) = NOT (mask 12)"
    by (simp add: PGSIZE_def mask_eq_exp_minus_1)
  then show ?thesis
    unfolding PGROUNDDOWN_def by (intro bit_word_eqI) (auto simp: bit_simps)
qed

lemma PGROUNDDOWN_diff: "PGROUNDDOWN a = a - take_bit 12 a"
  using bits_ident[of 12 a] by (simp add: PGROUNDDOWN_bits eq_diff_eq)

lemma unat_PGROUNDDOWN: "unat (PGROUNDDOWN a) = unat a - unat a mod 4096"
proof -
  have "unat (take_bit 12 a) \<le> unat a" by (simp add: unat_take_bit)
  then show ?thesis
    unfolding PGROUNDDOWN_diff by (simp only: unat_sub_if') (simp add: unat_take_bit)
qed

lemma aligned_unat: "aligned p \<longleftrightarrow> unat p mod 4096 = 0"
  by (simp add: aligned_def PGSIZE_def word_unat_eq_iff unat_mod)

lemma aligned_0 [simp]: "aligned 0"
  by (simp add: aligned_def)

lemma aligned_PGROUNDDOWN [simp]: "aligned (PGROUNDDOWN a)"
  by (simp add: aligned_unat unat_PGROUNDDOWN minus_mod_eq_mult_div)

lemma aligned_PGROUNDUP [simp]: "aligned (PGROUNDUP a)"
  using aligned_PGROUNDDOWN[of "a + PGSIZE - 1"] by (simp add: PGROUNDUP_def PGROUNDDOWN_def)

lemma PGROUNDDOWN_aligned: "aligned p \<Longrightarrow> PGROUNDDOWN p = p"
  by (simp add: word_unat_eq_iff unat_PGROUNDDOWN aligned_unat)

lemma unat_PGROUNDUP:
  assumes "unat a + 4095 < 2 ^ 64"
  shows "unat (PGROUNDUP a) = (unat a + 4095) div 4096 * 4096"
proof -
  have "a + PGSIZE - 1 = a + 4095" by (simp add: PGSIZE_def)
  moreover have "unat (a + 4095) = unat a + 4095"
    using assms by (simp add: unat_plus_if')
  ultimately have "unat (PGROUNDUP a) = unat a + 4095 - (unat a + 4095) mod 4096"
    using unat_PGROUNDDOWN[of "a + PGSIZE - 1"]
    by (simp only: PGROUNDUP_def PGROUNDDOWN_def)
  then show ?thesis by (simp add: minus_mod_eq_div_mult)
qed

text \<open>Membership in the page at an aligned address.\<close>

lemma in_page_iff:
  assumes "aligned p"
  shows "unat (x - p) < 4096 \<longleftrightarrow> PGROUNDDOWN x = p"
proof -
  obtain k where k: "unat p = 4096 * k"
    using assms by (metis aligned_unat dvdE mod_eq_0_iff_dvd)
  have b: "unat p < 2 ^ 64" "unat x < 2 ^ 64"
    using unsigned_less[of p, where 'a = nat] unsigned_less[of x, where 'a = nat] by simp_all
  have pk: "4096 * k + 4096 \<le> 2 ^ 64" using b k by simp
  show ?thesis
  proof (cases "unat p \<le> unat x")
    case True
    then have "unat (x - p) = unat x - unat p" by (simp add: unat_sub_if')
    moreover have "unat x - 4096 * k < 4096 \<longleftrightarrow> unat x - unat x mod 4096 = 4096 * k"
    proof -
      have "unat x - 4096 * k < 4096 \<longleftrightarrow> unat x div 4096 = k"
        using True k by (auto simp: div_nat_eqI intro: div_nat_eqI)
      then show ?thesis by (auto simp: minus_mod_eq_mult_div)
    qed
    ultimately show ?thesis
      using k by (simp add: word_unat_eq_iff unat_PGROUNDDOWN)
  next
    case False
    then have "unat (x - p) = unat x + 2 ^ 64 - unat p" by (simp add: unat_sub_if')
    moreover have "unat x - unat x mod 4096 \<noteq> unat p" using False by simp
    ultimately show ?thesis
      using False pk k by (auto simp: word_unat_eq_iff unat_PGROUNDDOWN)
  qed
qed

lemma page_offset:
  assumes "aligned p" "i < 4096"
  shows "PGROUNDDOWN (p + of_nat i) = p"
proof -
  have "unat ((p + of_nat i) - p) < 4096"
    using assms(2) by (simp add: unat_of_nat64)
  then show ?thesis using assms(1) in_page_iff by blast
qed

section \<open>Entries and indices\<close>

lemma PTE2PA_PA2PTE:
  assumes "aligned pa" "flags AND 0x3FF = flags"
  shows "PTE2PA (PA2PTE pa OR flags) = pa"
proof -
  have low: "\<not> bit pa n" if "n < 12" for n
  proof -
    have "take_bit 12 pa = 0"
      using assms(1) by (simp only: aligned_unat word_unat_eq_iff unat_take_bit) simp
    then show ?thesis using that by (metis bit_take_bit_iff bit_0_eq bot_apply bot_bool_def)
  qed
  have hi: "\<not> bit flags n" if "10 \<le> n" for n
  proof -
    have "flags = take_bit 10 flags"
      using assms(2) by (simp add: take_bit_eq_mask mask_eq_exp_minus_1)
    then show ?thesis using that by (metis bit_take_bit_iff not_le)
  qed
  show ?thesis
  proof (rule bit_word_eqI)
    fix n assume "n < LENGTH(64)"
    then show "bit (PTE2PA (PA2PTE pa OR flags)) n = bit pa n"
      using low[of n] hi[of "n - 2"] by (cases "n < 12") (auto simp: PTE2PA_def PA2PTE_def bit_simps)
  qed
qed

lemma PTE_FLAGS_PA2PTE:
  assumes "flags AND 0x3FF = flags"
  shows "PTE_FLAGS (PA2PTE pa OR flags) = flags"
proof -
  have "(0x3FF :: u64) = mask 10" by (simp add: mask_eq_exp_minus_1)
  moreover have "PA2PTE pa AND mask 10 = 0"
    by (rule bit_word_eqI) (auto simp: PA2PTE_def bit_simps)
  ultimately show ?thesis using assms
    by (simp add: PTE_FLAGS_def bit.conj_disj_distrib2 bit.conj_disj_distrib)
qed

lemma PX_less: "unat (PX level va) < 512"
proof -
  have "(0x1FF :: u64) = mask 9" by (simp add: mask_eq_exp_minus_1)
  then have "PX level va = take_bit 9 (drop_bit (PXSHIFT level) va)"
    by (simp only: PX_def take_bit_eq_mask)
  then show ?thesis by (simp only: unat_take_bit) simp
qed

lemma aligned_PTE2PA [simp]: "aligned (PTE2PA pte)"
proof -
  have "take_bit 12 (PTE2PA pte) = 0"
    by (rule bit_word_eqI) (auto simp: PTE2PA_def bit_simps)
  then have "unat (take_bit 12 (PTE2PA pte)) = 0" by (simp only: unat_0)
  then show ?thesis unfolding unat_take_bit by (simp add: aligned_unat)
qed

lemma PGROUNDUP_aligned:
  assumes "aligned a" "unat a + 4095 < 2 ^ 64"
  shows "PGROUNDUP a = a"
proof -
  obtain k where k: "unat a = 4096 * k" using assms(1) by (auto simp: aligned_unat mod_eq_0_iff_dvd)
  have "unat (PGROUNDUP a) = unat a" unfolding unat_PGROUNDUP[OF assms(2)] k by simp
  then show ?thesis by (simp add: word_unat_eq_iff)
qed

end
