(* ===== verification/Spin.thy ===== *)
theory Spin
  imports Machine
begin

text \<open>
  Spinlocks under interleaving (\<^verbatim>\<open>kernel/spinlock.c\<close>). Each hart runs the fragments of
  \<^verbatim>\<open>acquire\<close> and \<^verbatim>\<open>release\<close> of theory \<open>Machine\<close>; a step of the system is one fragment on one
  hart, and which hart moves is arbitrary. The only atomicity assumed is that of the swap
  instruction. The invariant says how the lock word, the recorded owner and the harts' program
  points agree; mutual exclusion follows.
\<close>

section \<open>Steps\<close>

datatype phase = Running | Trying lockid | Swapped lockid | Releasing lockid

type_synonym spin_sys = "machine \<times> (nat \<Rightarrow> phase)"

definition on_hart :: "nat \<Rightarrow> machine \<Rightarrow> machine" where
  "on_hart h m = m\<lparr>tp := h\<rparr>"

inductive spin_step :: "spin_sys \<Rightarrow> spin_sys \<Rightarrow> bool" where
  enter: "ph h = Running \<Longrightarrow> acquire_enter lk (on_hart h m) = Ok () m' \<Longrightarrow>
    spin_step (m, ph) (m', ph(h := Trying lk))"
| swap_busy: "ph h = Trying lk \<Longrightarrow> test_and_set lk (on_hart h m) = (old, m') \<Longrightarrow> old \<noteq> 0 \<Longrightarrow>
    spin_step (m, ph) (m', ph)"
| swap_free: "ph h = Trying lk \<Longrightarrow> test_and_set lk (on_hart h m) = (old, m') \<Longrightarrow> old = 0 \<Longrightarrow>
    spin_step (m, ph) (m', ph(h := Swapped lk))"
| own: "ph h = Swapped lk \<Longrightarrow>
    spin_step (m, ph) (acquire_done lk (on_hart h m), ph(h := Running))"
| disown: "ph h = Running \<Longrightarrow> release_enter lk (on_hart h m) = Ok () m' \<Longrightarrow>
    spin_step (m, ph) (m', ph(h := Releasing lk))"
| unlock: "ph h = Releasing lk \<Longrightarrow> release_exit lk (on_hart h m) = Ok () m' \<Longrightarrow>
    spin_step (m, ph) (m', ph(h := Running))"

definition spin_init :: "machine \<Rightarrow> bool" where
  "spin_init m \<longleftrightarrow> (\<forall>lk. lock_free lk m) \<and> (\<forall>h. noff (cpus m h) = 0)"

inductive spin_reach :: "spin_sys \<Rightarrow> bool" where
  start: "spin_init m \<Longrightarrow> spin_reach (m, \<lambda>_. Running)"
| step: "spin_reach s \<Longrightarrow> spin_step s t \<Longrightarrow> spin_reach t"

text \<open>
  A hart is inside the critical section of \<open>lk\<close> from its successful swap until the store that
  clears the lock word.
\<close>

definition inside :: "nat \<Rightarrow> lockid \<Rightarrow> spin_sys \<Rightarrow> bool" where
  "inside h lk s \<longleftrightarrow> snd s h = Swapped lk \<or> snd s h = Releasing lk \<or> lkcpu (locks (fst s) lk) = Some h"

section \<open>Invariant\<close>

text \<open>
  Per lock: a clear lock word means nobody is inside; at most one hart is inside; a hart that
  is between its swap and the recording of the owner, or between the erasing of the owner and
  the unlock, sees no recorded owner.
\<close>

definition lock_inv :: "lockid \<Rightarrow> spin_sys \<Rightarrow> bool" where
  "lock_inv lk s \<longleftrightarrow>
     (locked (locks (fst s) lk) = 0 \<longrightarrow> (\<forall>h. \<not> inside h lk s)) \<and>
     (\<exists>h0. \<forall>h. inside h lk s \<longrightarrow> h = h0) \<and>
     (\<forall>h. snd s h = Swapped lk \<or> snd s h = Releasing lk \<longrightarrow> lkcpu (locks (fst s) lk) = None)"

lemma lock_inv_unique: "lock_inv lk s \<Longrightarrow> inside h lk s \<Longrightarrow> inside h' lk s \<Longrightarrow> h = h'"
  by (auto simp: lock_inv_def)

lemma lock_inv_locked: "lock_inv lk s \<Longrightarrow> inside h lk s \<Longrightarrow> locked (locks (fst s) lk) \<noteq> 0"
  by (auto simp: lock_inv_def)

lemma lock_inv_empty:
  "lock_inv lk s \<Longrightarrow> locked (locks (fst s) lk) = 0 \<Longrightarrow>
     lkcpu (locks (fst s) lk) = None \<and> snd s h \<noteq> Swapped lk \<and> snd s h \<noteq> Releasing lk"
  by (cases "lkcpu (locks (fst s) lk)") (auto simp: lock_inv_def inside_def)

text \<open>A step leaves a lock's invariant alone when it changes neither its word nor its insiders.\<close>

lemma lock_inv_frame:
  assumes "lock_inv lk (m, ph)" "locks m' lk = locks m lk"
    and "\<And>x. ph' x \<in> {Swapped lk, Releasing lk} \<longleftrightarrow> ph x \<in> {Swapped lk, Releasing lk}"
  shows "lock_inv lk (m', ph')"
proof -
  have "inside x lk (m', ph') \<longleftrightarrow> inside x lk (m, ph)" for x
    using assms(2) assms(3)[of x] by (auto simp: inside_def)
  with assms show ?thesis by (simp add: lock_inv_def)
qed

text \<open>If \<open>h\<close> is the only hart inside after a step and the word is set, the invariant holds.\<close>

lemma lock_inv_single:
  assumes "\<And>x. x \<noteq> h \<Longrightarrow> ph' x \<noteq> Swapped lk \<and> ph' x \<noteq> Releasing lk"
    and "locked (locks m' lk) \<noteq> 0 \<or> (ph' h \<noteq> Swapped lk \<and> ph' h \<noteq> Releasing lk \<and> lkcpu (locks m' lk) = None)"
    and "lkcpu (locks m' lk) = None \<or>
      (lkcpu (locks m' lk) = Some h \<and> ph' h \<noteq> Swapped lk \<and> ph' h \<noteq> Releasing lk)"
  shows "lock_inv lk (m', ph')"
proof -
  have "inside x lk (m', ph') \<Longrightarrow> x = h" for x
    using assms(1)[of x] assms(3) by (auto simp: inside_def)
  moreover have "\<not> inside h lk (m', ph')" if "locked (locks m' lk) = 0"
    using assms(2) that by (simp add: inside_def)
  moreover have "lkcpu (locks m' lk) = None" if "ph' x = Swapped lk \<or> ph' x = Releasing lk" for x
    using that assms(1)[of x] assms(3) by (cases "x = h") auto
  ultimately show ?thesis unfolding lock_inv_def fst_conv snd_conv by blast
qed

lemma locks_on_hart [simp]: "locks (on_hart h m) = locks m" "tp (on_hart h m) = h"
  by (simp_all add: on_hart_def)

lemma on_hart_self: "tp m = h \<Longrightarrow> on_hart h m = m"
  by (auto simp: on_hart_def)

lemma acquire_enter_locks: "acquire_enter lk m = Ok u m' \<Longrightarrow> locks m' = locks m"
  by (auto simp: acquire_enter_def Let_def split: if_splits)

lemma pop_off_locks: "pop_off m = Ok u m' \<Longrightarrow> locks m' = locks m"
  by (auto simp: spinlock_defs Let_def split: if_splits)

lemma insider_only:
  assumes "lock_inv lk (m, ph)" "inside h lk (m, ph)" "x \<noteq> h"
  shows "ph x \<noteq> Swapped lk \<and> ph x \<noteq> Releasing lk"
  using lock_inv_unique[OF assms(1,2), of x] assms(3) by (auto simp: inside_def)

lemma spin_step_inv:
  assumes "spin_step s t" "\<And>l. lock_inv l s"
  shows "lock_inv l t"
  using assms
proof (induction rule: spin_step.induct)
  case (enter ph h lk m m')
  then have l: "locks m' = locks m" by (auto dest: acquire_enter_locks)
  show ?case by (rule lock_inv_frame[OF enter.prems]) (use enter.hyps(1) l in auto)
next
  case (swap_busy ph h lk m old m')
  then have l: "locks m' = (locks m)(lk := (locks m lk)\<lparr>locked := 1\<rparr>)" and "locked (locks m lk) \<noteq> 0"
    by (auto simp: test_and_set_def)
  then show ?case
    using swap_busy.prems[of l] by (auto simp: lock_inv_def inside_def)
next
  case (swap_free ph h lk m old m')
  then have l: "locks m' = (locks m)(lk := (locks m lk)\<lparr>locked := 1\<rparr>)" and z: "locked (locks m lk) = 0"
    by (auto simp: test_and_set_def)
  show ?case
  proof (cases "l = lk")
    case True
    from z have "lkcpu (locks m lk) = None" "ph x \<noteq> Swapped lk" "ph x \<noteq> Releasing lk" for x
      using lock_inv_empty[OF swap_free.prems, of lk x] by simp_all
    with l show ?thesis unfolding True by (intro lock_inv_single[of h]) simp_all
  next
    case False
    show ?thesis by (rule lock_inv_frame[OF swap_free.prems]) (use l False swap_free.hyps(1) in auto)
  qed
next
  case (own ph h lk m)
  then have i: "inside h lk (m, ph)" by (simp add: inside_def)
  show ?case
  proof (cases "l = lk")
    case True
    with insider_only[OF own.prems i] lock_inv_locked[OF own.prems i] show ?thesis
      by (intro lock_inv_single[of h]) (simp_all add: acquire_done_def cpuid_def)
  next
    case False
    show ?thesis
      by (rule lock_inv_frame[OF own.prems]) (use False own.hyps(1) in \<open>auto simp: acquire_done_def\<close>)
  qed
next
  case (disown ph h lk m m')
  then have l: "locks m' = (locks m)(lk := (locks m lk)\<lparr>lkcpu := None\<rparr>)"
    and h: "lkcpu (locks m lk) = Some h" "locked (locks m lk) \<noteq> 0"
    by (auto simp: release_enter_def holding_def cpuid_def split: if_splits)
  then have i: "inside h lk (m, ph)" by (simp add: inside_def)
  show ?case
  proof (cases "l = lk")
    case True
    with h l insider_only[OF disown.prems i] show ?thesis
      by (intro lock_inv_single[of h]) simp_all
  next
    case False
    show ?thesis by (rule lock_inv_frame[OF disown.prems]) (use l False disown.hyps(1) in auto)
  qed
next
  case (unlock ph h lk m m')
  then have l: "locks m' = (locks m)(lk := (locks m lk)\<lparr>locked := 0\<rparr>)"
    by (auto simp: release_exit_def dest: pop_off_locks)
  from unlock.hyps have i: "inside h lk (m, ph)" by (simp add: inside_def)
  from unlock.hyps have n: "lkcpu (locks m lk) = None"
    using unlock.prems[of lk] by (auto simp: lock_inv_def)
  show ?case
  proof (cases "l = lk")
    case True
    with l n insider_only[OF unlock.prems i] show ?thesis
      by (intro lock_inv_single[of h]) simp_all
  next
    case False
    show ?thesis by (rule lock_inv_frame[OF unlock.prems]) (use l False unlock.hyps(1) in auto)
  qed
qed

lemma spin_reach_inv: "spin_reach s \<Longrightarrow> lock_inv lk s"
proof (induction arbitrary: lk rule: spin_reach.induct)
  case (start m)
  then show ?case by (auto simp: lock_inv_def inside_def spin_init_def lock_free_def)
next
  case (step s t)
  then show ?case by (blast intro: spin_step_inv)
qed

text \<open>
  C3: Spinlock mutual exclusion. However the fragments of \<^verbatim>\<open>acquire()\<close> and \<^verbatim>\<open>release()\<close> of any number
  of harts interleave, at most one hart is between the successful swap and the clearing store
  of a lock, and the lock word is set during that time.
\<close>

theorem spin_mutual_exclusion:
  assumes "spin_reach s" "inside h lk s" "inside h' lk s"
  shows "h = h' \<and> locked (locks (fst s) lk) \<noteq> 0"
  using lock_inv_unique[OF spin_reach_inv[OF assms(1)] assms(2,3)]
    lock_inv_locked[OF spin_reach_inv[OF assms(1)] assms(2)] by blast

definition boot_machine :: machine where
  "boot_machine = \<lparr>tp = 0, sie = (\<lambda>_. True), cpus = (\<lambda>_. \<lparr>cpu_proc = None, noff = 0, intena = False\<rparr>),
     locks = (\<lambda>_. \<lparr>locked = 0, lkname = [], lkcpu = None\<rparr>), mem = (\<lambda>_. 0)\<rparr>"

lemma boot_machine_trying:
  "spin_reach (push_off boot_machine, (\<lambda>_. Running)(0 := Trying KmemLock))"
proof (rule spin_reach.step[OF spin_reach.start[of boot_machine]])
  show "spin_init boot_machine" by (simp add: spin_init_def boot_machine_def lock_free_def)
  show "spin_step (boot_machine, \<lambda>_. Running) (push_off boot_machine, (\<lambda>_. Running)(0 := Trying KmemLock))"
    by (rule spin_step.enter)
      (simp_all add: acquire_enter_def on_hart_def holding_def boot_machine_def Let_def)
qed

theorem spin_mutual_exclusion_witness:
  "spin_reach (snd (test_and_set KmemLock (push_off boot_machine)), (\<lambda>_. Running)(0 := Swapped KmemLock)) \<and>
   \<not> inside 1 KmemLock (snd (test_and_set KmemLock (push_off boot_machine)), (\<lambda>_. Running)(0 := Swapped KmemLock))"
proof
  have hart0: "on_hart 0 (push_off boot_machine) = push_off boot_machine"
    by (rule on_hart_self) (simp add: boot_machine_def)
  have free: "locked (locks boot_machine KmemLock) = 0" by (simp add: boot_machine_def)
  show r: "spin_reach (snd (test_and_set KmemLock (push_off boot_machine)),
      (\<lambda>_. Running)(0 := Swapped KmemLock))"
  proof (rule spin_reach.step[OF boot_machine_trying])
    have "spin_step (push_off boot_machine, (\<lambda>_. Running)(0 := Trying KmemLock))
        (snd (test_and_set KmemLock (push_off boot_machine)),
          ((\<lambda>_. Running)(0 := Trying KmemLock))(0 := Swapped KmemLock))"
      by (rule spin_step.swap_free[where h = 0 and lk = KmemLock and old = 0])
        (simp_all add: hart0 test_and_set_def free)
    then show "spin_step (push_off boot_machine, (\<lambda>_. Running)(0 := Trying KmemLock))
        (snd (test_and_set KmemLock (push_off boot_machine)), (\<lambda>_. Running)(0 := Swapped KmemLock))"
      by simp
  qed
  show "\<not> inside 1 KmemLock (snd (test_and_set KmemLock (push_off boot_machine)),
      (\<lambda>_. Running)(0 := Swapped KmemLock))"
    using spin_mutual_exclusion[OF r, of 0 KmemLock 1] by (auto simp: inside_def)
qed

end
