(* ===== verification/Cstring.thy ===== *)
theory Cstring
  imports Riscv
begin

text \<open>
  The memory and string routines of \<^verbatim>\<open>kernel/string.c\<close>. The block operations work on
  byte-addressed memory with the loops of the source; the lemmas give their closed forms,
  for \<^verbatim>\<open>memmove\<close> also when source and destination overlap. The string operations take the
  bytes a pointer can read as a function from offsets (\<open>p i\<close> is \<^verbatim>\<open>p[i]\<close>), so that they
  apply to memory and to byte arrays inside structures alike; destinations are byte lists.
\<close>

type_synonym reader = "nat \<Rightarrow> u8"

definition at_mem :: "memory \<Rightarrow> u64 \<Rightarrow> reader" where
  "at_mem m a = (\<lambda>i. m (a + of_nat i))"

section \<open>Block operations\<close>

primrec memset_loop :: "memory \<Rightarrow> u64 \<Rightarrow> u8 \<Rightarrow> nat \<Rightarrow> nat \<Rightarrow> memory" where
  "memset_loop m cdst c i 0 = m"
| "memset_loop m cdst c i (Suc k) = memset_loop (m(cdst + of_nat i := c)) cdst c (Suc i) k"

definition memset :: "memory \<Rightarrow> u64 \<Rightarrow> u8 \<Rightarrow> u32 \<Rightarrow> memory" where
  "memset m dst c n = memset_loop m dst c 0 (unat n)"

primrec memcmp_loop :: "reader \<Rightarrow> reader \<Rightarrow> nat \<Rightarrow> nat \<Rightarrow> int" where
  "memcmp_loop s1 s2 i 0 = 0"
| "memcmp_loop s1 s2 i (Suc n) =
     (if s1 i \<noteq> s2 i then uint (s1 i) - uint (s2 i) else memcmp_loop s1 s2 (Suc i) n)"

definition memcmp :: "reader \<Rightarrow> reader \<Rightarrow> u32 \<Rightarrow> int" where
  "memcmp v1 v2 n = memcmp_loop v1 v2 0 (unat n)"

primrec copy_down :: "memory \<Rightarrow> u64 \<Rightarrow> u64 \<Rightarrow> nat \<Rightarrow> memory" where
  "copy_down m d s 0 = m"
| "copy_down m d s (Suc n) = copy_down (m(d - 1 := m (s - 1))) (d - 1) (s - 1) n"

primrec copy_up :: "memory \<Rightarrow> u64 \<Rightarrow> u64 \<Rightarrow> nat \<Rightarrow> memory" where
  "copy_up m d s 0 = m"
| "copy_up m d s (Suc n) = copy_up (m(d := m s)) (d + 1) (s + 1) n"

definition memmove :: "memory \<Rightarrow> u64 \<Rightarrow> u64 \<Rightarrow> u32 \<Rightarrow> memory" where
  "memmove m dst src n =
     (if n = 0 then m
      else if src < dst \<and> src + ucast n > dst
        then copy_down m (dst + ucast n) (src + ucast n) (unat n)
      else copy_up m dst src (unat n))"

definition memcpy :: "memory \<Rightarrow> u64 \<Rightarrow> u64 \<Rightarrow> u32 \<Rightarrow> memory" where
  "memcpy m dst src n = memmove m dst src n"

section \<open>Strings\<close>

primrec strncmp :: "reader \<Rightarrow> reader \<Rightarrow> nat \<Rightarrow> int" where
  "strncmp p q 0 = 0"
| "strncmp p q (Suc n) =
     (if p 0 \<noteq> 0 \<and> p 0 = q 0 then strncmp (\<lambda>i. p (Suc i)) (\<lambda>i. q (Suc i)) n
      else uint (p 0) - uint (q 0))"

text \<open>
  \<^verbatim>\<open>strncpy(s, t, n)\<close> writes exactly \<open>n\<close> bytes: the bytes of \<^verbatim>\<open>t\<close> up to and including its
  NUL, then zeroes. The model returns the bytes written.
\<close>

primrec strncpy :: "reader \<Rightarrow> nat \<Rightarrow> u8 list" where
  "strncpy t 0 = []"
| "strncpy t (Suc n) = (if t 0 \<noteq> 0 then t 0 # strncpy (\<lambda>i. t (Suc i)) n else 0 # replicate n 0)"

text \<open>
  \<^verbatim>\<open>safestrcpy(s, t, n)\<close> leaves the rest of the destination alone; \<open>safestrcpy_bytes\<close> are the
  bytes it writes.
\<close>

primrec safestrcpy_loop :: "reader \<Rightarrow> nat \<Rightarrow> u8 list" where
  "safestrcpy_loop t 0 = [0]"
| "safestrcpy_loop t (Suc n) =
     (if t 0 \<noteq> 0 then t 0 # safestrcpy_loop (\<lambda>i. t (Suc i)) n else [0, 0])"

definition safestrcpy :: "u8 list \<Rightarrow> reader \<Rightarrow> int \<Rightarrow> u8 list" where
  "safestrcpy s t n =
     (if n \<le> 0 then s
      else let bs = safestrcpy_loop t (nat (n - 1)) in bs @ drop (length bs) s)"

partial_function (option) strlen_from :: "reader \<Rightarrow> nat \<Rightarrow> nat option" where
  "strlen_from s n = (if s n \<noteq> 0 then strlen_from s (Suc n) else Some n)"

definition strlen :: "reader \<Rightarrow> nat option" where
  "strlen s = strlen_from s 0"

section \<open>Closed forms of the block operations\<close>

lemma store_bytes_Cons:
  assumes "Suc (length bs) \<le> 2 ^ 64"
  shows "store_bytes (m(a := b)) (a + 1) bs = store_bytes m a (b # bs)"
proof -
  have "store_bytes m a [b] = m(a := b)"
    by (auto simp: store_bytes_def fun_eq_iff unat_eq_0)
  then show ?thesis using store_bytes_append[of "[b]" bs m a] assms by simp
qed

lemma memset_loop_eq:
  "k < 2 ^ 64 \<Longrightarrow> memset_loop m dst c i k = store_bytes m (dst + of_nat i) (replicate k c)"
proof (induction k arbitrary: m i)
  case (Suc k)
  then show ?case
    using store_bytes_Cons[of "replicate k c" m "dst + of_nat i" c]
    by (simp add: add.assoc add.commute[of 1])
qed simp

lemma memset_eq: "memset m dst c n = store_bytes m dst (replicate (unat n) c)"
  using memset_loop_eq[of "unat n" m dst c 0] unsigned_less[of n, where 'a = nat]
  by (simp add: memset_def)

lemma memcmp_loop_eq_0:
  "memcmp_loop s1 s2 i n = 0 \<longleftrightarrow> (\<forall>j < n. s1 (i + j) = s2 (i + j))"
proof (induction n arbitrary: i)
  case (Suc n)
  have "(\<forall>j < Suc n. s1 (i + j) = s2 (i + j)) \<longleftrightarrow>
      s1 i = s2 i \<and> (\<forall>j < n. s1 (Suc i + j) = s2 (Suc i + j))"
    by (auto simp: less_Suc_eq_0_disj)
  with Suc show ?case by (simp add: word_uint_eq_iff)
qed simp

text \<open>
  Reading a source range from a memory whose destination range has been partly written: the
  ascending copy is right when no source byte is overwritten before it is read, the
  descending copy in the mirrored situation.
\<close>

lemma copy_up_eq:
  assumes "unat d + n \<le> 2 ^ 64" "unat s + n \<le> 2 ^ 64"
    and "d \<le> s \<or> unat s + n \<le> unat d"
  shows "copy_up m d s n = store_bytes m d (load_bytes m s n)"
  using assms
proof (induction n arbitrary: m d s)
  case 0
  then show ?case by (simp add: load_bytes_def)
next
  case (Suc n)
  have split: "load_bytes m s (Suc n) = m s # load_bytes m (s + 1) n"
    by (simp add: load_bytes_def map_upt_Suc algebra_simps del: upt_Suc)
  show ?case
  proof (cases n)
    case 0
    then show ?thesis
      by (auto simp: load_bytes_def store_bytes_def fun_eq_iff unat_eq_0)
  next
    case (Suc k)
    with Suc.prems have d1: "unat (d + 1) = unat d + 1" and s1: "unat (s + 1) = unat s + 1"
      using unat_add_of_nat[of d 1] unat_add_of_nat[of s 1] by simp_all
    have keep: "load_bytes (m(d := m s)) (s + 1) n = load_bytes m (s + 1) n"
    proof (rule load_bytes_cong)
      fix i assume "i < n"
      then have "unat (s + 1 + of_nat i) = unat s + 1 + i"
        using Suc.prems unat_add_of_nat[of s "Suc i"] by (simp add: algebra_simps)
      then have "s + 1 + of_nat i \<noteq> d"
        using Suc.prems \<open>i < n\<close> by (auto simp: word_le_nat_alt)
      then show "(m(d := m s)) (s + 1 + of_nat i) = m (s + 1 + of_nat i)" by simp
    qed
    have "copy_up (m(d := m s)) (d + 1) (s + 1) n =
        store_bytes (m(d := m s)) (d + 1) (load_bytes (m(d := m s)) (s + 1) n)"
      using Suc.prems by (intro Suc.IH) (auto simp: d1 s1 word_le_nat_alt)
    also have "\<dots> = store_bytes m d (m s # load_bytes m (s + 1) n)"
      unfolding keep using Suc.prems by (intro store_bytes_Cons) auto
    finally show ?thesis by (simp add: split)
  qed
qed

lemma copy_down_eq:
  assumes "n \<le> unat d" "n \<le> unat s" "s < d"
  shows "copy_down m d s n = store_bytes m (d - of_nat n) (load_bytes m (s - of_nat n) n)"
  using assms
proof (induction n arbitrary: m d s)
  case 0
  then show ?case by (simp add: load_bytes_def)
next
  case (Suc n)
  have d1: "unat (d - 1) = unat d - 1" and s1: "unat (s - 1) = unat s - 1"
    using Suc.prems by (auto simp: unat_minus_one unat_gt_0 [symmetric])
  have n64: "n < 2 ^ 64" using Suc.prems unsigned_less[of d, where 'a = nat] by simp
  have split: "load_bytes m (s - of_nat (Suc n)) (Suc n) =
      load_bytes m (s - of_nat (Suc n)) n @ [m (s - 1)]"
    by (simp add: load_bytes_def)
  have keep: "load_bytes (m(d - 1 := m (s - 1))) (s - 1 - of_nat n) n =
      load_bytes m (s - of_nat (Suc n)) n"
  proof -
    have e: "s - 1 - of_nat n = s - of_nat (Suc n)" by simp
    show ?thesis unfolding e
    proof (rule load_bytes_cong)
      fix i assume i: "i < n"
      have "s - of_nat (Suc n) + of_nat i = s - of_nat (Suc n - i)"
        using i by (simp add: of_nat_diff)
      also have "unat \<dots> = unat s - (Suc n - i)"
        using Suc.prems i by (intro unat_diff_of_nat) simp
      finally have "unat (s - of_nat (Suc n) + of_nat i) < unat (d - 1)"
        using Suc.prems i by (simp add: d1 word_less_nat_alt)
      then have "s - of_nat (Suc n) + of_nat i \<noteq> d - 1"
        by (rule_tac notI) (simp only: less_irrefl)
      then show "(m(d - 1 := m (s - 1))) (s - of_nat (Suc n) + of_nat i) = m (s - of_nat (Suc n) + of_nat i)"
        by (simp only: fun_upd_other not_False_eq_True)
    qed
  qed
  have "copy_down (m(d - 1 := m (s - 1))) (d - 1) (s - 1) n =
      store_bytes (m(d - 1 := m (s - 1))) (d - 1 - of_nat n) (load_bytes m (s - of_nat (Suc n)) n)"
    using Suc.prems keep by (subst Suc.IH) (auto simp: d1 s1 word_less_nat_alt)
  also have "\<dots> = store_bytes m (d - of_nat (Suc n)) (load_bytes m (s - of_nat (Suc n)) n @ [m (s - 1)])"
  proof -
    have "store_bytes m (d - of_nat (Suc n)) (load_bytes m (s - of_nat (Suc n)) n @ [m (s - 1)]) x =
        store_bytes (m(d - 1 := m (s - 1))) (d - 1 - of_nat n) (load_bytes m (s - of_nat (Suc n)) n) x" for x
    proof -
      have e: "d - 1 - of_nat n = d - of_nat (Suc n)" by simp
      have at: "x = d - 1 \<longleftrightarrow> unat (x - (d - of_nat (Suc n))) = n"
      proof -
        have "x - (d - of_nat (Suc n)) = (x - (d - 1)) + of_nat n" by simp
        then show ?thesis
          using unat_add_of_nat_eq[OF n64, of "x - (d - 1)"] by (simp only:) simp
      qed
      show ?thesis
        unfolding e using at by (auto simp: store_bytes_def nth_append)
    qed
    then show ?thesis by auto
  qed
  finally show ?case by (simp only: split copy_down.simps)
qed

lemma memmove_eq:
  assumes "unat src + unat n < 2 ^ 64" "unat dst + unat n < 2 ^ 64"
  shows "memmove m dst src n = store_bytes m dst (load_bytes m src (unat n))"
proof -
  have c: "(ucast n :: u64) = of_nat (unat n)"
    using assms(1) by (simp only: word_unat_eq_iff) (simp add: unat_ucast_up unat_of_nat64)
  have s: "unat (src + ucast n) = unat src + unat n"
    unfolding c using assms(1) by (rule unat_add_of_nat)
  have d: "unat (dst + ucast n) = unat dst + unat n"
    unfolding c using assms(2) by (rule unat_add_of_nat)
  show ?thesis
  proof (cases "src < dst \<and> src + ucast n > dst")
    case True
    then have "copy_down m (dst + ucast n) (src + ucast n) (unat n) =
        store_bytes m dst (load_bytes m src (unat n))"
      using copy_down_eq[of "unat n" "dst + ucast n" "src + ucast n" m] s d
      by (simp add: word_less_nat_alt flip: c)
    with True show ?thesis
      by (auto simp: memmove_def load_bytes_def)
  next
    case False
    then have "dst \<le> src \<or> unat src + unat n \<le> unat dst"
      using s by (auto simp: word_less_nat_alt word_le_nat_alt)
    with False show ?thesis
      using assms copy_up_eq[of dst "unat n" src m]
      by (auto simp: memmove_def load_bytes_def)
  qed
qed

end
