(* ===== verification/Kalloc.thy ===== *)
theory Kalloc
  imports Machine Cstring
begin

text \<open>
  The physical page allocator (\<^verbatim>\<open>kernel/kalloc.c\<close>). Free pages are threaded into linked lists
  through their own first eight bytes: one list per hart for the 1 MB region carved out for it
  by \<^verbatim>\<open>per_hart_alloc_init\<close>, and the global list \<^verbatim>\<open>kmem.freelist\<close>. The model keeps the lists in
  memory exactly as the code does; \<open>chain\<close> relates a list head to the pages it reaches.

  The locale \<open>page_allocator\<close> is the contract the page-table code relies on; it is interpreted
  on \<^verbatim>\<open>kalloc\<close> and \<^verbatim>\<open>kfree\<close> below.
\<close>

section \<open>State and operations\<close>

record kmem = machine +
  kend :: u64
  freelist :: u64
  hart_freelist :: "nat \<Rightarrow> u64"

definition PER_HART_ALLOC_SIZE :: u64 where "PER_HART_ALLOC_SIZE = 1 * 1024 * 1024"

text \<open>\<^verbatim>\<open>sizeof(struct free_list)\<close>: a 24-byte spinlock and a pointer.\<close>

definition SIZEOF_FREE_LIST :: u64 where "SIZEOF_FREE_LIST = 32"

definition hart_base :: "'z kmem_scheme \<Rightarrow> u64" where
  "hart_base s = PGROUNDUP (kend s + of_nat NCPU * SIZEOF_FREE_LIST)"

definition pkfree :: "u64 \<Rightarrow> 'z kmem_scheme \<Rightarrow> (bool, 'z kmem_scheme) outcome" where
  "pkfree pa s =
     (let i = (pa - hart_base s) div PER_HART_ALLOC_SIZE in
      if of_nat NCPU \<le> i then Ok False s
      else with_lock (HartFreeLock (unat i))
        (\<lambda>s. Ok True (s\<lparr>mem := store64 (mem s) pa (hart_freelist s (unat i)),
                         hart_freelist := (hart_freelist s)(unat i := pa)\<rparr>)) s)"

definition kfree :: "u64 \<Rightarrow> 'z kmem_scheme \<Rightarrow> (unit, 'z kmem_scheme) outcome" where
  "kfree pa s =
     (if pa mod PGSIZE \<noteq> 0 \<or> pa < kend s \<or> PHYSTOP \<le> pa then Panic ''kfree''
      else
        bind (pkfree pa (s\<lparr>mem := memset (mem s) pa 1 4096\<rparr>)) (\<lambda>mine s.
          if mine then Ok () s
          else with_lock KmemLock
            (\<lambda>s. Ok () (s\<lparr>mem := store64 (mem s) pa (freelist s), freelist := pa\<rparr>)) s))"

definition pkalloc :: "'z kmem_scheme \<Rightarrow> (u64, 'z kmem_scheme) outcome" where
  "pkalloc s =
     (let i = cpuid s in
      with_lock (HartFreeLock i)
        (\<lambda>s. let ret = hart_freelist s i in
           if ret \<noteq> 0
           then Ok ret (s\<lparr>hart_freelist := (hart_freelist s)(i := load64 (mem s) ret)\<rparr>)
           else Ok ret s) s)"

definition kalloc :: "'z kmem_scheme \<Rightarrow> (u64, 'z kmem_scheme) outcome" where
  "kalloc s =
     bind (pkalloc s) (\<lambda>ret s.
       if ret \<noteq> 0 then Ok ret (s\<lparr>mem := memset (mem s) ret 5 4096\<rparr>)
       else bind (with_lock KmemLock
           (\<lambda>s. let r = freelist s in
              if r \<noteq> 0 then Ok r (s\<lparr>freelist := load64 (mem s) r\<rparr>) else Ok r s) s)
         (\<lambda>r s. if r \<noteq> 0 then Ok r (s\<lparr>mem := memset (mem s) r 5 4096\<rparr>) else Ok r s))"

primrec hart_fill :: "nat \<Rightarrow> nat \<Rightarrow> u64 \<Rightarrow> 'z kmem_scheme \<Rightarrow> u64 \<times> 'z kmem_scheme" where
  "hart_fill i 0 a s = (a, s)"
| "hart_fill i (Suc j) a s =
     hart_fill i j (a + PGSIZE)
       (s\<lparr>mem := store64 (mem s) a (hart_freelist s i), hart_freelist := (hart_freelist s)(i := a)\<rparr>)"

fun hart_fill_all :: "nat list \<Rightarrow> u64 \<Rightarrow> 'z kmem_scheme \<Rightarrow> (u64, 'z kmem_scheme) outcome" where
  "hart_fill_all [] a s = Ok a s"
| "hart_fill_all (i # is) a s =
     (case hart_fill i (unat (PER_HART_ALLOC_SIZE div PGSIZE)) a s of (a, s) \<Rightarrow>
        if a \<le> PHYSTOP then hart_fill_all is a s else Panic ''assert failed'')"

fun hart_lists_init :: "nat list \<Rightarrow> 'z kmem_scheme \<Rightarrow> 'z kmem_scheme" where
  "hart_lists_init [] s = s"
| "hart_lists_init (i # is) s =
     hart_lists_init is
       ((initlock (HartFreeLock i) ''kmem-per-hart-freelist'' s)
          \<lparr>hart_freelist := (hart_freelist s)(i := 0)\<rparr>)"

definition per_hart_alloc_init :: "'z kmem_scheme \<Rightarrow> (u64, 'z kmem_scheme) outcome" where
  "per_hart_alloc_init s =
     (let s = hart_lists_init [0..<NCPU] s in hart_fill_all [0..<NCPU] (hart_base s) s)"

fun freerange_loop :: "nat \<Rightarrow> u64 \<Rightarrow> u64 \<Rightarrow> 'z kmem_scheme \<Rightarrow> (unit, 'z kmem_scheme) outcome" where
  "freerange_loop 0 p pa_end s = NoFuel"
| "freerange_loop (Suc fuel) p pa_end s =
     (if p + PGSIZE \<le> pa_end
      then bind (kfree p s) (\<lambda>_ s. freerange_loop fuel (p + PGSIZE) pa_end s)
      else Ok () s)"

definition freerange :: "u64 \<Rightarrow> u64 \<Rightarrow> 'z kmem_scheme \<Rightarrow> (unit, 'z kmem_scheme) outcome" where
  "freerange pa_start pa_end s =
     freerange_loop (Suc (unat (pa_end div PGSIZE))) (PGROUNDUP pa_start) pa_end s"

definition kinit :: "'z kmem_scheme \<Rightarrow> (unit, 'z kmem_scheme) outcome" where
  "kinit s =
     bind (per_hart_alloc_init s) (\<lambda>free_memory_start s.
       freerange free_memory_start PHYSTOP (initlock KmemLock ''kmem'' s))"

section \<open>Free lists in memory\<close>

primrec chain :: "memory \<Rightarrow> u64 \<Rightarrow> u64 list \<Rightarrow> bool" where
  "chain m p [] \<longleftrightarrow> p = 0"
| "chain m p (x # xs) \<longleftrightarrow> p = x \<and> x \<noteq> 0 \<and> chain m (load64 m x) xs"

lemma chain_0 [simp]: "chain m 0 xs \<longleftrightarrow> xs = []"
  by (cases xs) auto

lemma chain_nonzero: "p \<noteq> 0 \<Longrightarrow> chain m p xs \<longleftrightarrow> (\<exists>ys. xs = p # ys \<and> chain m (load64 m p) ys)"
  by (cases xs) auto

text \<open>A list depends on the bytes of its own pages only.\<close>

definition same_page :: "memory \<Rightarrow> memory \<Rightarrow> u64 \<Rightarrow> bool" where
  "same_page m m' p \<longleftrightarrow> (\<forall>x. PGROUNDDOWN x = p \<longrightarrow> m' x = m x)"

lemma load64_same_page: "aligned p \<Longrightarrow> same_page m m' p \<Longrightarrow> load64 m' p = load64 m p"
  by (rule load64_cong) (simp add: same_page_def page_offset)

lemma chain_cong:
  "chain m p xs \<Longrightarrow> (\<And>x. x \<in> set xs \<Longrightarrow> aligned x \<and> same_page m m' x) \<Longrightarrow> chain m' p xs"
proof (induction xs arbitrary: p)
  case (Cons a xs)
  have "load64 m' a = load64 m a" using Cons.prems(2)[of a] by (intro load64_same_page) auto
  with Cons show ?case by simp
qed simp

lemma store64_same_page:
  assumes "aligned q" "p \<noteq> q"
  shows "same_page m (store64 m q v) p"
  unfolding same_page_def
proof (intro allI impI)
  fix x assume x: "PGROUNDDOWN x = p"
  then have "\<not> unat (x - q) < 4096" using assms in_page_iff[of q x] by simp
  then show "store64 m q v x = m x" by (intro store64_other) simp
qed

lemma memset_same_page:
  assumes "aligned q" "p \<noteq> q"
  shows "same_page m (memset m q c 4096) p"
  unfolding same_page_def memset_eq
proof (intro allI impI)
  fix x assume "PGROUNDDOWN x = p"
  then have "\<not> unat (x - q) < 4096" using assms in_page_iff[of q x] by simp
  then show "store_bytes m q (replicate (unat (4096 :: u32)) c) x = m x"
    by (intro store_bytes_other) simp
qed

lemma same_page_trans: "same_page m m' p \<Longrightarrow> same_page m' m'' p \<Longrightarrow> same_page m m'' p"
  by (simp add: same_page_def)

lemma same_page_refl [simp]: "same_page m m p"
  by (simp add: same_page_def)

section \<open>Allocator invariant\<close>

definition hart_of :: "'z kmem_scheme \<Rightarrow> u64 \<Rightarrow> nat option" where
  "hart_of s pa = (let i = unat ((pa - hart_base s) div PER_HART_ALLOC_SIZE) in
     if i < NCPU then Some i else None)"

text \<open>
  The array of list heads occupies the first bytes after \<^verbatim>\<open>end\<close>; the pages the allocator owns
  start at the page boundary behind it.
\<close>

definition page_ok :: "'z kmem_scheme \<Rightarrow> u64 \<Rightarrow> bool" where
  "page_ok s pa \<longleftrightarrow> aligned pa \<and> hart_base s \<le> pa \<and> pa < PHYSTOP"

definition kend_ok :: "'z kmem_scheme \<Rightarrow> bool" where
  "kend_ok s \<longleftrightarrow> 0 < kend s \<and> kend s < PHYSTOP"

definition kready :: "'z kmem_scheme \<Rightarrow> bool" where
  "kready s \<longleftrightarrow> hart_ok s \<and> tp s < NCPU \<and> lock_free KmemLock s \<and>
     (\<forall>i < NCPU. lock_free (HartFreeLock i) s) \<and> kend_ok s"

definition lists_ok :: "'z kmem_scheme \<Rightarrow> u64 list \<Rightarrow> (nat \<Rightarrow> u64 list) \<Rightarrow> bool" where
  "lists_ok s G H \<longleftrightarrow>
     chain (mem s) (freelist s) G \<and> distinct G \<and> (\<forall>p \<in> set G. page_ok s p \<and> hart_of s p = None) \<and>
     (\<forall>i < NCPU. chain (mem s) (hart_freelist s i) (H i) \<and> distinct (H i) \<and>
        (\<forall>p \<in> set (H i). page_ok s p \<and> hart_of s p = Some i))"

definition free_set :: "u64 list \<Rightarrow> (nat \<Rightarrow> u64 list) \<Rightarrow> u64 set" where
  "free_set G H = set G \<union> (\<Union>i < NCPU. set (H i))"

definition kmem_inv :: "'z kmem_scheme \<Rightarrow> u64 set \<Rightarrow> bool" where
  "kmem_inv s F \<longleftrightarrow> kready s \<and> (\<exists>G H. lists_ok s G H \<and> F = free_set G H)"

section \<open>Contract\<close>

text \<open>
  What page-table and process code may assume of the allocator. \<open>inv s F\<close> says that the
  allocator is in order in state \<open>s\<close> and that exactly the pages \<open>F\<close> are free.
\<close>

locale page_allocator =
  fixes alloc :: "'s \<Rightarrow> (u64, 's) outcome"
    and dealloc :: "u64 \<Rightarrow> 's \<Rightarrow> (unit, 's) outcome"
    and mem_of :: "'s \<Rightarrow> memory"
    and put_mem :: "memory \<Rightarrow> 's \<Rightarrow> 's"
    and inv :: "'s \<Rightarrow> u64 set \<Rightarrow> bool"
    and valid :: "'s \<Rightarrow> u64 \<Rightarrow> bool"
  assumes alloc_law: "inv s F \<Longrightarrow> \<exists>p s'. alloc s = Ok p s' \<and>
      (p = 0 \<and> inv s' F \<and> mem_of s' = mem_of s \<or>
       p \<in> F \<and> inv s' (F - {p}) \<and> (\<forall>q. q \<noteq> p \<longrightarrow> same_page (mem_of s) (mem_of s') q)) \<and>
      (\<forall>q. valid s' q = valid s q)"
    and dealloc_law: "inv s F \<Longrightarrow> valid s p \<Longrightarrow> p \<notin> F \<Longrightarrow> \<exists>s'. dealloc p s = Ok () s' \<and>
      inv s' (insert p F) \<and> (\<forall>q. q \<noteq> p \<longrightarrow> same_page (mem_of s) (mem_of s') q) \<and>
      (\<forall>q. valid s' q = valid s q)"
    and free_valid: "inv s F \<Longrightarrow> p \<in> F \<Longrightarrow> valid s p"
    and valid_page: "valid s p \<Longrightarrow> aligned p \<and> p \<noteq> 0"
    and put_mem_law: "inv s F \<Longrightarrow> (\<And>q. q \<in> F \<Longrightarrow> same_page (mem_of s) m q) \<Longrightarrow> inv (put_mem m s) F"
begin

lemma alloc_fresh:
  assumes "inv s F" "alloc s = Ok p s'" "p \<noteq> 0"
  shows "p \<in> F" "inv s' (F - {p})" "aligned p" "\<And>q. q \<noteq> p \<Longrightarrow> same_page (mem_of s) (mem_of s') q"
  using alloc_law[OF assms(1)] assms(2,3) free_valid[OF assms(1)] valid_page by auto

lemma alloc_total: "inv s F \<Longrightarrow> \<exists>p s'. alloc s = Ok p s'"
  using alloc_law by blast

text \<open>Pages handed out one after the other are different.\<close>

lemma alloc_distinct:
  assumes "inv s F" "alloc s = Ok p s1" "p \<noteq> 0" "alloc s1 = Ok q s2" "q \<noteq> 0"
  shows "p \<noteq> q" "inv s2 (F - {p, q})"
proof -
  have i1: "inv s1 (F - {p})" using alloc_fresh(2)[OF assms(1,2,3)] .
  from alloc_fresh(1)[OF i1 assms(4,5)] show "p \<noteq> q" by auto
  from alloc_fresh(2)[OF i1 assms(4,5)] show "inv s2 (F - {p, q})"
    by (simp add: insert_commute Diff_insert2 [symmetric])
qed

text \<open>Freeing a page that was handed out restores the set of free pages.\<close>

lemma alloc_dealloc:
  assumes "inv s F" "alloc s = Ok p s1" "p \<noteq> 0"
  shows "\<exists>s2. dealloc p s1 = Ok () s2 \<and> inv s2 F"
proof -
  have p: "p \<in> F" and i1: "inv s1 (F - {p})" using alloc_fresh[OF assms] by auto
  have "valid s1 p"
    using alloc_law[OF assms(1)] assms(2) free_valid[OF assms(1) p] by auto
  then obtain s2 where "dealloc p s1 = Ok () s2" "inv s2 (insert p (F - {p}))"
    using dealloc_law[OF i1] by blast
  then show ?thesis using p by (auto simp: insert_absorb)
qed

end

section \<open>The allocator meets its contract\<close>

lemma same_page_outside: "same_page m m' q \<Longrightarrow> PGROUNDDOWN x = q \<Longrightarrow> m' x = m x"
  by (simp add: same_page_def)

lemma kready_cong:
  assumes "lkview s = lkview s'" "kend s = kend s'"
  shows "kready s = kready s'"
  using assms hart_ok_cong[of s s'] lock_free_cong[of s s'] lkview_eqD(1)[of s s']
  by (simp add: kready_def kend_ok_def)

lemma hart_base_cong: "kend s = kend s' \<Longrightarrow> hart_base s = hart_base s'"
  by (simp add: hart_base_def)

lemma page_ok_cong: "kend s = kend s' \<Longrightarrow> page_ok s p = page_ok s' p"
  by (simp add: page_ok_def hart_base_def)

lemma hart_of_cong: "kend s = kend s' \<Longrightarrow> hart_of s p = hart_of s' p"
  by (simp add: hart_of_def hart_base_def)

lemma grab_kmem [simp]:
  "kend (grab lk s) = kend s" "freelist (grab lk s) = freelist s"
  "hart_freelist (grab lk s) = hart_freelist s"
  by (simp_all add: grab_def push_off_def intr_off_def set_mycpu_def Let_def)

lemma ungrab_kmem [simp]:
  "kend (ungrab lk s) = kend s" "freelist (ungrab lk s) = freelist s"
  "hart_freelist (ungrab lk s) = hart_freelist s"
  by (simp_all add: ungrab_def intr_on_def Let_def)

lemma lkview_kmem_update [simp]:
  "lkview (s\<lparr>mem := m\<rparr>) = lkview s"
  "lkview (s\<lparr>freelist := p\<rparr>) = lkview s"
  "lkview (s\<lparr>hart_freelist := f\<rparr>) = lkview s"
  by (simp_all add: lkview_def)

text \<open>
  Effect of a critical section that rewrites memory and list heads: the lock view is restored
  and only the three fields change.
\<close>

lemma with_lock_update:
  assumes "lock_free lk s" "hart_ok s"
    and "f (grab lk s) = Ok r ((grab lk s)\<lparr>mem := m, freelist := p, hart_freelist := h\<rparr>)"
  obtains s' where "with_lock lk f s = Ok r s'" "lkview s' = lkview s" "mem s' = m"
    "freelist s' = p" "hart_freelist s' = h" "kend s' = kend s"
proof -
  let ?s2 = "(grab lk s)\<lparr>mem := m, freelist := p, hart_freelist := h\<rparr>"
  have v: "lkview ?s2 = lkview (grab lk s)" by simp
  note w = with_lock_Ok[where f = f and r = r and ?s2.0 = ?s2, OF assms v]
  show ?thesis by (rule that[OF w(1)]) (simp_all add: w(2))
qed

text \<open>Taking a page off a list.\<close>

lemma chain_pop:
  assumes "chain m p xs" "p \<noteq> 0"
  shows "xs = p # tl xs" "chain m (load64 m p) (tl xs)"
  using assms by (auto simp: chain_nonzero)

lemma pkalloc_spec:
  assumes "kready s" "lists_ok s G H"
  shows "\<exists>s'. pkalloc s = Ok (hart_freelist s (tp s)) s' \<and> mem s' = mem s \<and> kend s' = kend s \<and>
    freelist s' = freelist s \<and> lkview s' = lkview s \<and> lists_ok s' G (H(tp s := tl (H (tp s))))"
proof -
  let ?i = "tp s" and ?p = "hart_freelist s (tp s)"
  let ?h = "if ?p \<noteq> 0 then (hart_freelist s)(?i := load64 (mem s) ?p) else hart_freelist s"
  let ?f = "\<lambda>s. let ret = hart_freelist s ?i in
           if ret \<noteq> 0 then Ok ret (s\<lparr>hart_freelist := (hart_freelist s)(?i := load64 (mem s) ret)\<rparr>)
           else Ok ret s"
  have i: "?i < NCPU" and free: "lock_free (HartFreeLock ?i) s" "hart_ok s"
    using assms(1) by (auto simp: kready_def)
  obtain s' where s': "with_lock (HartFreeLock ?i) ?f s = Ok ?p s'" "lkview s' = lkview s"
      "mem s' = mem s" "freelist s' = freelist s" "hart_freelist s' = ?h" "kend s' = kend s"
    by (rule with_lock_update[OF free, where f = ?f and r = ?p and m = "mem s" and p = "freelist s" and h = ?h])
      (auto simp: Let_def)
  have c: "chain (mem s) ?p (H ?i)" using assms(2) i by (simp add: lists_ok_def)
  have "chain (mem s) (?h ?i) (tl (H ?i))"
    using c chain_pop(2)[OF c] by (cases "?p = 0") auto
  moreover have "set (tl (H ?i)) \<subseteq> set (H ?i)" by (cases "H ?i") auto
  ultimately have "lists_ok s' G (H(?i := tl (H ?i)))"
    using assms(2) s' page_ok_cong[of s' s] hart_of_cong[of s' s]
    by (auto simp: lists_ok_def distinct_tl)
  with s' show ?thesis by (auto simp: pkalloc_def cpuid_def)
qed

lemma lists_okD:
  assumes "lists_ok s G H" "p \<in> free_set G H"
  shows "aligned p" "hart_base s \<le> p" "p < PHYSTOP" "page_ok s p"
proof -
  show "page_ok s p" using assms by (auto simp: lists_ok_def free_set_def)
  then show "aligned p" "hart_base s \<le> p" "p < PHYSTOP" by (auto simp: page_ok_def)
qed

lemma lists_ok_mem:
  assumes "lists_ok s G H" "\<And>q. q \<in> free_set G H \<Longrightarrow> same_page (mem s) m q"
  shows "lists_ok (s\<lparr>mem := m\<rparr>) G H"
proof -
  have e: "page_ok (s\<lparr>mem := m\<rparr>) q = page_ok s q" "hart_of (s\<lparr>mem := m\<rparr>) q = hart_of s q" for q
    by (simp_all add: page_ok_def hart_of_def hart_base_def)
  have F: "aligned q \<and> same_page (mem s) m q" if "q \<in> free_set G H" for q
    using assms(2)[OF that] lists_okD(1)[OF assms(1) that] by simp
  have "chain (mem s) (freelist s) G" using assms(1) by (simp add: lists_ok_def)
  then have "chain m (freelist s) G"
    by (rule chain_cong) (rule F, simp add: free_set_def)
  moreover have "chain m (hart_freelist s i) (H i)" if "i < NCPU" for i
  proof -
    have "chain (mem s) (hart_freelist s i) (H i)" using assms(1) that by (simp add: lists_ok_def)
    then show ?thesis by (rule chain_cong) (rule F, use that in \<open>auto simp: free_set_def\<close>)
  qed
  ultimately show ?thesis using assms(1) by (simp add: lists_ok_def e)
qed

lemma lists_ok_disjoint:
  assumes "lists_ok s G H" "i < NCPU" "p \<in> set (H i)"
  shows "p \<notin> set G" "j < NCPU \<Longrightarrow> j \<noteq> i \<Longrightarrow> p \<notin> set (H j)"
proof -
  have h: "hart_of s p = Some i" using assms by (simp add: lists_ok_def)
  show "p \<notin> set G" using assms(1) h by (auto simp: lists_ok_def)
  show "p \<notin> set (H j)" if "j < NCPU" "j \<noteq> i"
  proof
    assume "p \<in> set (H j)"
    with assms(1) that(1) have "hart_of s p = Some j" by (simp add: lists_ok_def)
    with h that(2) show False by simp
  qed
qed

lemma free_set_pop_hart:
  assumes "lists_ok s G H" "i < NCPU" "H i = p # ps"
  shows "free_set G (H(i := ps)) = free_set G H - {p}" "p \<in> free_set G H"
proof -
  have "distinct (H i)" using assms(1,2) by (simp add: lists_ok_def)
  then have p: "p \<in> set (H i)" "p \<notin> set ps" "set (H i) = insert p (set ps)"
    using assms(3) by auto
  have "p \<notin> set G" "\<And>j. j < NCPU \<Longrightarrow> j \<noteq> i \<Longrightarrow> p \<notin> set (H j)"
    using lists_ok_disjoint[OF assms(1,2) p(1)] by auto
  then have "(\<Union>j\<in>{..<NCPU}. set ((H(i := ps)) j)) = (\<Union>j\<in>{..<NCPU}. set (H j)) - {p}"
  proof (intro set_eqI iffI)
    fix x assume "x \<in> (\<Union>j\<in>{..<NCPU}. set (H j)) - {p}"
    then obtain j where "j < NCPU" "x \<in> set (H j)" "x \<noteq> p" by auto
    with p(3) show "x \<in> (\<Union>j\<in>{..<NCPU}. set ((H(i := ps)) j))"
      by (cases "j = i") (auto intro: bexI[of _ j])
  qed (use p(2,3) assms(2) in \<open>auto split: if_splits\<close>)
  with \<open>p \<notin> set G\<close> show "free_set G (H(i := ps)) = free_set G H - {p}"
    by (auto simp: free_set_def)
  from p assms(2) show "p \<in> free_set G H" by (auto simp: free_set_def)
qed

lemma free_set_pop_global:
  assumes "lists_ok s (p # G) H"
  shows "free_set G H = free_set (p # G) H - {p}" "p \<in> free_set (p # G) H"
  using assms by (auto simp: lists_ok_def free_set_def)

lemma page_fill_same:
  assumes "aligned p" "q \<noteq> p"
  shows "same_page m (memset m p c 4096) q"
  using assms by (intro memset_same_page) auto

text \<open>Allocation, with its effect on lists, memory and locks.\<close>

lemma kalloc_lists:
  assumes "kready s" "lists_ok s G H"
  shows "\<exists>p s' G' H'. kalloc s = Ok p s' \<and> lkview s' = lkview s \<and> kend s' = kend s \<and> lists_ok s' G' H' \<and>
    p = (if hart_freelist s (tp s) \<noteq> 0 then hart_freelist s (tp s) else freelist s) \<and>
    (p = 0 \<and> mem s' = mem s \<and> free_set G' H' = free_set G H \<or>
     p \<noteq> 0 \<and> p \<in> free_set G H \<and> free_set G' H' = free_set G H - {p} \<and> mem s' = memset (mem s) p 5 4096)"
proof -
  let ?i = "tp s" and ?p = "hart_freelist s (tp s)"
  have i: "?i < NCPU" using assms(1) by (simp add: kready_def)
  obtain s1 where s1: "pkalloc s = Ok ?p s1" "mem s1 = mem s" "kend s1 = kend s"
      "freelist s1 = freelist s" "lkview s1 = lkview s" "lists_ok s1 G (H(?i := tl (H ?i)))"
    using pkalloc_spec[OF assms] by blast
  have c: "chain (mem s) ?p (H ?i)" using assms(2) i by (simp add: lists_ok_def)
  show ?thesis
  proof (cases "?p = 0")
    case False
    then have Hi: "H ?i = ?p # tl (H ?i)" using chain_pop(1)[OF c] by simp
    note F = free_set_pop_hart[OF assms(2) i Hi]
    have al: "aligned ?p" using lists_okD(1)[OF assms(2) F(2)] .
    have "lists_ok (s1\<lparr>mem := memset (mem s1) ?p 5 4096\<rparr>) G (H(?i := tl (H ?i)))"
      using s1(6) by (rule lists_ok_mem) (use F(1) al in \<open>auto intro: page_fill_same\<close>)
    moreover have "kalloc s = Ok ?p (s1\<lparr>mem := memset (mem s1) ?p 5 4096\<rparr>)"
      using False s1(1) by (simp add: kalloc_def)
    ultimately show ?thesis using False F s1 by (intro exI conjI) (assumption | simp)+
  next
    case True
    then have Hi: "H ?i = []" using c by simp
    then have lists1: "lists_ok s1 G H" using s1(6) by (simp add: fun_upd_idem)
    let ?r = "freelist s"
    let ?g = "if ?r \<noteq> 0 then load64 (mem s) ?r else ?r"
    let ?f = "\<lambda>s. let r = freelist s in
        if r \<noteq> 0 then Ok r (s\<lparr>freelist := load64 (mem s) r\<rparr>) else Ok r s"
    have r1: "lock_free KmemLock s1" "hart_ok s1"
      using assms(1) s1(5) lock_free_cong[OF s1(5)] hart_ok_cong[OF s1(5)] by (auto simp: kready_def)
    obtain s2 where s2: "with_lock KmemLock ?f s1 = Ok ?r s2" "lkview s2 = lkview s1" "mem s2 = mem s1"
        "freelist s2 = ?g" "hart_freelist s2 = hart_freelist s1" "kend s2 = kend s1"
      by (rule with_lock_update[OF r1, where f = ?f and r = ?r and m = "mem s1" and p = ?g and h = "hart_freelist s1"])
        (auto simp: Let_def s1(2,4))
    have k: "kalloc s = (if ?r \<noteq> 0 then Ok ?r (s2\<lparr>mem := memset (mem s2) ?r 5 4096\<rparr>) else Ok ?r s2)"
      using True s1(1) s2(1) by (simp add: kalloc_def)
    have cg: "chain (mem s) ?r G" using assms(2) by (simp add: lists_ok_def)
    have e: "page_ok s2 = page_ok s1" "hart_of s2 = hart_of s1"
      using s2(6) page_ok_cong[of s2 s1] hart_of_cong[of s2 s1] by auto
    show ?thesis
    proof (cases "?r = 0")
      case True
      then have "G = []" using cg by simp
      moreover have "lists_ok s2 G H" using lists1 s2 True s1(4) by (simp add: lists_ok_def e)
      ultimately show ?thesis using \<open>?p = 0\<close> True k Hi s1 s2 by (intro exI conjI) (assumption | simp)+
    next
      case False
      then have G: "G = ?r # tl G" using chain_pop(1)[OF cg] by simp
      have l2: "lists_ok s2 (tl G) H"
        using lists1 s2 False s1(2) chain_pop(2)[OF cg False] list.set_sel(2)[of G]
        by (cases G) (simp_all add: lists_ok_def e)
      have F: "free_set (tl G) H = free_set G H - {?r}" "?r \<in> free_set G H"
        using free_set_pop_global[of s ?r "tl G" H] assms(2) G by auto
      have al: "aligned ?r" using lists_okD(1)[OF assms(2) F(2)] .
      have "lists_ok (s2\<lparr>mem := memset (mem s2) ?r 5 4096\<rparr>) (tl G) H"
        using l2 by (rule lists_ok_mem) (use F(1) al in \<open>auto intro: page_fill_same\<close>)
      moreover have "kalloc s = Ok ?r (s2\<lparr>mem := memset (mem s2) ?r 5 4096\<rparr>)"
        using False k by simp
      ultimately show ?thesis using \<open>?p = 0\<close> False F s1 s2 by (intro exI conjI) (assumption | simp)+
    qed
  qed
qed

lemma hart_base_ge:
  assumes "kend_ok s"
  shows "kend s \<le> hart_base s" "0 < hart_base s"
proof -
  let ?a = "kend s + of_nat NCPU * SIZEOF_FREE_LIST"
  have "kend s < 0x88000000" "0 < kend s" using assms by (simp_all add: kend_ok_def layout_defs)
  then have k: "unat (kend s) < 0x88000000" "0 < unat (kend s)"
    by (simp_all add: word_less_nat_alt)
  then have a: "unat ?a = unat (kend s) + 256"
    by (simp add: NCPU_def SIZEOF_FREE_LIST_def unat_plus_if')
  then have "unat (hart_base s) = (unat (kend s) + 256 + 4095) div 4096 * 4096"
    unfolding hart_base_def using k by (subst unat_PGROUNDUP) simp_all
  then have "unat (kend s) \<le> unat (hart_base s)" by linarith
  then show "kend s \<le> hart_base s" "0 < hart_base s"
    using k by (simp_all add: word_le_nat_alt word_less_nat_alt)
qed

lemma page_okD:
  assumes "kend_ok s" "page_ok s p"
  shows "p \<noteq> 0" "aligned p" "\<not> (p mod PGSIZE \<noteq> 0 \<or> p < kend s \<or> PHYSTOP \<le> p)"
  using hart_base_ge[OF assms(1)] assms(2)
  by (auto simp: page_ok_def aligned_def not_le dest: order.strict_trans2)

lemma push_chain:
  assumes "chain m h xs" "aligned p" "p \<noteq> 0" "p \<notin> set xs" "\<And>x. x \<in> set xs \<Longrightarrow> aligned x"
  shows "chain (store64 m p h) p (p # xs)"
proof -
  have "chain (store64 m p h) h xs"
    using assms(1) by (rule chain_cong) (use assms in \<open>auto intro!: store64_same_page\<close>)
  then show ?thesis using assms(3) by (simp add: load64_store64_same)
qed

lemma lists_ok_cong:
  assumes "lists_ok s G H" "mem s = mem s'" "kend s = kend s'" "freelist s = freelist s'"
    "hart_freelist s = hart_freelist s'"
  shows "lists_ok s' G H"
  using assms page_ok_cong[OF assms(3)] hart_of_cong[OF assms(3)] by (simp add: lists_ok_def)

lemma lists_ok_push:
  assumes "lists_ok s G H" "kend_ok s" "page_ok s p" "p \<notin> free_set G H"
    and s': "kend s' = kend s" "mem s' = store64 (mem s) p (case hart_of s p of None \<Rightarrow> freelist s | Some i \<Rightarrow> hart_freelist s i)"
    "freelist s' = (if hart_of s p = None then p else freelist s)"
    "hart_freelist s' = (case hart_of s p of None \<Rightarrow> hart_freelist s | Some i \<Rightarrow> (hart_freelist s)(i := p))"
  shows "\<exists>G' H'. lists_ok s' G' H' \<and> free_set G' H' = insert p (free_set G H)"
proof -
  note p = page_okD[OF assms(2,3)]
  have al: "aligned q" if "q \<in> free_set G H" for q using lists_okD(1)[OF assms(1) that] .
  have e: "page_ok s' q = page_ok s q" "hart_of s' q = hart_of s q" for q
    using page_ok_cong[OF s'(1)] hart_of_cong[OF s'(1)] by auto
  have "lists_ok (s\<lparr>mem := mem s'\<rparr>) G H"
    using assms(1) by (rule lists_ok_mem) (unfold s'(2), rule store64_same_page, use p(2) al assms(4) in auto)
  note L = this[unfolded lists_ok_def, simplified] and L0 = assms(1)[unfolded lists_ok_def]
  have e': "page_ok (s\<lparr>mem := m\<rparr>) q = page_ok s q" "hart_of (s\<lparr>mem := m\<rparr>) q = hart_of s q" for q m
    by (simp_all add: page_ok_def hart_of_def hart_base_def)
  show ?thesis
  proof (cases "hart_of s p")
    case None
    have "chain (mem s') p (p # G)"
      unfolding s'(2) None option.case
      by (rule push_chain) (use L0 p al assms(4) in \<open>auto simp: free_set_def\<close>)
    then have "lists_ok s' (p # G) H"
      using L None s' assms(3,4) by (simp add: lists_ok_def e e' free_set_def)
    then show ?thesis by (intro exI[of _ "p # G"] exI[of _ H]) (auto simp: free_set_def)
  next
    case (Some i)
    then have i: "i < NCPU" by (auto simp: hart_of_def Let_def split: if_splits)
    then have sub: "set (H i) \<subseteq> free_set G H" by (auto simp: free_set_def)
    have "chain (mem s') p (p # H i)"
      unfolding s'(2) Some option.case
      by (rule push_chain) (use L0 i p al assms(4) sub in auto)
    then have "lists_ok s' G (H(i := p # H i))"
      using L Some s' assms(3,4) i sub by (auto simp: lists_ok_def e e')
    moreover have "free_set G (H(i := p # H i)) = insert p (free_set G H)"
      using i by (auto simp: free_set_def split: if_splits)
    ultimately show ?thesis by blast
  qed
qed

lemma hart_of_index:
  "(of_nat NCPU \<le> (pa - hart_base s) div PER_HART_ALLOC_SIZE) = (hart_of s pa = None)"
  "hart_of s pa = Some i \<Longrightarrow> unat ((pa - hart_base s) div PER_HART_ALLOC_SIZE) = i \<and> i < NCPU"
  by (auto simp: hart_of_def Let_def word_le_nat_alt NCPU_def split: if_splits)

lemma kfree_lists:
  assumes "kready s" "lists_ok s G H" "page_ok s p" "p \<notin> free_set G H"
  shows "\<exists>s' G' H'. kfree p s = Ok () s' \<and> lkview s' = lkview s \<and> kend s' = kend s \<and> lists_ok s' G' H' \<and>
    free_set G' H' = insert p (free_set G H) \<and> (\<forall>q. q \<noteq> p \<longrightarrow> same_page (mem s) (mem s') q)"
proof -
  let ?m = "memset (mem s) p 1 4096"
  let ?s = "s\<lparr>mem := ?m\<rparr>"
  have ke: "kend_ok s" "kend_ok ?s" using assms(1) by (auto simp: kready_def kend_ok_def)
  note p = page_okD[OF ke(1) assms(3)]
  have L: "lists_ok ?s G H"
    using assms(2) by (rule lists_ok_mem) (use p(2) assms(4) in \<open>auto intro: page_fill_same\<close>)
  have e: "page_ok ?s q = page_ok s q" "hart_of ?s q = hart_of s q" "hart_base ?s = hart_base s" for q
    using page_ok_cong[of ?s s] hart_of_cong[of ?s s] hart_base_cong[of ?s s] by auto
  have v: "lkview ?s = lkview s" by simp
  have r: "hart_ok ?s" "lock_free KmemLock ?s" "\<And>i. i < NCPU \<Longrightarrow> lock_free (HartFreeLock i) ?s"
    using assms(1) lock_free_cong[OF v] hart_ok_cong[OF v] by (auto simp: kready_def)
  have same: "same_page (mem s) (store64 ?m p v) q" if "q \<noteq> p" for q v
    using page_fill_same[OF p(2) that] store64_same_page[OF p(2) that]
    by (rule same_page_trans)
  note push = lists_ok_push[OF L ke(2) assms(3)[folded e(1)] assms(4), unfolded e]
  show ?thesis
  proof (cases "hart_of s p")
    case None
    let ?f = "\<lambda>s. Ok () (s\<lparr>mem := store64 (mem s) p (freelist s), freelist := p\<rparr>)"
    obtain s' where s': "with_lock KmemLock ?f ?s = Ok () s'" "lkview s' = lkview ?s"
        "mem s' = store64 ?m p (freelist s)" "freelist s' = p"
        "hart_freelist s' = hart_freelist s" "kend s' = kend ?s"
      by (rule with_lock_update[OF r(2,1), where f = ?f and r = "()" and m = "store64 ?m p (freelist s)"
            and p = p and h = "hart_freelist s"]) auto
    have "kfree p s = Ok () s'"
      using p(3) s'(1) None hart_of_index(1)[of p s] by (simp add: kfree_def pkfree_def e Let_def)
    moreover obtain G' H' where "lists_ok s' G' H'" "free_set G' H' = insert p (free_set G H)"
      using push[OF s'(6)] s' None by auto
    ultimately show ?thesis using s' same by auto
  next
    case (Some i)
    note i = hart_of_index(2)[OF Some]
    let ?h = "(hart_freelist s)(i := p)"
    let ?f = "\<lambda>s. Ok True (s\<lparr>mem := store64 (mem s) p (hart_freelist s i),
        hart_freelist := (hart_freelist s)(i := p)\<rparr>)"
    obtain s' where s': "with_lock (HartFreeLock i) ?f ?s = Ok True s'" "lkview s' = lkview ?s"
        "mem s' = store64 ?m p (hart_freelist s i)" "freelist s' = freelist s"
        "hart_freelist s' = ?h" "kend s' = kend ?s"
      by (rule with_lock_update[OF r(3)[OF conjunct2[OF i]] r(1), where f = ?f and r = True
            and m = "store64 ?m p (hart_freelist s i)" and p = "freelist s" and h = ?h]) auto
    have "kfree p s = Ok () s'"
      using p(3) s'(1) Some i hart_of_index(1)[of p s] by (simp add: kfree_def pkfree_def e Let_def)
    moreover obtain G' H' where "lists_ok s' G' H'" "free_set G' H' = insert p (free_set G H)"
      using push[OF s'(6)] s' Some by auto
    ultimately show ?thesis using s' same by auto
  qed
qed

lemma kmem_inv_cong:
  assumes "kready s" "lkview s' = lkview s" "kend s' = kend s" "lists_ok s' G H"
  shows "kmem_inv s' (free_set G H)"
  using assms kready_cong[OF assms(2,3)] by (auto simp: kmem_inv_def)

interpretation ka: page_allocator kalloc kfree mem "\<lambda>m. mem_update (\<lambda>_. m)" kmem_inv
  "\<lambda>s p. kend_ok s \<and> page_ok s p"
proof unfold_locales
  fix s :: "'z kmem_scheme" and F
  assume "kmem_inv s F"
  then obtain G H where i: "kready s" "lists_ok s G H" "F = free_set G H" by (auto simp: kmem_inv_def)
  obtain p s' G' H' where k: "kalloc s = Ok p s'" "lkview s' = lkview s" "kend s' = kend s" "lists_ok s' G' H'"
    and c: "p = 0 \<and> mem s' = mem s \<and> free_set G' H' = free_set G H \<or>
      p \<noteq> 0 \<and> p \<in> free_set G H \<and> free_set G' H' = free_set G H - {p} \<and> mem s' = memset (mem s) p 5 4096"
    using kalloc_lists[OF i(1,2)] by blast
  have "kmem_inv s' (free_set G' H')" using i(1) k by (intro kmem_inv_cong)
  moreover have "same_page (mem s) (memset (mem s) p 5 4096) q" if "p \<in> F" "q \<noteq> p" for q
    using that lists_okD(1)[OF i(2)] i(3) by (auto intro: page_fill_same)
  ultimately have "p = 0 \<and> kmem_inv s' F \<and> mem s' = mem s \<or>
      p \<in> F \<and> kmem_inv s' (F - {p}) \<and> (\<forall>q. q \<noteq> p \<longrightarrow> same_page (mem s) (mem s') q)"
    using c i(3) by metis
  moreover have "\<forall>q. (kend_ok s' \<and> page_ok s' q) = (kend_ok s \<and> page_ok s q)"
    using k(3) page_ok_cong[OF k(3)] by (simp add: kend_ok_def)
  ultimately show "\<exists>p s'. kalloc s = Ok p s' \<and>
      (p = 0 \<and> kmem_inv s' F \<and> mem s' = mem s \<or>
       p \<in> F \<and> kmem_inv s' (F - {p}) \<and> (\<forall>q. q \<noteq> p \<longrightarrow> same_page (mem s) (mem s') q)) \<and>
      (\<forall>q. (kend_ok s' \<and> page_ok s' q) = (kend_ok s \<and> page_ok s q))"
    using k(1) by blast
next
  fix s :: "'z kmem_scheme" and F p
  assume "kmem_inv s F" and p: "kend_ok s \<and> page_ok s p" "p \<notin> F"
  then obtain G H where i: "kready s" "lists_ok s G H" "F = free_set G H" by (auto simp: kmem_inv_def)
  obtain s' G' H' where k: "kfree p s = Ok () s'" "lkview s' = lkview s" "kend s' = kend s" "lists_ok s' G' H'"
    "free_set G' H' = insert p (free_set G H)" "\<forall>q. q \<noteq> p \<longrightarrow> same_page (mem s) (mem s') q"
    using kfree_lists[OF i(1,2)] p i(3) by blast
  have "kmem_inv s' (free_set G' H')" using i(1) k by (intro kmem_inv_cong)
  moreover have "\<forall>q. (kend_ok s' \<and> page_ok s' q) = (kend_ok s \<and> page_ok s q)"
    using k(3) page_ok_cong[OF k(3)] by (simp add: kend_ok_def)
  ultimately show "\<exists>s'. kfree p s = Ok () s' \<and> kmem_inv s' (insert p F) \<and>
      (\<forall>q. q \<noteq> p \<longrightarrow> same_page (mem s) (mem s') q) \<and>
      (\<forall>q. (kend_ok s' \<and> page_ok s' q) = (kend_ok s \<and> page_ok s q))"
    using k i(3) by metis
next
  fix s :: "'z kmem_scheme" and F p
  assume "kmem_inv s F" "p \<in> F"
  then show "kend_ok s \<and> page_ok s p" by (auto simp: kmem_inv_def kready_def dest: lists_okD(4))
next
  fix s :: "'z kmem_scheme" and p
  assume "kend_ok s \<and> page_ok s p"
  then show "aligned p \<and> p \<noteq> 0" using page_okD[of s p] by auto
next
  fix s :: "'z kmem_scheme" and F m
  assume i: "kmem_inv s F" and q: "\<And>q. q \<in> F \<Longrightarrow> same_page (mem s) m q"
  obtain G H where i: "kready s" "lists_ok s G H" "F = free_set G H" using i by (auto simp: kmem_inv_def)
  have "lists_ok (s\<lparr>mem := m\<rparr>) G H" using i(2) by (rule lists_ok_mem) (use q i(3) in auto)
  with i show "kmem_inv (s\<lparr>mem := m\<rparr>) F" by (auto intro: kmem_inv_cong)
qed

section \<open>Boot\<close>

text \<open>
  Boot fills the lists in address order. \<open>filled n s\<close>: the lists hold exactly the first \<open>n\<close> pages
  from \<open>hart_base\<close>.
\<close>

definition page_at :: "'z kmem_scheme \<Rightarrow> nat \<Rightarrow> u64" where
  "page_at s k = hart_base s + of_nat (k * 4096)"

definition filled :: "nat \<Rightarrow> 'z kmem_scheme \<Rightarrow> bool" where
  "filled n s \<longleftrightarrow> (\<exists>G H. lists_ok s G H \<and> free_set G H = page_at s ` {..<n})"

definition total_pages :: "'z kmem_scheme \<Rightarrow> nat" where
  "total_pages s = (unat PHYSTOP - unat (hart_base s)) div 4096"

lemma page_at_cong: "kend s = kend s' \<Longrightarrow> page_at s = page_at s'"
  by (simp add: page_at_def hart_base_def fun_eq_iff)

lemma total_pages_cong: "kend s = kend s' \<Longrightarrow> total_pages s = total_pages s'"
  by (simp add: total_pages_def hart_base_def)

lemma unat_PHYSTOP: "unat PHYSTOP = 0x88000000"
  by (simp add: layout_defs)

lemma unat_page_at:
  assumes "k \<le> total_pages s" "hart_base s \<le> PHYSTOP"
  shows "unat (page_at s k) = unat (hart_base s) + k * 4096"
proof -
  have "unat (hart_base s) \<le> 0x88000000" using assms(2) by (simp add: word_le_nat_alt unat_PHYSTOP)
  moreover have "k * 4096 \<le> 0x88000000 - unat (hart_base s)"
    using assms(1) unfolding total_pages_def unat_PHYSTOP by (simp add: less_eq_div_iff_mult_less_eq)
  ultimately show ?thesis unfolding page_at_def by (subst unat_add_of_nat) simp_all
qed

lemma page_at_inj:
  assumes "hart_base s \<le> PHYSTOP" "j \<le> total_pages s" "k \<le> total_pages s" "page_at s j = page_at s k"
  shows "j = k"
proof -
  have "unat (hart_base s) + j * 4096 = unat (hart_base s) + k * 4096"
    unfolding unat_page_at[OF assms(2,1), symmetric] unat_page_at[OF assms(3,1), symmetric] assms(4) ..
  then show ?thesis by simp
qed

lemma unat_hart_base_mod: "unat (hart_base s) mod 4096 = 0"
  unfolding hart_base_def aligned_unat[symmetric] by (rule aligned_PGROUNDUP)

lemma page_at_ok:
  assumes "hart_base s \<le> PHYSTOP" "k < total_pages s"
  shows "page_ok s (page_at s k)"
proof -
  have u: "unat (page_at s k) = unat (hart_base s) + k * 4096" using assms by (simp add: unat_page_at)
  have "Suc k * 4096 \<le> 0x88000000 - unat (hart_base s)"
    using assms(2) unfolding total_pages_def unat_PHYSTOP by (simp only: Suc_le_eq[symmetric] less_eq_div_iff_mult_less_eq)
  then have "page_at s k < PHYSTOP" by (simp add: word_less_nat_alt u unat_PHYSTOP)
  moreover have "aligned (page_at s k)" unfolding aligned_unat u using unat_hart_base_mod[of s] by simp
  moreover have "hart_base s \<le> page_at s k" by (simp add: word_le_nat_alt u)
  ultimately show ?thesis by (simp add: page_ok_def)
qed

lemma page_ok_page_at:
  assumes "page_ok s p"
  shows "\<exists>k < total_pages s. p = page_at s k"
proof -
  let ?d = "unat p - unat (hart_base s)"
  have b: "unat (hart_base s) \<le> unat p" "unat p < 0x88000000" "unat p mod 4096 = 0"
    using assms by (auto simp: page_ok_def word_le_nat_alt word_less_nat_alt unat_PHYSTOP aligned_unat)
  obtain x y where xy: "unat p = 4096 * x" "unat (hart_base s) = 4096 * y"
    using b(3) unat_hart_base_mod[of s] by (auto simp: mod_eq_0_iff_dvd elim!: dvdE)
  have le: "hart_base s \<le> PHYSTOP" using b(1,2) by (simp add: word_le_nat_alt unat_PHYSTOP)
  have n: "total_pages s = 0x88000 - y" unfolding total_pages_def unat_PHYSTOP xy by simp
  have k: "x - y < total_pages s" using b xy n by simp
  have "unat (page_at s (x - y)) = unat p" using unat_page_at[of "x - y" s] k le b xy by simp
  then have "p = page_at s (x - y)" by (simp add: word_unat_eq_iff)
  with k show ?thesis by blast
qed

lemma hart_of_page_at:
  assumes "hart_base s \<le> PHYSTOP" "k < total_pages s"
  shows "hart_of s (page_at s k) = (if k < 256 * NCPU then Some (k div 256) else None)"
proof -
  have lt: "k * 4096 < 2 ^ 64" using assms(2) by (simp add: total_pages_def unat_PHYSTOP)
  have "unat (of_nat (k * 4096) div 0x100000 :: u64) = k * 4096 div 0x100000"
    unfolding unat_div unat_of_nat64[OF lt] by simp
  also have "\<dots> = k div 256" by simp
  finally show ?thesis
    by (auto simp: hart_of_def page_at_def Let_def PER_HART_ALLOC_SIZE_def NCPU_def)
qed

lemma page_at_Suc: "page_at s k + PGSIZE = page_at s (Suc k)"
  by (simp add: page_at_def PGSIZE_def algebra_simps)

lemma page_at_fresh:
  assumes "hart_base s \<le> PHYSTOP" "n < total_pages s"
  shows "page_at s n \<notin> page_at s ` {..<n}"
proof
  assume "page_at s n \<in> page_at s ` {..<n}"
  then obtain k where k: "k < n" "page_at s n = page_at s k" by auto
  from page_at_inj[OF assms(1) _ _ k(2)] assms(2) k(1) show False by simp
qed

lemma insert_page_at: "insert (page_at s n) (page_at s ` {..<n}) = page_at s ` {..<Suc n}"
  by (simp add: lessThan_Suc)

lemma hart_fill_spec:
  assumes "filled n s" "kend_ok s" "hart_base s \<le> PHYSTOP" "n + j \<le> total_pages s"
    "i < NCPU" "i * 256 \<le> n" "n + j \<le> Suc i * 256"
  shows "\<exists>s'. hart_fill i j (page_at s n) s = (page_at s (n + j), s') \<and> filled (n + j) s' \<and>
    kend s' = kend s \<and> lkview s' = lkview s \<and> freelist s' = freelist s"
  using assms
proof (induction j arbitrary: n s)
  case (Suc j)
  let ?a = "page_at s n"
  let ?s = "s\<lparr>mem := store64 (mem s) ?a (hart_freelist s i), hart_freelist := (hart_freelist s)(i := ?a)\<rparr>"
  have n: "n < total_pages s" and i: "n div 256 = i" "n < 256 * NCPU"
    using Suc.prems(4,5,6,7) by (auto simp: NCPU_def)
  have k: "kend ?s = kend s" by simp
  obtain G H where g: "lists_ok s G H" "free_set G H = page_at s ` {..<n}"
    using Suc.prems(1) by (auto simp: filled_def)
  have fresh: "?a \<notin> free_set G H" unfolding g(2) by (rule page_at_fresh[OF Suc.prems(3) n])
  have h: "hart_of s ?a = Some i" using hart_of_page_at[OF Suc.prems(3) n] i by simp
  have "\<exists>G' H'. lists_ok ?s G' H' \<and> free_set G' H' = insert ?a (free_set G H)"
    by (rule lists_ok_push[OF g(1) Suc.prems(2) page_at_ok[OF Suc.prems(3) n] fresh]) (simp_all add: h)
  then have f: "filled (Suc n) ?s"
    unfolding filled_def g(2) insert_page_at page_at_cong[OF k] .
  have "\<exists>s'. hart_fill i j (page_at ?s (Suc n)) ?s = (page_at ?s (Suc n + j), s') \<and> filled (Suc n + j) s' \<and>
      kend s' = kend ?s \<and> lkview s' = lkview ?s \<and> freelist s' = freelist ?s"
    by (rule Suc.IH[OF f])
      (use Suc.prems in \<open>simp_all add: kend_ok_def hart_base_def total_pages_def\<close>)
  then show ?case unfolding page_at_cong[OF k] by (simp add: page_at_Suc)
qed simp

lemma page_at_le_PHYSTOP:
  assumes "hart_base s \<le> PHYSTOP" "k \<le> total_pages s"
  shows "page_at s k \<le> PHYSTOP"
proof -
  have "k * 4096 \<le> 0x88000000 - unat (hart_base s)"
    using assms(2) unfolding total_pages_def unat_PHYSTOP by (simp only: less_eq_div_iff_mult_less_eq)
  moreover have "unat (hart_base s) \<le> 0x88000000" using assms(1) by (simp add: word_le_nat_alt unat_PHYSTOP)
  ultimately show ?thesis
    unfolding word_le_nat_alt unat_page_at[OF assms(2,1)] unat_PHYSTOP by linarith
qed

lemma hart_fill_all_spec:
  assumes "filled (i * 256) s" "kend_ok s" "hart_base s \<le> PHYSTOP" "NCPU * 256 \<le> total_pages s" "i \<le> NCPU"
  shows "\<exists>s'. hart_fill_all [i..<NCPU] (page_at s (i * 256)) s = Ok (page_at s (NCPU * 256)) s' \<and>
    filled (NCPU * 256) s' \<and> kend s' = kend s \<and> lkview s' = lkview s \<and> freelist s' = freelist s"
  using assms
proof (induction "NCPU - i" arbitrary: i s)
  case (Suc d)
  then have i: "i < NCPU" "[i..<NCPU] = i # [Suc i..<NCPU]" by (auto simp: upt_conv_Cons)
  have b: "i * 256 + 256 \<le> total_pages s" using Suc.prems(4) i by (simp add: NCPU_def)
  obtain s1 where s1: "hart_fill i 256 (page_at s (i * 256)) s = (page_at s (i * 256 + 256), s1)"
    "filled (i * 256 + 256) s1" "kend s1 = kend s" "lkview s1 = lkview s" "freelist s1 = freelist s"
    using hart_fill_spec[OF Suc.prems(1-3) b i(1)] by auto
  have n: "i * 256 + 256 = Suc i * 256" by simp
  have u: "unat (PER_HART_ALLOC_SIZE div PGSIZE) = 256" by (simp add: PER_HART_ALLOC_SIZE_def PGSIZE_def)
  have le: "page_at s (Suc i * 256) \<le> PHYSTOP" using page_at_le_PHYSTOP[OF Suc.prems(3)] b by simp
  have "\<exists>s'. hart_fill_all [Suc i..<NCPU] (page_at s1 (Suc i * 256)) s1 = Ok (page_at s1 (NCPU * 256)) s' \<and>
    filled (NCPU * 256) s' \<and> kend s' = kend s1 \<and> lkview s' = lkview s1 \<and> freelist s' = freelist s1"
    by (rule Suc.hyps(1)) (use Suc.hyps(2) Suc.prems s1(2,3) n i in \<open>simp_all add: kend_ok_def hart_base_def total_pages_def\<close>)
  then show ?case
    using s1 le unfolding i(2) page_at_cong[OF s1(3)] by (auto simp: u n)
qed simp

lemma freerange_loop_spec:
  assumes "filled n s" "kready s" "hart_base s \<le> PHYSTOP" "n \<le> total_pages s" "total_pages s - n < fuel"
  shows "\<exists>s'. freerange_loop fuel (page_at s n) PHYSTOP s = Ok () s' \<and> filled (total_pages s) s' \<and>
    kend s' = kend s \<and> lkview s' = lkview s"
  using assms
proof (induction fuel arbitrary: n s)
  case (Suc fuel)
  show ?case
  proof (cases "n = total_pages s")
    case True
    have "\<not> page_at s n + PGSIZE \<le> PHYSTOP"
    proof
      have u: "unat (page_at s n) = unat (hart_base s) + n * 4096"
        using unat_page_at[OF Suc.prems(4,3)] .
      have h: "unat (hart_base s) \<le> 0x88000000"
        using Suc.prems(3) by (simp add: word_le_nat_alt unat_PHYSTOP)
      assume "page_at s n + PGSIZE \<le> PHYSTOP"
      then have "unat (page_at s n + 4096) \<le> 0x88000000"
        by (simp add: word_le_nat_alt unat_PHYSTOP PGSIZE_def)
      moreover have "unat (page_at s n + 4096) = unat (hart_base s) + n * 4096 + 4096"
        using page_at_le_PHYSTOP[OF Suc.prems(3,4)] u
        by (simp add: unat_plus_if' word_le_nat_alt unat_PHYSTOP)
      ultimately have "Suc n * 4096 \<le> 0x88000000 - unat (hart_base s)" using h by simp
      then have "Suc n \<le> total_pages s"
        unfolding total_pages_def unat_PHYSTOP by (simp only: less_eq_div_iff_mult_less_eq)
      then show False using True by simp
    qed
    with True Suc.prems show ?thesis by simp
  next
    case False
    then have n: "n < total_pages s" using Suc.prems(4) by simp
    let ?a = "page_at s n"
    obtain G H where g: "lists_ok s G H" "free_set G H = page_at s ` {..<n}"
      using Suc.prems(1) by (auto simp: filled_def)
    have fresh: "?a \<notin> free_set G H" unfolding g(2) by (rule page_at_fresh[OF Suc.prems(3) n])
    obtain s1 G' H' where s1: "kfree ?a s = Ok () s1" "lkview s1 = lkview s" "kend s1 = kend s"
      "lists_ok s1 G' H'" "free_set G' H' = insert ?a (free_set G H)"
      using kfree_lists[OF Suc.prems(2) g(1) page_at_ok[OF Suc.prems(3) n] fresh] by blast
    have f: "filled (Suc n) s1"
      using s1(4,5) unfolding filled_def g(2) insert_page_at page_at_cong[OF s1(3)] by blast
    have "\<exists>s'. freerange_loop fuel (page_at s1 (Suc n)) PHYSTOP s1 = Ok () s' \<and> filled (total_pages s1) s' \<and>
        kend s' = kend s1 \<and> lkview s' = lkview s1"
      by (rule Suc.IH[OF f])
        (use Suc.prems n s1(3) kready_cong[OF s1(2,3)] in \<open>simp_all add: hart_base_def total_pages_def\<close>)
    moreover have "page_at s n + PGSIZE \<le> PHYSTOP"
      using page_at_le_PHYSTOP[OF Suc.prems(3), of "Suc n"] n by (simp add: page_at_Suc)
    ultimately show ?thesis
      using s1 by (simp add: page_at_cong[OF s1(3)] total_pages_cong[OF s1(3)] page_at_Suc)
  qed
qed simp

lemma hart_lists_init_frame [simp]:
  "kend (hart_lists_init xs s) = kend s" "freelist (hart_lists_init xs s) = freelist s"
  "tp (hart_lists_init xs s) = tp s" "sie (hart_lists_init xs s) = sie s"
  "cpus (hart_lists_init xs s) = cpus s" "mem (hart_lists_init xs s) = mem s"
  by (induction xs s rule: hart_lists_init.induct) (simp_all add: initlock_def)

lemma hart_lists_init_lists:
  "hart_freelist (hart_lists_init xs s) i = (if i \<in> set xs then 0 else hart_freelist s i)"
  "i \<in> set xs \<or> lock_free (HartFreeLock i) s \<Longrightarrow> lock_free (HartFreeLock i) (hart_lists_init xs s)"
  by (induction xs s rule: hart_lists_init.induct) (auto simp: initlock_def lock_free_def)

text \<open>Boot leaves every page behind the list heads free.\<close>

lemma kinit_spec:
  assumes "freelist s = 0" "hart_ok s" "tp s < NCPU" "0 < kend s" "kend s \<le> PHYSTOP - 0x801200"
  shows "\<exists>s'. kinit s = Ok () s' \<and> kmem_inv s' {p. page_ok s p} \<and> kend s' = kend s"
proof -
  let ?s = "hart_lists_init [0..<NCPU] s"
  have u: "unat (kend s) \<le> 0x87800000 - 0x1200" "0 < unat (kend s)"
    using assms(4,5) by (simp_all add: word_le_nat_alt word_less_nat_alt layout_defs)
  then have "unat (kend s + of_nat NCPU * SIZEOF_FREE_LIST) = unat (kend s) + 256"
    by (simp add: NCPU_def SIZEOF_FREE_LIST_def unat_plus_if')
  then have hb: "unat (hart_base s) = (unat (kend s) + 256 + 4095) div 4096 * 4096"
    unfolding hart_base_def using u by (subst unat_PGROUNDUP) simp_all
  have b: "unat (hart_base s) \<le> 0x87800000"
    using u(1) div_times_less_eq_dividend[of "unat (kend s) + 256 + 4095" 4096] unfolding hb by simp
  have ke: "kend_ok s" using u by (simp add: kend_ok_def word_less_nat_alt unat_PHYSTOP)
  have le: "hart_base s \<le> PHYSTOP" using b by (simp add: word_le_nat_alt unat_PHYSTOP)
  have np: "NCPU * 256 \<le> total_pages s" using b unfolding total_pages_def unat_PHYSTOP NCPU_def by (simp add: less_eq_div_iff_mult_less_eq)
  have k: "kend ?s = kend s" by simp
  have f0: "filled (0 * 256) ?s"
    unfolding filled_def
    by (rule exI[of _ "[]"], rule exI[of _ "\<lambda>_. []"]) (simp add: lists_ok_def free_set_def assms(1) hart_lists_init_lists)
  obtain s1 where s1: "hart_fill_all [0..<NCPU] (page_at ?s (0 * 256)) ?s = Ok (page_at ?s (NCPU * 256)) s1"
      "filled (NCPU * 256) s1" "kend s1 = kend ?s" "lkview s1 = lkview ?s" "freelist s1 = freelist ?s"
    using hart_fill_all_spec[OF f0] ke le np by (auto simp: kend_ok_def hart_base_def total_pages_def)
  let ?s2 = "initlock KmemLock ''kmem'' s1"
  have e2: "kend ?s2 = kend s1" "mem ?s2 = mem s1" "freelist ?s2 = freelist s1" "hart_freelist ?s2 = hart_freelist s1"
    by (simp_all add: initlock_def)
  have f2: "filled (NCPU * 256) ?s2"
    using s1(2) lists_ok_cong[OF _ e2(2)[symmetric] e2(1)[symmetric] e2(3)[symmetric] e2(4)[symmetric]]
    unfolding filled_def page_at_cong[OF e2(1)] by blast
  have "hart_ok ?s" using assms(2) by (simp add: hart_ok_def mycpu_def cpuid_def intr_get_def)
  then have "hart_ok s1" using hart_ok_cong[OF s1(4)] by simp
  moreover have "lock_free (HartFreeLock i) s1" if "i < NCPU" for i
    using lock_free_cong[OF s1(4)] hart_lists_init_lists(2)[of i "[0..<NCPU]" s] that by simp
  ultimately have r2: "kready ?s2"
    using ke assms(3) lkview_eqD(1)[OF s1(4)] s1(3)
    by (simp add: kready_def initlock_def lock_free_def hart_ok_def mycpu_def cpuid_def intr_get_def kend_ok_def)
  note c2 = e2(1)[unfolded s1(3) k]
  have pr: "hart_base ?s2 \<le> PHYSTOP" "NCPU * 256 \<le> total_pages ?s2"
    unfolding hart_base_cong[OF c2] total_pages_cong[OF c2] by (rule le, rule np)
  have "total_pages ?s2 \<le> unat PHYSTOP div 4096" unfolding total_pages_def by (rule div_le_mono) simp
  also have "unat PHYSTOP div 4096 = unat (PHYSTOP div PGSIZE)" by (simp add: layout_defs PGSIZE_def)
  finally have fu: "total_pages ?s2 - NCPU * 256 < Suc (unat (PHYSTOP div PGSIZE))" by linarith
  obtain s3 where s3: "freerange_loop (Suc (unat (PHYSTOP div PGSIZE))) (page_at ?s2 (NCPU * 256)) PHYSTOP ?s2 = Ok () s3"
      "filled (total_pages ?s2) s3" "kend s3 = kend ?s2" "lkview s3 = lkview ?s2"
    using freerange_loop_spec[OF f2 r2 pr fu] by blast
  have al: "PGROUNDUP (page_at s (NCPU * 256)) = page_at s (NCPU * 256)"
  proof (rule PGROUNDUP_aligned)
    show "aligned (page_at s (NCPU * 256))"
      unfolding aligned_unat unat_page_at[OF np le] mod_mult_self1 by (rule unat_hart_base_mod)
    show "unat (page_at s (NCPU * 256)) + 4095 < 2 ^ 64"
      using b unfolding unat_page_at[OF np le] by (simp add: NCPU_def)
  qed
  have p0: "page_at s (0 * 256) = hart_base s" by (simp add: page_at_def)
  have "per_hart_alloc_init s = Ok (page_at s (NCPU * 256)) s1"
    using s1(1) unfolding page_at_cong[OF k] p0 by (simp add: per_hart_alloc_init_def hart_base_cong[OF k])
  then have "kinit s = Ok () s3"
    using s3(1) unfolding kinit_def freerange_def page_at_cong[OF c2] by (simp only: bind.simps al)
  moreover have "kmem_inv s3 {p. page_ok s p}"
  proof -
    have "{p. page_ok s p} = page_at s ` {..<total_pages s}"
      using page_at_ok[OF le] page_ok_page_at[of s] by blast
    moreover obtain G H where "lists_ok s3 G H" "free_set G H = page_at s ` {..<total_pages s}"
      using s3(2) unfolding filled_def total_pages_cong[OF c2] page_at_cong[OF s3(3)] page_at_cong[OF c2] by blast
    ultimately show ?thesis using kmem_inv_cong[OF r2 s3(4,3)] by metis
  qed
  ultimately show ?thesis using s3(3) c2 by auto
qed

section \<open>Properties\<close>

lemma page_fill:
  assumes "aligned p"
  shows "memset m p c 4096 x = (if PGROUNDDOWN x = p then c else m x)"
  using in_page_iff[OF assms, of x] by (auto simp: memset_eq store_bytes_def)

lemma kmem_inv_lkview:
  assumes "kmem_inv s F" "kalloc s = Ok p s'"
  shows "lkview s' = lkview s" "kend s' = kend s" "p \<noteq> 0 \<Longrightarrow> mem s' = memset (mem s) p 5 4096" "p = 0 \<Longrightarrow> mem s' = mem s"
proof -
  obtain G H where i: "kready s" "lists_ok s G H" using assms(1) by (auto simp: kmem_inv_def)
  show "lkview s' = lkview s" "kend s' = kend s" "p \<noteq> 0 \<Longrightarrow> mem s' = memset (mem s) p 5 4096" "p = 0 \<Longrightarrow> mem s' = mem s"
    using kalloc_lists[OF i] assms(2) by auto
qed

lemma kmem_inv_kfree:
  assumes "kmem_inv s F" "page_ok s p" "p \<notin> F"
  obtains s' where "kfree p s = Ok () s'" "kmem_inv s' (insert p F)" "lkview s' = lkview s" "kend s' = kend s"
    "\<And>q. q \<noteq> p \<Longrightarrow> same_page (mem s) (mem s') q"
proof -
  obtain G H where i: "kready s" "lists_ok s G H" "F = free_set G H" using assms(1) by (auto simp: kmem_inv_def)
  obtain s' G' H' where k: "kfree p s = Ok () s'" "lkview s' = lkview s" "kend s' = kend s" "lists_ok s' G' H'"
    "free_set G' H' = insert p (free_set G H)" "\<forall>q. q \<noteq> p \<longrightarrow> same_page (mem s) (mem s') q"
    using kfree_lists[OF i(1,2) assms(2)] assms(3) i(3) by blast
  then show ?thesis using that kmem_inv_cong[OF i(1) k(2-4)] i(3) by metis
qed

text \<open>The state in which a hart enters \<^verbatim>\<open>kinit\<close>, and one with a single free page.\<close>

definition boot_kmem :: kmem where
  "boot_kmem = \<lparr>tp = 0, sie = (\<lambda>_. False), cpus = (\<lambda>_. \<lparr>cpu_proc = None, noff = 0, intena = False\<rparr>),
     locks = (\<lambda>_. \<lparr>locked = 0, lkname = [], lkcpu = None\<rparr>), mem = (\<lambda>_. 0),
     kend = 0x80021d60, freelist = 0, hart_freelist = (\<lambda>_. 0)\<rparr>"

definition one_page_kmem :: kmem where
  "one_page_kmem = boot_kmem\<lparr>hart_freelist := (\<lambda>_. 0)(0 := 0x80022000)\<rparr>"

lemma boot_kmem_simps [simp]:
  "tp boot_kmem = 0" "kend boot_kmem = 0x80021d60" "freelist boot_kmem = 0" "hart_freelist boot_kmem = (\<lambda>_. 0)"
  "mem boot_kmem = (\<lambda>_. 0)" "kready boot_kmem" "hart_ok boot_kmem"
  by (simp_all add: boot_kmem_def kready_def hart_ok_def lock_free_def kend_ok_def mycpu_def cpuid_def NCPU_def layout_defs)

lemma hart_base_boot [simp]: "kend s = 0x80021d60 \<Longrightarrow> hart_base s = 0x80022000"
  by (simp add: hart_base_def NCPU_def SIZEOF_FREE_LIST_def PGROUNDUP_def PGSIZE_def)

lemma kready_simp [simp]: "kready (s\<lparr>hart_freelist := h\<rparr>) = kready s" "kready (s\<lparr>freelist := p\<rparr>) = kready s"
  by (auto intro!: kready_cong)

lemma load64_zero [simp]: "load64 (\<lambda>_. 0) a = 0"
  by (simp add: load64_def load_bytes_def numeral_eq_Suc)

lemma one_page_kmem_inv: "kmem_inv one_page_kmem {0x80022000}"
proof -
  have "lists_ok one_page_kmem [] ((\<lambda>_. [])(0 := [0x80022000]))"
    by (simp add: lists_ok_def one_page_kmem_def page_ok_def hart_of_def NCPU_def aligned_def PGSIZE_def layout_defs
        PER_HART_ALLOC_SIZE_def)
  moreover have "free_set [] ((\<lambda>_. [])(0 := [0x80022000])) = {0x80022000}"
    by (auto simp: free_set_def NCPU_def split: if_splits)
  ultimately show ?thesis by (auto simp: kmem_inv_def one_page_kmem_def)
qed

text \<open>
  C4: \<^verbatim>\<open>kalloc\<close> never fails to return. It returns either 0, with memory and the set of free
  pages unchanged, or a page that was free, which is then no longer free and is filled with the junk
  byte 5; every byte outside that page keeps its value, and the hart's lock and interrupt state is
  restored.
\<close>

theorem kalloc_hands_out_free_page:
  assumes "kmem_inv s F"
  shows "\<exists>p s'. kalloc s = Ok p s' \<and> lkview s' = lkview s \<and>
    (if p = 0 then kmem_inv s' F \<and> mem s' = mem s
     else p \<in> F \<and> kmem_inv s' (F - {p}) \<and> (\<forall>x. mem s' x = (if PGROUNDDOWN x = p then 5 else mem s x)))"
proof -
  obtain p s' where k: "kalloc s = Ok p s'" using ka.alloc_total[OF assms] by blast
  note f = kmem_inv_lkview[OF assms k]
  show ?thesis
  proof (cases "p = 0")
    case True
    then show ?thesis using ka.alloc_law[OF assms] k f ka.free_valid[OF assms] ka.valid_page[of s 0] by auto
  next
    case False
    then show ?thesis using ka.alloc_fresh[OF assms k False] k f page_fill by simp
  qed
qed

theorem kalloc_hands_out_free_page_witness:
  "\<exists>p s'. kalloc one_page_kmem = Ok p s' \<and> lkview s' = lkview one_page_kmem \<and>
    (if p = 0 then kmem_inv s' {0x80022000} \<and> mem s' = mem one_page_kmem
     else p \<in> {0x80022000} \<and> kmem_inv s' ({0x80022000} - {p}) \<and>
       (\<forall>x. mem s' x = (if PGROUNDDOWN x = p then 5 else mem one_page_kmem x)))"
  by (rule kalloc_hands_out_free_page[OF one_page_kmem_inv])

text \<open>
  C5: \<^verbatim>\<open>kfree\<close> of a page the allocator owns and that is not free returns, makes exactly that
  page free again, restores the hart's lock and interrupt state and touches no byte of another page.
\<close>

theorem kfree_returns_page:
  assumes "kmem_inv s F" "page_ok s p" "p \<notin> F"
  shows "\<exists>s'. kfree p s = Ok () s' \<and> kmem_inv s' (insert p F) \<and> lkview s' = lkview s \<and>
    (\<forall>x. PGROUNDDOWN x \<noteq> p \<longrightarrow> mem s' x = mem s x)"
  by (rule kmem_inv_kfree[OF assms]) (auto simp: same_page_def)

theorem kfree_returns_page_witness:
  "\<exists>s'. kfree 0x80023000 one_page_kmem = Ok () s' \<and> kmem_inv s' {0x80023000, 0x80022000}"
proof -
  have "page_ok one_page_kmem 0x80023000"
    by (simp add: page_ok_def one_page_kmem_def aligned_def PGSIZE_def layout_defs)
  from kfree_returns_page[OF one_page_kmem_inv this] show ?thesis by auto
qed

text \<open>
  C6: two allocations in a row never hand out the same page, and freeing the second page puts
  the allocator back to where it was after the first.
\<close>

theorem kalloc_twice_distinct:
  assumes "kmem_inv s F" "kalloc s = Ok p s1" "p \<noteq> 0" "kalloc s1 = Ok q s2" "q \<noteq> 0"
  shows "p \<noteq> q \<and> kmem_inv s2 (F - {p, q}) \<and> (\<exists>s3. kfree q s2 = Ok () s3 \<and> kmem_inv s3 (F - {p}))"
  using ka.alloc_distinct[OF assms] ka.alloc_dealloc[OF ka.alloc_fresh(2)[OF assms(1-3)] assms(4,5)] by blast

text \<open>
  C8: booting with the kernel image ending at least 8 MB (and the list heads) below \<^verbatim>\<open>PHYSTOP\<close>,
  \<^verbatim>\<open>kinit\<close> returns, no assertion fires, and afterwards exactly the pages between the first page
  boundary behind the list heads and \<^verbatim>\<open>PHYSTOP\<close> are free.
\<close>

theorem kinit_frees_all_memory:
  assumes "freelist s = 0" "hart_ok s" "tp s < NCPU" "0 < kend s" "kend s \<le> PHYSTOP - 0x801200"
  shows "\<exists>s'. kinit s = Ok () s' \<and> kmem_inv s' {p. aligned p \<and> hart_base s \<le> p \<and> p < PHYSTOP}"
  using kinit_spec[OF assms] by (auto simp: page_ok_def)

theorem kinit_frees_all_memory_witness:
  "\<exists>s'. kinit boot_kmem = Ok () s' \<and> kmem_inv s' {p. aligned p \<and> hart_base boot_kmem \<le> p \<and> p < PHYSTOP}"
  by (rule kinit_frees_all_memory) (simp_all add: NCPU_def layout_defs)

lemma kalloc_value:
  assumes "kready s" "lists_ok s G H"
  obtains s' where "kalloc s = Ok (if hart_freelist s (tp s) \<noteq> 0 then hart_freelist s (tp s) else freelist s) s'"
    "kend s' = kend s"
  using kalloc_lists[OF assms] by (elim exE conjE) (erule meta_mp[rotated], blast intro: that)

lemma hart_of_lt: "hart_of s p = Some i \<Longrightarrow> i < NCPU"
  by (auto simp: hart_of_def Let_def split: if_splits)

lemma lists_empty_iff:
  assumes "lists_ok s G H" "i < NCPU"
  shows "(if hart_freelist s i \<noteq> 0 then hart_freelist s i else freelist s) = 0 \<longleftrightarrow>
    (\<forall>q \<in> free_set G H. \<exists>j. hart_of s q = Some j \<and> j \<noteq> i)"
proof -
  have c: "chain (mem s) (freelist s) G" "chain (mem s) (hart_freelist s i) (H i)"
    using assms by (auto simp: lists_ok_def)
  have e: "freelist s = 0 \<longleftrightarrow> G = []" "hart_freelist s i = 0 \<longleftrightarrow> H i = []"
    using c by (cases G; cases "H i"; auto)+
  have g: "hart_of s q = None" if "q \<in> set G" for q using assms(1) that by (simp add: lists_ok_def)
  have h: "hart_of s q = Some j" if "q \<in> set (H j)" "j < NCPU" for q j using assms(1) that by (simp add: lists_ok_def)
  show ?thesis
  proof
    assume "(if hart_freelist s i \<noteq> 0 then hart_freelist s i else freelist s) = 0"
    then have n: "G = []" "H i = []" using e by (auto split: if_splits)
    show "\<forall>q \<in> free_set G H. \<exists>j. hart_of s q = Some j \<and> j \<noteq> i"
    proof
      fix q assume "q \<in> free_set G H"
      then obtain j where j: "j < NCPU" "q \<in> set (H j)" using n by (auto simp: free_set_def)
      with n(2) have "j \<noteq> i" by auto
      with h[OF j(2,1)] show "\<exists>j. hart_of s q = Some j \<and> j \<noteq> i" by simp
    qed
  next
    assume r: "\<forall>q \<in> free_set G H. \<exists>j. hart_of s q = Some j \<and> j \<noteq> i"
    have "G = []" using r g by (cases G) (auto simp: free_set_def)
    moreover have "H i = []"
    proof (rule ccontr)
      assume "H i \<noteq> []"
      then have "hd (H i) \<in> set (H i)" by simp
      moreover from this have "hd (H i) \<in> free_set G H" using assms(2) by (auto simp: free_set_def)
      ultimately show False using h[OF _ assms(2)] r by auto
    qed
    ultimately show "(if hart_freelist s i \<noteq> 0 then hart_freelist s i else freelist s) = 0" using e by simp
  qed
qed

text \<open>
  C7: \<^verbatim>\<open>kalloc\<close> gives up exactly when every free page belongs to the region of another hart: a
  hart never takes pages from another hart's list, and it always succeeds while its own list or the
  global list has one.
\<close>

theorem kalloc_gives_up_iff:
  assumes "kmem_inv s F" "kalloc s = Ok p s'"
  shows "p = 0 \<longleftrightarrow> (\<forall>q \<in> F. \<exists>i. hart_of s q = Some i \<and> i \<noteq> tp s)"
proof -
  obtain G H where i: "kready s" "lists_ok s G H" "F = free_set G H" using assms(1) by (auto simp: kmem_inv_def)
  have "tp s < NCPU" using i(1) by (simp add: kready_def)
  moreover have "p = (if hart_freelist s (tp s) \<noteq> 0 then hart_freelist s (tp s) else freelist s)"
    by (rule kalloc_value[OF i(1,2)]) (simp only: assms(2) outcome.inject)
  ultimately show ?thesis using lists_empty_iff[OF i(2)] i(3) by simp
qed

lemma one_page_on_hart1: "kmem_inv (one_page_kmem\<lparr>tp := 1\<rparr>) {0x80022000}"
proof -
  have "kready (one_page_kmem\<lparr>tp := 1\<rparr>)"
    by (simp add: one_page_kmem_def boot_kmem_def kready_def hart_ok_def lock_free_def kend_ok_def mycpu_def cpuid_def
        NCPU_def layout_defs)
  moreover obtain G H where "lists_ok one_page_kmem G H" "free_set G H = {0x80022000}"
    using one_page_kmem_inv by (auto simp: kmem_inv_def)
  moreover from this(1) have "lists_ok (one_page_kmem\<lparr>tp := 1\<rparr>) G H" by (rule lists_ok_cong) simp_all
  ultimately show ?thesis by (auto simp: kmem_inv_def)
qed

theorem kalloc_gives_up_iff_witness:
  "\<exists>s'. kalloc (one_page_kmem\<lparr>tp := 1\<rparr>) = Ok 0 s'"
proof -
  obtain p s' where k: "kalloc (one_page_kmem\<lparr>tp := 1\<rparr>) = Ok p s'"
    using ka.alloc_total[OF one_page_on_hart1] by blast
  moreover have "p = 0"
    unfolding kalloc_gives_up_iff[OF one_page_on_hart1 k]
    by (simp add: hart_of_def one_page_kmem_def NCPU_def PER_HART_ALLOC_SIZE_def)
  ultimately show ?thesis by blast
qed

lemma two_page_kmem_inv:
  "kmem_inv (one_page_kmem\<lparr>freelist := 0x87fff000\<rparr>) {0x80022000, 0x87fff000}"
proof -
  have "lists_ok (one_page_kmem\<lparr>freelist := 0x87fff000\<rparr>) [0x87fff000] ((\<lambda>_. [])(0 := [0x80022000]))"
    by (simp add: lists_ok_def one_page_kmem_def page_ok_def hart_of_def NCPU_def aligned_def PGSIZE_def layout_defs
        PER_HART_ALLOC_SIZE_def)
  moreover have "free_set [0x87fff000] ((\<lambda>_. [])(0 := [0x80022000])) = {0x80022000, 0x87fff000}"
    by (auto simp: free_set_def NCPU_def split: if_splits)
  ultimately show ?thesis by (auto simp: kmem_inv_def one_page_kmem_def)
qed

theorem kalloc_twice_distinct_witness:
  "\<exists>p s1 q s2. kalloc (one_page_kmem\<lparr>freelist := 0x87fff000\<rparr>) = Ok p s1 \<and> kalloc s1 = Ok q s2 \<and> p \<noteq> q \<and>
    kmem_inv s2 ({0x80022000, 0x87fff000} - {p, q}) \<and> p \<noteq> 0 \<and> q \<noteq> 0"
proof -
  let ?s = "one_page_kmem\<lparr>freelist := 0x87fff000\<rparr>"
  note i = two_page_kmem_inv
  obtain G H where l: "kready ?s" "lists_ok ?s G H" using i by (auto simp: kmem_inv_def)
  obtain s1 where s1: "kalloc ?s = Ok 0x80022000 s1" "kend s1 = kend ?s"
    by (rule kalloc_value[OF l]) (simp add: one_page_kmem_def)
  have i1: "kmem_inv s1 ({0x80022000, 0x87fff000} - {0x80022000})" using ka.alloc_fresh(2)[OF i s1(1)] by simp
  obtain q s2 where s2: "kalloc s1 = Ok q s2" using ka.alloc_total[OF i1] by blast
  obtain G1 H1 where l1: "kready s1" "lists_ok s1 G1 H1" "free_set G1 H1 = {0x87fff000}"
    using i1 by (auto simp: kmem_inv_def)
  have h: "hart_of s1 0x87fff000 = None"
    using hart_of_cong[OF s1(2)] by (simp add: hart_of_def one_page_kmem_def NCPU_def PER_HART_ALLOC_SIZE_def)
  have "tp s1 < NCPU" using l1(1) by (simp add: kready_def)
  moreover have "q = (if hart_freelist s1 (tp s1) \<noteq> 0 then hart_freelist s1 (tp s1) else freelist s1)"
    by (rule kalloc_value[OF l1(1,2)]) (simp only: s2 outcome.inject)
  ultimately have "q \<noteq> 0" using lists_empty_iff[OF l1(2)] l1(3) h by simp
  with kalloc_twice_distinct[OF i s1(1) _ s2] s1(1) s2 show ?thesis by auto
qed

end
