(* ===== verification/Vm.thy ===== *)
theory Vm
  imports Kalloc
begin

text \<open>
  Virtual memory (\<^verbatim>\<open>kernel/vm.c\<close>, with \<^verbatim>\<open>proc_mapstacks\<close> of \<^verbatim>\<open>kernel/proc.c\<close>). Page tables are
  trees of three levels of 4096-byte pages in physical memory, and the model walks and edits the
  same bytes as the code. Loops end because \<^verbatim>\<open>walk\<close> panics at \<^verbatim>\<open>MAXVA\<close>; the termination proofs below
  are that argument. \<^verbatim>\<open>freewalk\<close> recurses as deep as memory tells it to, so it takes a depth bound
  and reports \<open>NoFuel\<close> beyond it.

  \<^verbatim>\<open>copyout\<close> takes the bytes of the kernel buffer it copies from. \<^verbatim>\<open>copyin\<close> and \<^verbatim>\<open>copyinstr\<close> return,
  with the C result, the bytes they have written to the kernel buffer when they return (on failure
  that is the prefix copied so far).
\<close>

record vmem = kmem +
  etext :: u64
  trampoline :: u64
  kernel_pagetable :: u64
  satp :: "nat \<Rightarrow> u64"

section \<open>Walking a page table\<close>

definition pte_addr :: "u64 \<Rightarrow> nat \<Rightarrow> u64 \<Rightarrow> u64" where
  "pte_addr pagetable level va = pagetable + 8 * PX level va"

primrec walk_loop :: "nat \<Rightarrow> u64 \<Rightarrow> u64 \<Rightarrow> bool \<Rightarrow> 'z kmem_scheme \<Rightarrow> (u64, 'z kmem_scheme) outcome" where
  "walk_loop 0 pagetable va alloc s = Ok (pte_addr pagetable 0 va) s"
| "walk_loop (Suc n) pagetable va alloc s =
     (let pte = pte_addr pagetable (Suc n) va in
      if load64 (mem s) pte AND PTE_V \<noteq> 0
      then walk_loop n (PTE2PA (load64 (mem s) pte)) va alloc s
      else if \<not> alloc then Ok 0 s
      else bind (kalloc s) (\<lambda>pagetable s.
        if pagetable = 0 then Ok 0 s
        else walk_loop n pagetable va alloc
          (s\<lparr>mem := store64 (memset (mem s) pagetable 0 4096) pte (PA2PTE pagetable OR PTE_V)\<rparr>)))"

definition walk :: "u64 \<Rightarrow> u64 \<Rightarrow> bool \<Rightarrow> 'z kmem_scheme \<Rightarrow> (u64, 'z kmem_scheme) outcome" where
  "walk pagetable va alloc s =
     (if MAXVA \<le> va then Panic ''walk'' else walk_loop 2 pagetable va alloc s)"

definition walkaddr :: "u64 \<Rightarrow> u64 \<Rightarrow> 'z kmem_scheme \<Rightarrow> (u64, 'z kmem_scheme) outcome" where
  "walkaddr pagetable va s =
     (if MAXVA \<le> va then Ok 0 s
      else bind (walk pagetable va False s) (\<lambda>pte s.
        if pte = 0 then Ok 0 s
        else if load64 (mem s) pte AND PTE_V = 0 then Ok 0 s
        else if load64 (mem s) pte AND PTE_U = 0 then Ok 0 s
        else Ok (PTE2PA (load64 (mem s) pte)) s))"

lemma walk_below_MAXVA: "returns (walk pagetable va alloc s) pte s' \<Longrightarrow> va < MAXVA"
  by (auto simp: walk_def not_le split: if_splits)

text \<open>The measure of every loop over virtual addresses.\<close>

definition va_left :: "u64 \<Rightarrow> nat" where
  "va_left a = unat (MAXVA + PGSIZE - a)"

lemma va_left_step: "a < MAXVA \<Longrightarrow> va_left (a + PGSIZE) < va_left a"
proof -
  assume "a < MAXVA"
  then have "unat a < 0x4000000000" by (simp add: word_less_nat_alt MAXVA_def)
  then have "unat (0x4000001000 - a) = 0x4000001000 - unat a" "unat (0x4000000000 - a) = 0x4000000000 - unat a"
    by (simp_all add: unat_sub_if')
  then show ?thesis using \<open>unat a < 0x4000000000\<close>
    by (simp add: va_left_def MAXVA_def PGSIZE_def)
qed

section \<open>Mapping and unmapping\<close>

function mappages_loop :: "u64 \<Rightarrow> u64 \<Rightarrow> u64 \<Rightarrow> u64 \<Rightarrow> u64 \<Rightarrow> 'z kmem_scheme \<Rightarrow> (int, 'z kmem_scheme) outcome" where
  "mappages_loop pagetable a last_a pa perm s =
     bind (walk pagetable a True s) (\<lambda>pte s.
       if pte = 0 then Ok (-1) s
       else if load64 (mem s) pte AND PTE_V \<noteq> 0 then Panic ''mappages: remap''
       else
         let s = s\<lparr>mem := store64 (mem s) pte (PA2PTE pa OR perm OR PTE_V)\<rparr> in
         if a = last_a then Ok 0 s
         else mappages_loop pagetable (a + PGSIZE) last_a (pa + PGSIZE) perm s)"
  by pat_completeness auto

termination
  by (relation "measure (\<lambda>(_, a, _). va_left a)") (auto intro: va_left_step walk_below_MAXVA)

declare mappages_loop.simps [simp del]

definition mappages :: "u64 \<Rightarrow> u64 \<Rightarrow> u64 \<Rightarrow> u64 \<Rightarrow> u64 \<Rightarrow> 'z kmem_scheme \<Rightarrow> (int, 'z kmem_scheme) outcome" where
  "mappages pagetable va sz pa perm s =
     (if sz = 0 then Panic ''mappages: size''
      else mappages_loop pagetable (PGROUNDDOWN va) (PGROUNDDOWN (va + sz - 1)) pa perm s)"

definition kvmmap :: "u64 \<Rightarrow> u64 \<Rightarrow> u64 \<Rightarrow> u64 \<Rightarrow> u64 \<Rightarrow> 'z kmem_scheme \<Rightarrow> (unit, 'z kmem_scheme) outcome" where
  "kvmmap kpgtbl va pa sz perm s =
     bind (mappages kpgtbl va sz pa perm s) (\<lambda>r s. if r \<noteq> 0 then Panic ''kvmmap'' else Ok () s)"

function uvmunmap_loop :: "u64 \<Rightarrow> u64 \<Rightarrow> u64 \<Rightarrow> bool \<Rightarrow> 'z kmem_scheme \<Rightarrow> (unit, 'z kmem_scheme) outcome" where
  "uvmunmap_loop pagetable a a_end do_free s =
     (if a < a_end then
        bind (walk pagetable a False s) (\<lambda>pte s.
          if pte = 0 then Panic ''uvmunmap: walk''
          else if load64 (mem s) pte AND PTE_V = 0 then Panic ''uvmunmap: not mapped''
          else if PTE_FLAGS (load64 (mem s) pte) = PTE_V then Panic ''uvmunmap: not a leaf''
          else bind (if do_free then kfree (PTE2PA (load64 (mem s) pte)) s else Ok () s) (\<lambda>_ s.
            uvmunmap_loop pagetable (a + PGSIZE) a_end do_free (s\<lparr>mem := store64 (mem s) pte 0\<rparr>)))
      else Ok () s)"
  by pat_completeness auto

termination
  by (relation "measure (\<lambda>(_, a, _). va_left a)") (auto intro: va_left_step walk_below_MAXVA)

declare uvmunmap_loop.simps [simp del]

definition uvmunmap :: "u64 \<Rightarrow> u64 \<Rightarrow> u64 \<Rightarrow> bool \<Rightarrow> 'z kmem_scheme \<Rightarrow> (unit, 'z kmem_scheme) outcome" where
  "uvmunmap pagetable va npages do_free s =
     (if va mod PGSIZE \<noteq> 0 then Panic ''uvmunmap: not aligned''
      else uvmunmap_loop pagetable va (va + npages * PGSIZE) do_free s)"

section \<open>Address spaces\<close>

definition uvmcreate :: "'z kmem_scheme \<Rightarrow> (u64, 'z kmem_scheme) outcome" where
  "uvmcreate s =
     bind (kalloc s) (\<lambda>pagetable s.
       if pagetable = 0 then Ok 0 s
       else Ok pagetable (s\<lparr>mem := memset (mem s) pagetable 0 4096\<rparr>))"

definition uvmfirst :: "u64 \<Rightarrow> u8 list \<Rightarrow> 'z kmem_scheme \<Rightarrow> (unit, 'z kmem_scheme) outcome" where
  "uvmfirst pagetable src s =
     (if 4096 \<le> length src then Panic ''uvmfirst: more than a page''
      else bind (kalloc s) (\<lambda>pg s.
        bind (mappages pagetable 0 PGSIZE pg (PTE_W OR PTE_R OR PTE_X OR PTE_U)
            (s\<lparr>mem := memset (mem s) pg 0 4096\<rparr>)) (\<lambda>_ s.
          Ok () (s\<lparr>mem := store_bytes (mem s) pg src\<rparr>))))"

text \<open>\<^verbatim>\<open>npages\<close> is a C \<^verbatim>\<open>int\<close>: the quotient is truncated to 32 bits and sign-extended again.\<close>

definition uvmdealloc :: "u64 \<Rightarrow> u64 \<Rightarrow> u64 \<Rightarrow> 'z kmem_scheme \<Rightarrow> (u64, 'z kmem_scheme) outcome" where
  "uvmdealloc pagetable oldsz newsz s =
     (if oldsz \<le> newsz then Ok oldsz s
      else if PGROUNDUP newsz < PGROUNDUP oldsz then
        (let npages = (ucast ((PGROUNDUP oldsz - PGROUNDUP newsz) div PGSIZE) :: u32) in
         bind (uvmunmap pagetable (PGROUNDUP newsz) (scast npages) True s) (\<lambda>_ s. Ok newsz s))
      else Ok newsz s)"

lemma mappages_below_MAXVA:
  assumes "returns (mappages pagetable a PGSIZE pa perm s) r s'"
  shows "a < MAXVA"
proof -
  have "PGROUNDDOWN a < MAXVA"
    using assms by (auto simp: mappages_def mappages_loop.simps[of pagetable "PGROUNDDOWN a"] PGSIZE_def
        dest: walk_below_MAXVA)
  then have "unat a - unat a mod 4096 < 0x4000000000"
    by (simp add: word_less_nat_alt unat_PGROUNDDOWN MAXVA_def)
  then have "unat a div 4096 * 4096 < 0x4000000 * 4096" by (simp add: minus_mod_eq_div_mult)
  then have "unat a div 4096 < 0x4000000" by (simp only: mult_less_cancel2)
  then have "unat a < 0x4000000 * 4096" by (simp only: div_less_iff_less_mult)
  then show ?thesis by (simp add: word_less_nat_alt MAXVA_def)
qed

function uvmalloc_loop :: "u64 \<Rightarrow> u64 \<Rightarrow> u64 \<Rightarrow> u64 \<Rightarrow> u64 \<Rightarrow> 'z kmem_scheme \<Rightarrow> (u64, 'z kmem_scheme) outcome" where
  "uvmalloc_loop pagetable a oldsz newsz xperm s =
     (if a < newsz then
        bind (kalloc s) (\<lambda>pg s.
          if pg = 0 then bind (uvmdealloc pagetable a oldsz s) (\<lambda>_ s. Ok 0 s)
          else
            bind (mappages pagetable a PGSIZE pg (PTE_R OR PTE_U OR xperm)
                (s\<lparr>mem := memset (mem s) pg 0 4096\<rparr>)) (\<lambda>r s.
              if r \<noteq> 0
              then bind (kfree pg s) (\<lambda>_ s. bind (uvmdealloc pagetable a oldsz s) (\<lambda>_ s. Ok 0 s))
              else uvmalloc_loop pagetable (a + PGSIZE) oldsz newsz xperm s))
      else Ok newsz s)"
  by pat_completeness auto

termination
  by (relation "measure (\<lambda>(_, a, _). va_left a)") (auto intro: va_left_step mappages_below_MAXVA)

declare uvmalloc_loop.simps [simp del]

definition uvmalloc :: "u64 \<Rightarrow> u64 \<Rightarrow> u64 \<Rightarrow> u64 \<Rightarrow> 'z kmem_scheme \<Rightarrow> (u64, 'z kmem_scheme) outcome" where
  "uvmalloc pagetable oldsz newsz xperm s =
     (if newsz < oldsz then Ok oldsz s
      else uvmalloc_loop pagetable (PGROUNDUP oldsz) (PGROUNDUP oldsz) newsz xperm s)"

text \<open>The first argument bounds the depth of the recursion.\<close>

fun freewalk :: "nat \<Rightarrow> u64 \<Rightarrow> 'z kmem_scheme \<Rightarrow> (unit, 'z kmem_scheme) outcome"
  and freewalk_loop :: "nat \<Rightarrow> nat list \<Rightarrow> u64 \<Rightarrow> 'z kmem_scheme \<Rightarrow> (unit, 'z kmem_scheme) outcome" where
  "freewalk 0 pagetable s = NoFuel"
| "freewalk (Suc n) pagetable s =
     bind (freewalk_loop n [0..<512] pagetable s) (\<lambda>_ s. kfree pagetable s)"
| "freewalk_loop n [] pagetable s = Ok () s"
| "freewalk_loop n (i # is) pagetable s =
     (let pte = load64 (mem s) (pagetable + 8 * of_nat i) in
      if pte AND PTE_V \<noteq> 0 \<and> pte AND (PTE_R OR PTE_W OR PTE_X) = 0 then
        bind (freewalk n (PTE2PA pte) s) (\<lambda>_ s.
          freewalk_loop n is pagetable (s\<lparr>mem := store64 (mem s) (pagetable + 8 * of_nat i) 0\<rparr>))
      else if pte AND PTE_V \<noteq> 0 then Panic ''freewalk: leaf''
      else freewalk_loop n is pagetable s)"

definition uvmfree :: "u64 \<Rightarrow> u64 \<Rightarrow> 'z kmem_scheme \<Rightarrow> (unit, 'z kmem_scheme) outcome" where
  "uvmfree pagetable sz s =
     bind (if 0 < sz then uvmunmap pagetable 0 (PGROUNDUP sz div PGSIZE) True s else Ok () s)
       (\<lambda>_ s. freewalk 3 pagetable s)"

function uvmcopy_loop :: "u64 \<Rightarrow> u64 \<Rightarrow> u64 \<Rightarrow> u64 \<Rightarrow> 'z kmem_scheme \<Rightarrow> (int, 'z kmem_scheme) outcome" where
  "uvmcopy_loop old new i sz s =
     (if i < sz then
        bind (walk old i False s) (\<lambda>pte s.
          if pte = 0 then Panic ''uvmcopy: pte should exist''
          else if load64 (mem s) pte AND PTE_V = 0 then Panic ''uvmcopy: page not present''
          else
            let pa = PTE2PA (load64 (mem s) pte); flags = PTE_FLAGS (load64 (mem s) pte) in
            bind (kalloc s) (\<lambda>pg s.
              if pg = 0 then bind (uvmunmap new 0 (i div PGSIZE) True s) (\<lambda>_ s. Ok (-1) s)
              else bind (mappages new i PGSIZE pg flags (s\<lparr>mem := memmove (mem s) pg pa 4096\<rparr>)) (\<lambda>r s.
                if r \<noteq> 0
                then bind (kfree pg s) (\<lambda>_ s.
                  bind (uvmunmap new 0 (i div PGSIZE) True s) (\<lambda>_ s. Ok (-1) s))
                else uvmcopy_loop old new (i + PGSIZE) sz s)))
      else Ok 0 s)"
  by pat_completeness auto

termination
  by (relation "measure (\<lambda>(_, _, a, _). va_left a)") (auto intro: va_left_step walk_below_MAXVA)

declare uvmcopy_loop.simps [simp del]

definition uvmcopy :: "u64 \<Rightarrow> u64 \<Rightarrow> u64 \<Rightarrow> 'z kmem_scheme \<Rightarrow> (int, 'z kmem_scheme) outcome" where
  "uvmcopy old new sz s = uvmcopy_loop old new 0 sz s"

definition uvmclear :: "u64 \<Rightarrow> u64 \<Rightarrow> 'z kmem_scheme \<Rightarrow> (unit, 'z kmem_scheme) outcome" where
  "uvmclear pagetable va s =
     bind (walk pagetable va False s) (\<lambda>pte s.
       if pte = 0 then Panic ''uvmclear''
       else Ok () (s\<lparr>mem := store64 (mem s) pte (load64 (mem s) pte AND NOT PTE_U)\<rparr>))"

section \<open>Copying between kernel and user memory\<close>

lemma page_rest: "0 < unat (PGSIZE - (va - PGROUNDDOWN va))" "unat (PGSIZE - (va - PGROUNDDOWN va)) \<le> 4096"
proof -
  have t: "va - PGROUNDDOWN va = take_bit 12 va" by (simp add: PGROUNDDOWN_diff)
  have "unat (take_bit 12 va) < 4096" by (simp add: unat_take_bit)
  moreover from this have "unat (PGSIZE - take_bit 12 va) = 4096 - unat (take_bit 12 va)"
    by (simp add: PGSIZE_def unat_sub_if')
  ultimately show "0 < unat (PGSIZE - (va - PGROUNDDOWN va))" "unat (PGSIZE - (va - PGROUNDDOWN va)) \<le> 4096"
    unfolding t by simp_all
qed

function copyout :: "u64 \<Rightarrow> u64 \<Rightarrow> u8 list \<Rightarrow> 'z kmem_scheme \<Rightarrow> (int, 'z kmem_scheme) outcome" where
  "copyout pagetable dstva src s =
     (if src = [] then Ok 0 s
      else
        let va0 = PGROUNDDOWN dstva in
        bind (walkaddr pagetable va0 s) (\<lambda>pa0 s.
          if pa0 = 0 then Ok (-1) s
          else
            let n = min (unat (PGSIZE - (dstva - va0))) (length src) in
            copyout pagetable (va0 + PGSIZE) (drop n src)
              (s\<lparr>mem := store_bytes (mem s) (pa0 + (dstva - va0)) (take n src)\<rparr>)))"
  by pat_completeness auto

termination
  by (relation "measure (\<lambda>(_, _, src, _). length src)") (auto simp: page_rest)

declare copyout.simps [simp del]

function copyin :: "u64 \<Rightarrow> u64 \<Rightarrow> nat \<Rightarrow> 'z kmem_scheme \<Rightarrow> (int \<times> u8 list, 'z kmem_scheme) outcome" where
  "copyin pagetable srcva len s =
     (if len = 0 then Ok (0, []) s
      else
        let va0 = PGROUNDDOWN srcva in
        bind (walkaddr pagetable va0 s) (\<lambda>pa0 s.
          if pa0 = 0 then Ok (-1, []) s
          else
            let n = min (unat (PGSIZE - (srcva - va0))) len;
                bs = load_bytes (mem s) (pa0 + (srcva - va0)) n in
            bind (copyin pagetable (va0 + PGSIZE) (len - n) s) (\<lambda>(r, rest) s. Ok (r, bs @ rest) s)))"
  by pat_completeness auto

termination
  by (relation "measure (\<lambda>(_, _, len, _). len)") (auto simp: page_rest)

declare copyin.simps [simp del]

text \<open>The inner loop of \<^verbatim>\<open>copyinstr\<close>: at most \<open>n\<close> bytes from \<open>p\<close>, up to and including a NUL.\<close>

primrec copystr_page :: "memory \<Rightarrow> u64 \<Rightarrow> nat \<Rightarrow> u8 list \<times> bool" where
  "copystr_page m p 0 = ([], False)"
| "copystr_page m p (Suc n) =
     (if m p = 0 then ([0], True)
      else case copystr_page m (p + 1) n of (bs, got_null) \<Rightarrow> (m p # bs, got_null))"

function copyinstr :: "u64 \<Rightarrow> u64 \<Rightarrow> nat \<Rightarrow> 'z kmem_scheme \<Rightarrow> (int \<times> u8 list, 'z kmem_scheme) outcome" where
  "copyinstr pagetable srcva max_len s =
     (if max_len = 0 then Ok (-1, []) s
      else
        let va0 = PGROUNDDOWN srcva in
        bind (walkaddr pagetable va0 s) (\<lambda>pa0 s.
          if pa0 = 0 then Ok (-1, []) s
          else
            let n = min (unat (PGSIZE - (srcva - va0))) max_len in
            case copystr_page (mem s) (pa0 + (srcva - va0)) n of (bs, got_null) \<Rightarrow>
              if got_null then Ok (0, bs) s
              else bind (copyinstr pagetable (va0 + PGSIZE) (max_len - n) s) (\<lambda>(r, rest) s.
                Ok (r, bs @ rest) s)))"
  by pat_completeness auto

termination
  by (relation "measure (\<lambda>(_, _, m, _). m)") (auto simp: page_rest)

declare copyinstr.simps [simp del]

section \<open>The kernel's own page table\<close>

fun proc_mapstacks_loop :: "nat list \<Rightarrow> u64 \<Rightarrow> 'z kmem_scheme \<Rightarrow> (unit, 'z kmem_scheme) outcome" where
  "proc_mapstacks_loop [] kpgtbl s = Ok () s"
| "proc_mapstacks_loop (p # ps) kpgtbl s =
     bind (kalloc s) (\<lambda>pa s.
       if pa = 0 then Panic ''kalloc''
       else bind (kvmmap kpgtbl (KSTACK p) pa PGSIZE (PTE_R OR PTE_W) s) (\<lambda>_ s.
         proc_mapstacks_loop ps kpgtbl s))"

definition proc_mapstacks :: "u64 \<Rightarrow> 'z kmem_scheme \<Rightarrow> (unit, 'z kmem_scheme) outcome" where
  "proc_mapstacks kpgtbl s = proc_mapstacks_loop [0..<NPROC] kpgtbl s"

definition kvmmake :: "'z vmem_scheme \<Rightarrow> (u64, 'z vmem_scheme) outcome" where
  "kvmmake s =
     bind (kalloc s) (\<lambda>kpgtbl s.
     bind (kvmmap kpgtbl UART0 UART0 PGSIZE (PTE_R OR PTE_W) (s\<lparr>mem := memset (mem s) kpgtbl 0 4096\<rparr>)) (\<lambda>_ s.
     bind (kvmmap kpgtbl VIRTIO0 VIRTIO0 PGSIZE (PTE_R OR PTE_W) s) (\<lambda>_ s.
     bind (kvmmap kpgtbl PLIC PLIC 0x400000 (PTE_R OR PTE_W) s) (\<lambda>_ s.
     bind (kvmmap kpgtbl KERNBASE KERNBASE (etext s - KERNBASE) (PTE_R OR PTE_X) s) (\<lambda>_ s.
     bind (kvmmap kpgtbl (etext s) (etext s) (PHYSTOP - etext s) (PTE_R OR PTE_W) s) (\<lambda>_ s.
     bind (kvmmap kpgtbl TRAMPOLINE (trampoline s) PGSIZE (PTE_R OR PTE_X) s) (\<lambda>_ s.
     bind (proc_mapstacks kpgtbl s) (\<lambda>_ s.
     Ok kpgtbl s))))))))"

definition kvminit :: "'z vmem_scheme \<Rightarrow> (unit, 'z vmem_scheme) outcome" where
  "kvminit s = bind (kvmmake s) (\<lambda>kpgtbl s. Ok () (s\<lparr>kernel_pagetable := kpgtbl\<rparr>))"

definition kvminithart :: "'z vmem_scheme \<Rightarrow> 'z vmem_scheme" where
  "kvminithart s = s\<lparr>satp := (satp s)(tp s := MAKE_SATP (kernel_pagetable s))\<rparr>"

end
