(* ===== verification/Ring.thy ===== *)
theory Ring
  imports Prelude
begin

text \<open>
  Ring buffers with free-running counters. Pipes, the transmit buffer of the serial port and the input
  buffer of the console all store bytes at \<^verbatim>\<open>buf[w % N]\<close> and take them from \<^verbatim>\<open>buf[r % N]\<close>, and never
  reduce the counters \<^verbatim>\<open>r\<close> and \<^verbatim>\<open>w\<close>, which wrap around at the width of their type. The locale
  states what the two operations do to the fields; its lemmas say that the ring is a first-in first-out
  queue as long as the writer checks for room, also across a wrap-around of the counters.
\<close>

lemma unat_add_mod:
  fixes a b :: "'w::len word"
  assumes "N dvd 2 ^ LENGTH('w)"
  shows "unat (a + b) mod N = (unat a + unat b) mod N"
  using assms by (simp add: unat_word_ariths mod_mod_cancel)

lemma unat_add_one_diff:
  fixes a b :: "'w::len word"
  assumes "unat (a - b) < 2 ^ LENGTH('w) - 1"
  shows "unat (a + 1 - b) = Suc (unat (a - b))"
proof -
  have "unat ((a - b) + 1) = Suc (unat (a - b))"
    using assms by (simp add: unat_word_ariths)
  then show ?thesis by (simp add: algebra_simps)
qed

lemma unat_diff_Suc:
  fixes a b :: "'w::len word"
  assumes "a \<noteq> b"
  shows "unat (a - b) = Suc (unat (a - (b + 1)))"
proof -
  have "unat (a - b) \<noteq> 0" using assms by (simp add: unat_eq_0)
  moreover have "unat ((a - b) - 1) = unat (a - b) - 1"
    using calculation by (simp add: unat_sub_if' unsigned_1)
  ultimately show ?thesis by (simp add: diff_diff_eq)
qed

locale ring =
  fixes N :: nat
    and dat :: "'q \<Rightarrow> u8 list"
    and rpos :: "'q \<Rightarrow> 'w::len word"
    and wpos :: "'q \<Rightarrow> 'w word"
    and put :: "u8 \<Rightarrow> 'q \<Rightarrow> 'q"
    and get :: "'q \<Rightarrow> u8 \<times> 'q"
  assumes N_pos: "0 < N"
    and N_small: "N < 2 ^ LENGTH('w)"
    and N_dvd: "N dvd 2 ^ LENGTH('w)"
    and put_dat: "dat (put c q) = (dat q)[unat (wpos q) mod N := c]"
    and put_rpos: "rpos (put c q) = rpos q"
    and put_wpos: "wpos (put c q) = wpos q + 1"
    and get_byte: "fst (get q) = dat q ! (unat (rpos q) mod N)"
    and get_dat: "dat (snd (get q)) = dat q"
    and get_rpos: "rpos (snd (get q)) = rpos q + 1"
    and get_wpos: "wpos (snd (get q)) = wpos q"
begin

definition fill :: "'q \<Rightarrow> nat" where
  "fill q = unat (wpos q - rpos q)"

definition contents :: "'q \<Rightarrow> u8 list" where
  "contents q = map (\<lambda>i. dat q ! ((unat (rpos q) + i) mod N)) [0..<fill q]"

definition ring_ok :: "'q \<Rightarrow> bool" where
  "ring_ok q \<longleftrightarrow> length (dat q) = N \<and> fill q \<le> N"

lemma length_contents: "length (contents q) = fill q"
  by (simp add: contents_def)

lemma empty_iff: "rpos q = wpos q \<longleftrightarrow> contents q = []"
  by (auto simp: contents_def fill_def unat_eq_0)

lemma full_iff: "wpos q = rpos q + of_nat N \<longleftrightarrow> length (contents q) = N"
proof -
  have u: "unat (of_nat N :: 'w word) = N" using N_small by (simp add: unat_of_nat)
  have "wpos q = rpos q + of_nat N \<longleftrightarrow> wpos q - rpos q = of_nat N" by (auto simp: algebra_simps)
  also have "\<dots> \<longleftrightarrow> fill q = N"
    unfolding fill_def by (metis u unsigned_word_eqI)
  finally show ?thesis by (simp add: length_contents)
qed

text \<open>Two positions less than \<open>N\<close> apart are in different slots.\<close>

lemma slot_neq:
  assumes "i < k" "k < i + N"
  shows "(a + i) mod N \<noteq> (a + k :: nat) mod N"
proof
  assume "(a + i) mod N = (a + k) mod N"
  then have "N dvd (a + k) - (a + i)" using assms(1) by (metis mod_eq_dvd_iff_nat nat_add_left_cancel_le less_imp_le)
  then have "N dvd k - i" by simp
  then show False using assms by (metis add.commute dvd_imp_le less_diff_conv2 less_imp_le not_less zero_less_diff)
qed

lemma put_contents:
  assumes ok: "ring_ok q" and room: "length (contents q) < N"
  shows "contents (put c q) = contents q @ [c]" and "ring_ok (put c q)"
proof -
  have f: "fill q < N" using room by (simp add: length_contents)
  have fp: "fill (put c q) = Suc (fill q)"
    using f N_small by (simp add: fill_def put_rpos put_wpos unat_add_one_diff)
  have w: "unat (wpos q) mod N = (unat (rpos q) + fill q) mod N"
    using unat_add_mod[OF N_dvd, of "rpos q" "wpos q - rpos q"] by (simp add: fill_def)
  have len: "length (dat q) = N" using ok by (simp add: ring_ok_def)
  have old: "dat (put c q) ! ((unat (rpos q) + i) mod N) = dat q ! ((unat (rpos q) + i) mod N)" if "i < fill q" for i
    using slot_neq[of i "fill q" "unat (rpos q)"] that f by (simp add: put_dat w nth_list_update_neq)
  have new: "dat (put c q) ! ((unat (rpos q) + fill q) mod N) = c"
    using N_pos len by (simp add: put_dat w)
  show "contents (put c q) = contents q @ [c]"
    by (simp add: contents_def fp put_rpos old new)
  show "ring_ok (put c q)" using len f by (simp add: ring_ok_def put_dat fp)
qed

lemma get_contents:
  assumes ok: "ring_ok q" and some: "contents q \<noteq> []"
  shows "contents q = fst (get q) # contents (snd (get q))" and "ring_ok (snd (get q))"
proof -
  have "wpos q \<noteq> rpos q" using some empty_iff[of q] by auto
  then have f: "fill q = Suc (fill (snd (get q)))"
    by (simp add: fill_def get_rpos get_wpos unat_diff_Suc)
  have r: "(unat (rpos q + 1) + i) mod N = (unat (rpos q) + Suc i) mod N" for i
    using unat_add_mod[OF N_dvd, of "rpos q" 1]
    by (metis add.assoc add_Suc_right mod_add_left_eq plus_1_eq_Suc unsigned_1)
  show "contents q = fst (get q) # contents (snd (get q))"
    by (simp add: contents_def f get_byte get_dat get_rpos r upt_conv_Cons map_Suc_upt[symmetric] del: upt_Suc)
  show "ring_ok (snd (get q))" using ok f by (simp add: ring_ok_def get_dat)
qed

lemma fold_put_contents:
  assumes "ring_ok q" "length (contents q) + length bs \<le> N"
  shows "contents (fold put bs q) = contents q @ bs \<and> ring_ok (fold put bs q)"
  using assms
proof (induction bs arbitrary: q)
  case (Cons b bs)
  then have "length (contents q) < N" by simp
  from put_contents[OF Cons.prems(1) this, of b] Cons show ?case by simp
qed simp

end

end
