(* ===== verification/PageTable.thy ===== *)
theory PageTable
  imports Vm
begin

text \<open>
  Page tables as trees, and as maps. \<open>tree\<close> collects the pages a table of a given number of levels
  occupies, \<open>tree_ok\<close> says that these pages are pairwise different, and \<open>pte_of\<close> reads a table
  as a map from virtual addresses to entries. The lemmas show that \<^verbatim>\<open>walk\<close> extends the tree with fresh
  pages only and never changes the map, and that storing through the address it returns changes
  the map at that one virtual page.
\<close>

section \<open>Trees\<close>

definition pte_valid :: "u64 \<Rightarrow> bool" where
  "pte_valid e \<longleftrightarrow> e AND PTE_V \<noteq> 0"

definition entry :: "memory \<Rightarrow> u64 \<Rightarrow> nat \<Rightarrow> u64" where
  "entry m p i = load64 m (p + 8 * of_nat i)"

abbreviation child :: "memory \<Rightarrow> u64 \<Rightarrow> nat \<Rightarrow> u64" where
  "child m p i \<equiv> PTE2PA (entry m p i)"

definition index :: "nat \<Rightarrow> u64 \<Rightarrow> nat" where
  "index level va = unat (PX level va)"

primrec tree :: "memory \<Rightarrow> nat \<Rightarrow> u64 \<Rightarrow> u64 set" where
  "tree m 0 p = {p}"
| "tree m (Suc l) p = insert p (\<Union>i \<in> {i. i < 512 \<and> pte_valid (entry m p i)}. tree m l (child m p i))"

primrec tree_ok :: "memory \<Rightarrow> nat \<Rightarrow> u64 \<Rightarrow> bool" where
  "tree_ok m 0 p \<longleftrightarrow> aligned p \<and> p \<noteq> 0"
| "tree_ok m (Suc l) p \<longleftrightarrow> aligned p \<and> p \<noteq> 0 \<and>
     (\<forall>i < 512. pte_valid (entry m p i) \<longrightarrow> tree_ok m l (child m p i) \<and> p \<notin> tree m l (child m p i)) \<and>
     (\<forall>i < 512. \<forall>j < 512. i \<noteq> j \<longrightarrow> pte_valid (entry m p i) \<longrightarrow> pte_valid (entry m p j) \<longrightarrow>
        tree m l (child m p i) \<inter> tree m l (child m p j) = {})"

primrec slot :: "memory \<Rightarrow> nat \<Rightarrow> u64 \<Rightarrow> u64 \<Rightarrow> u64 option" where
  "slot m 0 p va = Some (pte_addr p 0 va)"
| "slot m (Suc l) p va =
     (if pte_valid (entry m p (index (Suc l) va)) then slot m l (child m p (index (Suc l) va)) va else None)"

definition pte_of :: "memory \<Rightarrow> nat \<Rightarrow> u64 \<Rightarrow> u64 \<Rightarrow> u64" where
  "pte_of m l p va = (case slot m l p va of None \<Rightarrow> 0 | Some a \<Rightarrow> load64 m a)"

definition same_path :: "nat \<Rightarrow> u64 \<Rightarrow> u64 \<Rightarrow> bool" where
  "same_path l va va' \<longleftrightarrow> (\<forall>k \<le> l. index k va = index k va')"

lemma index_less [simp]: "index k va < 512"
  by (simp add: index_def PX_less)

lemma pte_addr_index: "pte_addr p k va = p + 8 * of_nat (index k va)"
  by (simp add: pte_addr_def index_def)

lemma load64_pte_addr: "load64 m (pte_addr p k va) = entry m p (index k va)"
  by (simp add: entry_def pte_addr_index)

lemma pte_valid_0 [simp]: "\<not> pte_valid 0"
  by (simp add: pte_valid_def)

lemma tree_root [simp]: "p \<in> tree m l p"
  by (cases l) auto

lemma child_tree:
  assumes "i < 512" "pte_valid (entry m p i)"
  shows "tree m l (child m p i) \<subseteq> tree m (Suc l) p"
proof -
  have "i \<in> {i. i < 512 \<and> pte_valid (entry m p i)}" using assms by simp
  then show ?thesis unfolding tree.simps by blast
qed

lemma tree_ok_root: "tree_ok m l p \<Longrightarrow> aligned p \<and> p \<noteq> 0"
  by (cases l) auto

lemma tree_pages: "tree_ok m l p \<Longrightarrow> q \<in> tree m l p \<Longrightarrow> aligned q \<and> q \<noteq> 0"
  by (induction l arbitrary: p) auto

lemma slot_offset:
  assumes "aligned p" "i < 512" "j < 8"
  shows "PGROUNDDOWN (p + 8 * of_nat i + of_nat j) = p"
proof -
  have "PGROUNDDOWN (p + of_nat (8 * i + j)) = p" using assms by (intro page_offset) auto
  then show ?thesis by (simp add: algebra_simps)
qed

lemma entry_same_page:
  "aligned p \<Longrightarrow> i < 512 \<Longrightarrow> same_page m m' p \<Longrightarrow> entry m' p i = entry m p i"
  unfolding entry_def by (rule load64_cong) (simp add: same_page_def slot_offset)

lemma pte_of_0: "pte_of m 0 p va = entry m p (index 0 va)"
  by (simp add: pte_of_def load64_pte_addr)

lemma pte_of_Suc:
  "pte_of m (Suc l) p va =
     (if pte_valid (entry m p (index (Suc l) va)) then pte_of m l (child m p (index (Suc l) va)) va else 0)"
  by (simp add: pte_of_def)

text \<open>A tree, and what it maps, depends on its own pages only.\<close>

lemma tree_frame:
  assumes "tree_ok m l p" "\<And>q. q \<in> tree m l p \<Longrightarrow> same_page m m' q"
  shows "tree m' l p = tree m l p" "tree_ok m' l p" "slot m' l p va = slot m l p va" "pte_of m' l p va = pte_of m l p va"
proof -
  have "tree m' l p = tree m l p \<and> tree_ok m' l p \<and> slot m' l p va = slot m l p va \<and> pte_of m' l p va = pte_of m l p va"
    using assms
  proof (induction l arbitrary: p)
    case 0
    then have "entry m' p (index 0 va) = entry m p (index 0 va)"
      by (intro entry_same_page) auto
    with 0 show ?case by (simp add: pte_of_def load64_pte_addr)
  next
    case (Suc l)
    have e: "entry m' p i = entry m p i" if "i < 512" for i
      using Suc.prems(1) that by (intro entry_same_page Suc.prems(2)) auto
    have IH: "tree m' l (child m p i) = tree m l (child m p i) \<and> tree_ok m' l (child m p i) \<and>
        slot m' l (child m p i) va = slot m l (child m p i) va \<and>
        pte_of m' l (child m p i) va = pte_of m l (child m p i) va"
      if "i < 512" "pte_valid (entry m p i)" for i
      by (rule Suc.IH) (use Suc.prems that in auto)
    have eq: "{i. i < 512 \<and> pte_valid (entry m' p i)} = {i. i < 512 \<and> pte_valid (entry m p i)}"
      using e by auto
    have t: "tree m' (Suc l) p = tree m (Suc l) p"
      unfolding tree.simps eq by (intro arg_cong[of _ _ "insert p"] SUP_cong) (use e IH in auto)
    have "tree_ok m' (Suc l) p" using Suc.prems(1) e IH by simp
    moreover have "slot m' (Suc l) p va = slot m (Suc l) p va" using e IH by simp
    moreover have "pte_of m' (Suc l) p va = pte_of m (Suc l) p va"
      using e IH[of "index (Suc l) va"] by (simp add: pte_of_Suc)
    ultimately show ?case using t by simp
  qed
  then show "tree m' l p = tree m l p" "tree_ok m' l p" "slot m' l p va = slot m l p va" "pte_of m' l p va = pte_of m l p va"
    by auto
qed

section \<open>Storing an entry\<close>

lemma store64_far:
  assumes "aligned p" "i < 512" "j < 512" "i \<noteq> j" "k < 8"
  shows "store64 m (p + 8 * of_nat i) v (p + 8 * of_nat j + of_nat k) = m (p + 8 * of_nat j + of_nat k)"
proof (rule store64_other)
  have ij: "8 * j + k < 2 ^ 64" "8 * i < 2 ^ 64" "8 * i + 2 ^ 63 < 2 ^ 64" using assms by simp_all
  have "p + 8 * of_nat j + of_nat k - (p + 8 * of_nat i) = of_nat (8 * j + k) - (of_nat (8 * i) :: u64)"
    by simp
  moreover have "\<not> unat (of_nat (8 * j + k) - of_nat (8 * i) :: u64) < 8"
    using assms(2-5) ij by (simp only: unat_sub_if' unat_of_nat64) (auto simp: not_less)
  ultimately show "\<not> unat (p + 8 * of_nat j + of_nat k - (p + 8 * of_nat i)) < 8" by metis
qed

lemma entry_store64:
  assumes "aligned p" "i < 512" "j < 512"
  shows "entry (store64 m (p + 8 * of_nat i) v) p j = (if i = j then v else entry m p j)"
  using assms store64_far[OF assms]
  by (cases "i = j") (simp_all add: entry_def load64_cong[of "store64 m (p + 8 * of_nat i) v" _ m])

lemma store_entry_frame:
  assumes "aligned p" "i < 512" "q \<noteq> p"
  shows "same_page m (store64 m (p + 8 * of_nat i) v) q"
  unfolding same_page_def
proof (intro allI impI)
  fix x assume x: "PGROUNDDOWN x = q"
  show "store64 m (p + 8 * of_nat i) v x = m x"
  proof (rule store64_other, rule notI)
    assume l: "unat (x - (p + 8 * of_nat i)) < 8"
    have "x = p + 8 * of_nat i + of_nat (unat (x - (p + 8 * of_nat i)))" by simp
    then have "PGROUNDDOWN x = p" using slot_offset[OF assms(1,2) l] by simp
    with x assms(3) show False by simp
  qed
qed

lemma slot_in_tree:
  "slot m l p va = Some a \<Longrightarrow> \<exists>q \<in> tree m l p. a = q + 8 * of_nat (index 0 va)"
proof (induction l arbitrary: p)
  case (Suc l)
  let ?i = "index (Suc l) va"
  from Suc.prems have v: "pte_valid (entry m p ?i)" "slot m l (child m p ?i) va = Some a"
    by (auto split: if_splits)
  obtain q where q: "q \<in> tree m l (child m p ?i)" "a = q + 8 * of_nat (index 0 va)" using Suc.IH[OF v(2)] by auto
  then show ?case using child_tree[OF index_less v(1)] by blast
qed (simp add: pte_addr_index)

lemma slot_not_0:
  assumes "tree_ok m l p" "slot m l p va = Some a"
  shows "a \<noteq> 0"
proof -
  obtain q where q: "q \<in> tree m l p" "a = q + 8 * of_nat (index 0 va)" using slot_in_tree[OF assms(2)] by auto
  have "aligned q" "q \<noteq> 0" using tree_pages[OF assms(1) q(1)] by auto
  then have "PGROUNDDOWN a = q" using slot_offset[of q "index 0 va" 0] q(2) by simp
  with \<open>q \<noteq> 0\<close> show ?thesis by (auto simp: PGROUNDDOWN_def)
qed

lemma store_slot_frame:
  assumes "tree_ok m l p" "slot m l p va = Some a" "q \<notin> tree m l p"
  shows "same_page m (store64 m a v) q"
proof -
  obtain q' where "q' \<in> tree m l p" "a = q' + 8 * of_nat (index 0 va)" using slot_in_tree[OF assms(2)] by auto
  then show ?thesis using tree_pages[OF assms(1)] assms(3) by (auto intro!: store_entry_frame)
qed

lemma store_slot:
  assumes "tree_ok m l p" "slot m l p va = Some a"
  shows "tree (store64 m a v) l p = tree m l p \<and> tree_ok (store64 m a v) l p \<and>
    slot (store64 m a v) l p va' = slot m l p va' \<and>
    pte_of (store64 m a v) l p va' = (if same_path l va va' then v else pte_of m l p va')"
  using assms
proof (induction l arbitrary: p)
  case 0
  then show ?case
    by (auto simp: pte_addr_index pte_of_0 entry_store64 same_path_def)
next
  case (Suc l)
  let ?m = "store64 m a v" and ?i = "index (Suc l) va" and ?i' = "index (Suc l) va'"
  have ok: "tree_ok m l (child m p ?i)" "p \<notin> tree m l (child m p ?i)" "slot m l (child m p ?i) va = Some a"
    "pte_valid (entry m p ?i)"
    using Suc.prems by (auto split: if_splits)
  note IH = Suc.IH[OF ok(1,3)] and fr = store_slot_frame[OF ok(1,3)]
  have e: "entry ?m p i = entry m p i" if "i < 512" for i
    using Suc.prems(1) that by (intro entry_same_page fr ok(2)) auto
  have other: "tree ?m l (child m p i) = tree m l (child m p i) \<and> tree_ok ?m l (child m p i) \<and>
      slot ?m l (child m p i) va' = slot m l (child m p i) va' \<and> pte_of ?m l (child m p i) va' = pte_of m l (child m p i) va'"
    if i: "i < 512" "pte_valid (entry m p i)" "i \<noteq> ?i" for i
  proof -
    have d: "tree m l (child m p i) \<inter> tree m l (child m p ?i) = {}" "tree_ok m l (child m p i)"
      using Suc.prems(1) i ok(4) by auto
    have "same_page m ?m q" if "q \<in> tree m l (child m p i)" for q using that d(1) by (intro fr) auto
    from tree_frame[OF d(2) this] show ?thesis by auto
  qed
  have all: "tree ?m l (child m p i) = tree m l (child m p i) \<and> tree_ok ?m l (child m p i) \<and>
      slot ?m l (child m p i) va' = slot m l (child m p i) va'" if "i < 512" "pte_valid (entry m p i)" for i
    using other[OF that] IH by (cases "i = ?i") auto
  have eq: "{i. i < 512 \<and> pte_valid (entry ?m p i)} = {i. i < 512 \<and> pte_valid (entry m p i)}" using e by auto
  have t: "tree ?m (Suc l) p = tree m (Suc l) p"
    unfolding tree.simps eq by (intro arg_cong[of _ _ "insert p"] SUP_cong) (use e all in auto)
  have o: "tree_ok ?m (Suc l) p" using Suc.prems(1) e all by simp
  have s: "slot ?m (Suc l) p va' = slot m (Suc l) p va'" using e all[of ?i'] by simp
  have "pte_of ?m (Suc l) p va' = (if same_path (Suc l) va va' then v else pte_of m (Suc l) p va')"
  proof (cases "?i' = ?i")
    case True
    then have "same_path (Suc l) va va' = same_path l va va'" by (auto simp: same_path_def le_Suc_eq)
    with True IH e ok(4) show ?thesis by (simp add: pte_of_Suc)
  next
    case False
    then have "\<not> same_path (Suc l) va va'" by (auto simp: same_path_def)
    with False other[of ?i'] e show ?thesis by (simp add: pte_of_Suc)
  qed
  with t o s show ?case by simp
qed

section \<open>Growing a tree\<close>

text \<open>
  From memory \<open>m\<close> to \<open>m'\<close> the tree has taken exactly the pages \<open>F - F'\<close> from the free ones; it maps
  what it mapped before, and no page outside the tree and the free pages has changed.
\<close>

definition grows :: "memory \<Rightarrow> memory \<Rightarrow> nat \<Rightarrow> u64 \<Rightarrow> u64 set \<Rightarrow> u64 set \<Rightarrow> bool" where
  "grows m m' l p F F' \<longleftrightarrow> F' \<subseteq> F \<and> tree_ok m' l p \<and> tree m' l p = tree m l p \<union> (F - F') \<and>
     (\<forall>q. q \<notin> tree m l p \<union> F \<longrightarrow> same_page m m' q) \<and> (\<forall>va. pte_of m' l p va = pte_of m l p va)"

lemma grows_refl: "tree_ok m l p \<Longrightarrow> grows m m l p F F"
  by (simp add: grows_def)

lemma grows_trans:
  assumes "grows m m1 l p F F1" "grows m1 m2 l p F1 F2"
  shows "grows m m2 l p F F2"
proof -
  have "same_page m m2 q" if q: "q \<notin> tree m l p \<union> F" for q
  proof (rule same_page_trans)
    show "same_page m m1 q" using assms(1) q by (simp add: grows_def)
    have "q \<notin> tree m1 l p \<union> F1" using assms(1) q by (auto simp: grows_def)
    then show "same_page m1 m2 q" using assms(2) by (simp add: grows_def)
  qed
  then show ?thesis using assms unfolding grows_def by auto
qed

lemma grows_child:
  assumes ok: "tree_ok m (Suc l) p" and i: "i < 512" "pte_valid (entry m p i)"
    and F: "tree m (Suc l) p \<inter> F = {}" and g: "grows m m' l (child m p i) F F'"
  shows "grows m m' (Suc l) p F F'" "entry m' p i = entry m p i"
proof -
  let ?c = "child m p i"
  note ci = child_tree
  have frame: "same_page m m' q" if "q \<notin> tree m l ?c" "q \<notin> F" for q
    using g that by (auto simp: grows_def)
  have p: "aligned p" "p \<noteq> 0" "p \<notin> tree m l ?c" "p \<notin> F" using ok i F by auto
  then have e: "entry m' p j = entry m p j" if "j < 512" for j
    using that by (intro entry_same_page frame) auto
  from e i show "entry m' p i = entry m p i" by simp
  have c: "F' \<subseteq> F" "tree_ok m' l ?c" "tree m' l ?c = tree m l ?c \<union> (F - F')" "\<And>va. pte_of m' l ?c va = pte_of m l ?c va"
    using g by (auto simp: grows_def)
  have other: "tree m' l (child m p j) = tree m l (child m p j) \<and> tree_ok m' l (child m p j) \<and>
      pte_of m' l (child m p j) va = pte_of m l (child m p j) va"
    if j: "j < 512" "pte_valid (entry m p j)" "j \<noteq> i" for j va
  proof -
    have d: "tree m l (child m p j) \<inter> tree m l ?c = {}" "tree_ok m l (child m p j)" using ok i j by auto
    have "same_page m m' q" if "q \<in> tree m l (child m p j)" for q
      using that d(1) ci[OF j(1,2), of l] F by (intro frame) blast+
    from tree_frame[OF d(2) this] show ?thesis by auto
  qed
  have eq: "{j. j < 512 \<and> pte_valid (entry m' p j)} = {j. j < 512 \<and> pte_valid (entry m p j)}" using e by auto
  have t: "tree m' (Suc l) p = tree m (Suc l) p \<union> (F - F')"
  proof -
    have "tree m' l (child m' p j) = tree m l (child m p j) \<union> (if j = i then F - F' else {})"
      if "j < 512" "pte_valid (entry m p j)" for j
      using that e other[of j] c(3) by auto
    then have "(\<Union>j\<in>{j. j < 512 \<and> pte_valid (entry m p j)}. tree m' l (child m' p j)) =
        (\<Union>j\<in>{j. j < 512 \<and> pte_valid (entry m p j)}. tree m l (child m p j) \<union> (if j = i then F - F' else {}))"
      by (intro SUP_cong) auto
    also have "\<dots> = (\<Union>j\<in>{j. j < 512 \<and> pte_valid (entry m p j)}. tree m l (child m p j)) \<union> (F - F')"
      using i by (auto split: if_splits)
    finally show ?thesis unfolding tree.simps eq by auto
  qed
  have o: "tree_ok m' (Suc l) p"
  proof -
    have "tree_ok m' l (child m p j) \<and> p \<notin> tree m' l (child m p j)" if "j < 512" "pte_valid (entry m p j)" for j
      using other[of j] that ok c(2,3) p by (cases "j = i") auto
    moreover have "tree m' l (child m p j) \<inter> tree m' l (child m p k) = {}"
      if "j < 512" "k < 512" "j \<noteq> k" "pte_valid (entry m p j)" "pte_valid (entry m p k)" for j k
    proof -
      have d: "tree m l (child m p j) \<inter> tree m l (child m p k) = {}" using ok that by simp
      have "tree m l (child m p j) \<inter> F = {}" "tree m l (child m p k) \<inter> F = {}"
        using F ci[OF that(1,4), of l] ci[OF that(2,5), of l] by blast+
      then show ?thesis using d other[of j] other[of k] that c(3) by (cases "j = i"; cases "k = i") auto
    qed
    ultimately show ?thesis using p e by simp
  qed
  have "pte_of m' (Suc l) p va = pte_of m (Suc l) p va" for va
    using e other[of "index (Suc l) va" va] c(4)[of va] by (cases "index (Suc l) va = i") (auto simp: pte_of_Suc)
  moreover have "same_page m m' q" if "q \<notin> tree m (Suc l) p \<union> F" for q
    using that ci[OF i, of l] by (intro frame) blast+
  ultimately show "grows m m' (Suc l) p F F'" using t o c(1) by (simp add: grows_def)
qed

text \<open>A zeroed page is an empty table of any number of levels.\<close>

lemma zero_page:
  assumes "aligned q" "q \<noteq> 0" "\<And>x. PGROUNDDOWN x = q \<Longrightarrow> m x = 0"
  shows "i < 512 \<Longrightarrow> entry m q i = 0" "tree m l q = {q}" "tree_ok m l q" "pte_of m l q va = 0"
proof -
  have e: "entry m q i = 0" if "i < 512" for i
  proof -
    have "load64 m (q + 8 * of_nat i) = load64 (\<lambda>_. 0) (q + 8 * of_nat i)"
      by (rule load64_cong) (simp add: assms slot_offset that)
    then show ?thesis by (simp add: entry_def)
  qed
  then show "i < 512 \<Longrightarrow> entry m q i = 0" .
  from e assms(1,2) show "tree m l q = {q}" "tree_ok m l q" "pte_of m l q va = 0"
    by (cases l; simp add: pte_of_0 pte_of_Suc)+
qed

lemma pte_table_entry:
  "aligned q \<Longrightarrow> PTE2PA (PA2PTE q OR PTE_V) = q" "pte_valid (PA2PTE q OR PTE_V)"
proof -
  show "aligned q \<Longrightarrow> PTE2PA (PA2PTE q OR PTE_V) = q" by (rule PTE2PA_PA2PTE) (simp_all add: PTE_V_def)
  have "bit ((PA2PTE q OR PTE_V) AND PTE_V) 0" by (simp add: bit_simps PTE_V_def)
  then show "pte_valid (PA2PTE q OR PTE_V)" unfolding pte_valid_def by (metis bit_0_eq bot_apply bot_bool_def)
qed

text \<open>Hanging a fresh, zeroed page into an invalid entry.\<close>

lemma grows_attach:
  assumes ok: "tree_ok m (Suc l) p" and i: "i < 512" "\<not> pte_valid (entry m p i)"
    and q: "aligned q" "q \<noteq> 0" "q \<in> F" and F: "tree m (Suc l) p \<inter> F = {}"
    and m1: "\<And>r. r \<noteq> q \<Longrightarrow> same_page m m1 r" "\<And>x. PGROUNDDOWN x = q \<Longrightarrow> m1 x = 0"
    and m': "m' = store64 m1 (p + 8 * of_nat i) (PA2PTE q OR PTE_V)"
  shows "grows m m' (Suc l) p F (F - {q})" "entry m' p i = PA2PTE q OR PTE_V" "child m' p i = q"
proof -
  have p: "aligned p" "p \<noteq> q" "p \<noteq> 0" using ok F q(3) by auto
  have frame: "same_page m m' r" if "r \<noteq> q" "r \<noteq> p" for r
    unfolding m' using m1(1)[OF that(1)] store_entry_frame[OF p(1) i(1) that(2)] by (rule same_page_trans)
  have e: "entry m' p j = (if j = i then PA2PTE q OR PTE_V else entry m p j)" if "j < 512" for j
    unfolding m' using entry_store64[OF p(1) i(1) that] entry_same_page[OF p(1) that m1(1)[OF p(2)]] by auto
  from e[OF i(1)] show ei: "entry m' p i = PA2PTE q OR PTE_V" by simp
  then show ci: "child m' p i = q" by (simp add: pte_table_entry q(1))
  have "m' x = 0" if "PGROUNDDOWN x = q" for x
    using m1(2)[OF that] store_entry_frame[OF p(1) i(1), of q m1] p(2) that by (auto simp: m' same_page_def)
  note z = zero_page[OF q(1,2) this]
  have other: "tree m' l (child m p j) = tree m l (child m p j) \<and> tree_ok m' l (child m p j) \<and> j \<noteq> i \<and>
      pte_of m' l (child m p j) va = pte_of m l (child m p j) va \<and> q \<notin> tree m l (child m p j)"
    if j: "j < 512" "pte_valid (entry m p j)" for j va
  proof -
    have d: "p \<notin> tree m l (child m p j)" "tree_ok m l (child m p j)" using ok j by auto
    have nq: "q \<notin> tree m l (child m p j)" using child_tree[OF j, of l] F q(3) by blast
    have "same_page m m' r" if "r \<in> tree m l (child m p j)" for r
      using that d(1) nq by (intro frame) auto
    from tree_frame[OF d(2) this] nq i j show ?thesis by auto
  qed
  have eq: "{j. j < 512 \<and> pte_valid (entry m' p j)} = insert i {j. j < 512 \<and> pte_valid (entry m p j)}"
    using e i(1) pte_table_entry(2) by auto
  have "tree m' l (child m' p j) = tree m l (child m p j)" if "j \<in> {j. j < 512 \<and> pte_valid (entry m p j)}" for j
    using that e[of j] other[of j] by auto
  then have "(\<Union>j\<in>{j. j < 512 \<and> pte_valid (entry m p j)}. tree m' l (child m' p j)) =
      (\<Union>j\<in>{j. j < 512 \<and> pte_valid (entry m p j)}. tree m l (child m p j))" by (intro SUP_cong) auto
  then have t: "tree m' (Suc l) p = insert q (tree m (Suc l) p)"
    unfolding tree.simps eq by (simp add: ci z(2) insert_commute)
  have v: "pte_valid (entry m' p j) \<longleftrightarrow> j = i \<or> pte_valid (entry m p j)" if "j < 512" for j
    using e[OF that] pte_table_entry(2) by auto
  have o: "tree_ok m' (Suc l) p"
  proof -
    have "tree_ok m' l (child m' p j) \<and> p \<notin> tree m' l (child m' p j)" if "j < 512" "pte_valid (entry m' p j)" for j
      using that v[OF that(1)] e[OF that(1)] other[of j] ok z ci p by (cases "j = i") auto
    moreover have "tree m' l (child m' p j) \<inter> tree m' l (child m' p k) = {}"
      if "j < 512" "k < 512" "j \<noteq> k" "pte_valid (entry m' p j)" "pte_valid (entry m' p k)" for j k
      using that v[OF that(1)] v[OF that(2)] e[OF that(1)] e[OF that(2)] other[of j] other[of k] ok z ci
      by (cases "j = i"; cases "k = i") auto
    ultimately show ?thesis using p by simp
  qed
  have "pte_of m' (Suc l) p va = pte_of m (Suc l) p va" for va
    using e[of "index (Suc l) va"] other[of "index (Suc l) va" va] z(4) ci i pte_table_entry(2) v[of "index (Suc l) va"]
    by (cases "index (Suc l) va = i") (auto simp: pte_of_Suc)
  moreover have "same_page m m' r" if "r \<notin> tree m (Suc l) p \<union> F" for r
    using that q(3) tree_root[of p m "Suc l"] by (intro frame) auto
  ultimately show "grows m m' (Suc l) p F (F - {q})" using t o q(3) by (auto simp: grows_def)
qed

section \<open>Walking\<close>

lemma walk_loop_noalloc:
  "walk_loop l p va False s = Ok (case slot (mem s) l p va of None \<Rightarrow> 0 | Some a \<Rightarrow> a) s"
  by (induction l arbitrary: p) (simp_all add: load64_pte_addr pte_valid_def Let_def)

text \<open>One call of the allocator, as the page-table code sees it.\<close>

lemma kalloc_cases:
  assumes "kmem_inv s F"
  obtains (none) s' where "kalloc s = Ok 0 s'" "kmem_inv s' F" "mem s' = mem s" "lkview s' = lkview s" "kend s' = kend s"
  | (page) q s' where "kalloc s = Ok q s'" "q \<noteq> 0" "aligned q" "q \<in> F" "kmem_inv s' (F - {q})"
      "\<And>r. r \<noteq> q \<Longrightarrow> same_page (mem s) (mem s') r" "lkview s' = lkview s" "kend s' = kend s"
proof -
  obtain q s' where k: "kalloc s = Ok q s'" using ka.alloc_total[OF assms] by blast
  note f = kmem_inv_lkview[OF assms k]
  show thesis
  proof (cases "q = 0")
    case True
    then have "kmem_inv s' F" using ka.alloc_law[OF assms] k ka.free_valid[OF assms] ka.valid_page[of s 0] by auto
    with True k f none show thesis by simp
  next
    case False
    from ka.alloc_fresh[OF assms k False] page[OF k False] f show thesis by auto
  qed
qed

lemma put_page:
  assumes "kmem_inv s F" "\<And>r. r \<in> F \<Longrightarrow> same_page (mem s) m r"
  shows "kmem_inv (s\<lparr>mem := m\<rparr>) F"
  using ka.put_mem_law[OF assms] .

lemma memset_zero_page: "aligned q \<Longrightarrow> PGROUNDDOWN x = q \<Longrightarrow> memset m q 0 4096 x = 0"
  by (simp add: page_fill)

lemma walk_loop_alloc:
  fixes s :: "'z kmem_scheme"
  assumes "kmem_inv s F" "tree_ok (mem s) l p" "tree (mem s) l p \<inter> F = {}"
  shows "\<exists>a s' F'. walk_loop l p va True s = Ok a s' \<and> kmem_inv s' F' \<and> grows (mem s) (mem s') l p F F' \<and>
    lkview s' = lkview s \<and> kend s' = kend s \<and> (a = 0 \<or> slot (mem s') l p va = Some a)"
  using assms
proof (induction l arbitrary: p s F)
  case 0
  then show ?case using grows_refl[OF 0(2), of F] by auto
next
  case (Suc l)
  let ?i = "index (Suc l) va"
  have descend: "\<exists>a s' F'. walk_loop l (child (mem s) p ?i) va True s = Ok a s' \<and> kmem_inv s' F' \<and>
      grows (mem s) (mem s') (Suc l) p F F' \<and> lkview s' = lkview s \<and> kend s' = kend s \<and>
      (a = 0 \<or> slot (mem s') (Suc l) p va = Some a)"
    if h: "kmem_inv s F" "tree_ok (mem s) (Suc l) p" "tree (mem s) (Suc l) p \<inter> F = {}" "pte_valid (entry (mem s) p ?i)"
    for s :: "'z kmem_scheme" and F
  proof -
    have sub: "tree (mem s) l (child (mem s) p ?i) \<subseteq> tree (mem s) (Suc l) p" using h(4) by (intro child_tree) simp_all
    have "tree_ok (mem s) l (child (mem s) p ?i)" using h(2,4) by simp
    then obtain a s' F' where r: "walk_loop l (child (mem s) p ?i) va True s = Ok a s'" "kmem_inv s' F'"
        "grows (mem s) (mem s') l (child (mem s) p ?i) F F'" "lkview s' = lkview s" "kend s' = kend s"
        "a = 0 \<or> slot (mem s') l (child (mem s) p ?i) va = Some a"
      using Suc.IH[OF h(1)] sub h(3) by blast
    from grows_child[OF h(2) index_less h(4,3) r(3)] r h(4) show ?thesis by auto
  qed
  show ?case
  proof (cases "pte_valid (entry (mem s) p ?i)")
    case True
    with descend[OF Suc.prems True] show ?thesis by (simp add: load64_pte_addr pte_valid_def Let_def)
  next
    case False
    then have w: "walk_loop (Suc l) p va True s = bind (kalloc s) (\<lambda>q s. if q = 0 then Ok 0 s
        else walk_loop l q va True (s\<lparr>mem := store64 (memset (mem s) q 0 4096) (p + 8 * of_nat ?i) (PA2PTE q OR PTE_V)\<rparr>))"
      by (simp add: entry_def pte_addr_index pte_valid_def Let_def)
    from Suc.prems(1) show ?thesis
    proof (cases rule: kalloc_cases)
      case (none s')
      with grows_refl[OF Suc.prems(2), of F] show ?thesis unfolding w by auto
    next
      case (page q s1)
      let ?m1 = "memset (mem s1) q 0 4096"
      let ?m' = "store64 ?m1 (p + 8 * of_nat ?i) (PA2PTE q OR PTE_V)"
      have f1: "same_page (mem s) ?m1 r" if "r \<noteq> q" for r
        using page(6)[OF that] page_fill_same[OF page(3) that] by (rule same_page_trans)
      note g = grows_attach[OF Suc.prems(2) index_less False page(3,2,4) Suc.prems(3) f1
          memset_zero_page[OF page(3)] refl]
      have p: "aligned p" "p \<notin> F" using Suc.prems(2,3) by auto
      have i2: "kmem_inv (s1\<lparr>mem := ?m'\<rparr>) (F - {q})"
        by (rule put_page[OF page(5)], rule same_page_trans[OF page_fill_same[OF page(3)]])
          (use p in \<open>auto intro!: store_entry_frame\<close>)
      have "tree ?m' (Suc l) p \<inter> (F - {q}) = {}" using g(1) Suc.prems(3) by (auto simp: grows_def)
      moreover have "tree_ok ?m' (Suc l) p" using g(1) by (simp add: grows_def)
      ultimately obtain a s' F' where r: "walk_loop l q va True (s1\<lparr>mem := ?m'\<rparr>) = Ok a s'" "kmem_inv s' F'"
          "grows ?m' (mem s') (Suc l) p (F - {q}) F'" "lkview s' = lkview s1" "kend s' = kend s1"
          "a = 0 \<or> slot (mem s') (Suc l) p va = Some a"
        using descend[OF i2] g(2,3) pte_table_entry(2) by auto
      have "walk_loop (Suc l) p va True s = Ok a s'" unfolding w using page(1,2) r(1) by simp
      with r grows_trans[OF g(1) r(3)] page(7,8) show ?thesis by auto
    qed
  qed
qed

section \<open>Page numbers\<close>

definition pn :: "u64 \<Rightarrow> nat" where
  "pn va = unat va div 4096"

lemma index_pn: "index k va = pn va div 512 ^ k mod 512"
proof -
  have "(0x1FF :: u64) = mask 9" by (simp add: mask_eq_exp_minus_1)
  then have "PX k va = take_bit 9 (drop_bit (12 + 9 * k) va)"
    by (simp only: PX_def PXSHIFT_def take_bit_eq_mask)
  then have "index k va = unat (drop_bit (12 + 9 * k) va) mod 2 ^ 9" by (simp only: index_def unat_take_bit)
  also have "unat (drop_bit (12 + 9 * k) va) = unat va div 2 ^ (12 + 9 * k)"
    unfolding unat_drop_bit_eq by (simp only: drop_bit_eq_div)
  also have "\<dots> = unat va div 2 ^ 12 div (2 ^ 9) ^ k" by (simp add: power_add power_mult div_mult2_eq)
  finally show ?thesis by (simp add: pn_def)
qed

lemma pn_less: "va < MAXVA \<Longrightarrow> pn va < 0x4000000"
  by (simp add: pn_def word_less_nat_alt MAXVA_def div_less_iff_less_mult)

lemma same_path_pn:
  assumes "va < MAXVA" "va' < MAXVA"
  shows "same_path 2 va va' \<longleftrightarrow> pn va = pn va'"
proof
  assume "same_path 2 va va'"
  then have e: "index 0 va = index 0 va'" "index 1 va = index 1 va'" "index 2 va = index 2 va'"
    by (auto simp: same_path_def)
  have d: "x div 262144 < 512" if "x < 0x4000000" for x :: nat
    using that by (simp add: div_less_iff_less_mult)
  have e': "pn va mod 512 = pn va' mod 512" "pn va div 512 mod 512 = pn va' div 512 mod 512"
    "pn va div 262144 = pn va' div 262144"
    using e d[OF pn_less[OF assms(1)]] d[OF pn_less[OF assms(2)]]
    by (simp_all add: index_pn)
  moreover have "x div 512 div 512 = x div 262144" for x :: nat by (simp add: div_mult2_eq[symmetric])
  ultimately have "pn va div 512 = pn va' div 512" by (metis div_mult_mod_eq)
  with e'(1) show "pn va = pn va'" by (metis div_mult_mod_eq)
qed (simp add: same_path_def index_pn)

lemma pn_PGROUNDDOWN [simp]: "pn (PGROUNDDOWN va) = pn va"
  by (simp add: pn_def unat_PGROUNDDOWN minus_mod_eq_mult_div)

lemma pn_unat: "aligned a \<Longrightarrow> unat a = 4096 * pn a"
  by (auto simp: pn_def aligned_unat)

lemma pn_add:
  assumes "aligned a" "pn a + n < 2 ^ 52"
  shows "aligned (a + of_nat (n * 4096))" "pn (a + of_nat (n * 4096)) = pn a + n"
    "unat (a + of_nat (n * 4096)) = 4096 * (pn a + n)"
proof -
  show u: "unat (a + of_nat (n * 4096)) = 4096 * (pn a + n)"
    using assms(2) unat_add_of_nat[of a "n * 4096"] by (simp add: pn_unat[OF assms(1)])
  then show "aligned (a + of_nat (n * 4096))" "pn (a + of_nat (n * 4096)) = pn a + n"
    by (simp_all add: aligned_unat pn_def)
qed

lemma aligned_eq_pn: "aligned a \<Longrightarrow> aligned b \<Longrightarrow> a = b \<longleftrightarrow> pn a = pn b"
  using pn_unat[of a] pn_unat[of b] by (auto simp: word_unat_eq_iff)

lemma aligned_less_pn: "aligned a \<Longrightarrow> a < MAXVA \<longleftrightarrow> pn a < 0x4000000"
  using pn_unat[of a] by (auto simp: word_less_nat_alt MAXVA_def)

section \<open>Mapping pages\<close>

text \<open>The page table at \<open>pt\<close> is a well-formed three-level tree, none of whose pages is free.\<close>

definition pt_inv :: "'z kmem_scheme \<Rightarrow> u64 set \<Rightarrow> u64 \<Rightarrow> bool" where
  "pt_inv s F pt \<longleftrightarrow> kmem_inv s F \<and> tree_ok (mem s) 2 pt \<and> tree (mem s) 2 pt \<inter> F = {}"

abbreviation pte_at :: "'z kmem_scheme \<Rightarrow> u64 \<Rightarrow> u64 \<Rightarrow> u64" where
  "pte_at s pt va \<equiv> pte_of (mem s) 2 pt va"

text \<open>
  An edit of the table at \<open>pt\<close>: it keeps the invariant, the tree takes the pages \<open>F - F'\<close>, no page
  outside the tree and the free pages changes, and the hart's locks are as before.
\<close>

definition pt_edit :: "'z kmem_scheme \<Rightarrow> 'z kmem_scheme \<Rightarrow> u64 set \<Rightarrow> u64 set \<Rightarrow> u64 \<Rightarrow> bool" where
  "pt_edit s s' F F' pt \<longleftrightarrow> pt_inv s' F' pt \<and> F' \<subseteq> F \<and> tree (mem s') 2 pt = tree (mem s) 2 pt \<union> (F - F') \<and>
     (\<forall>q. q \<notin> tree (mem s) 2 pt \<union> F \<longrightarrow> same_page (mem s) (mem s') q) \<and> lkview s' = lkview s \<and> kend s' = kend s"

lemma pt_edit_refl: "pt_inv s F pt \<Longrightarrow> pt_edit s s F F pt"
  by (simp add: pt_edit_def)

lemma pt_edit_trans:
  assumes "pt_edit s s1 F F1 pt" "pt_edit s1 s2 F1 F2 pt"
  shows "pt_edit s s2 F F2 pt"
proof -
  have "same_page (mem s) (mem s2) q" if q: "q \<notin> tree (mem s) 2 pt \<union> F" for q
  proof (rule same_page_trans)
    show "same_page (mem s) (mem s1) q" using assms(1) q by (simp add: pt_edit_def)
    have "q \<notin> tree (mem s1) 2 pt \<union> F1" using assms(1) q by (auto simp: pt_edit_def)
    then show "same_page (mem s1) (mem s2) q" using assms(2) by (simp add: pt_edit_def)
  qed
  then show ?thesis using assms unfolding pt_edit_def by auto
qed

lemma walk_alloc:
  assumes "pt_inv s F pt" "va < MAXVA"
  obtains a s' F' where "walk pt va True s = Ok a s'" "pt_edit s s' F F' pt" "\<And>v. pte_at s' pt v = pte_at s pt v"
    "a = 0 \<or> a \<noteq> 0 \<and> slot (mem s') 2 pt va = Some a"
proof -
  have i: "kmem_inv s F" "tree_ok (mem s) 2 pt" "tree (mem s) 2 pt \<inter> F = {}" using assms(1) by (auto simp: pt_inv_def)
  from walk_loop_alloc[OF i, of va] obtain a s' F' where r: "walk_loop 2 pt va True s = Ok a s'" "kmem_inv s' F'"
      "grows (mem s) (mem s') 2 pt F F'" "lkview s' = lkview s" "kend s' = kend s" "a = 0 \<or> slot (mem s') 2 pt va = Some a"
    by blast
  have "pt_edit s s' F F' pt" using r i(3) by (auto simp: pt_edit_def pt_inv_def grows_def)
  moreover have "pte_at s' pt v = pte_at s pt v" for v using r(3) by (simp add: grows_def)
  moreover have "a = 0 \<or> a \<noteq> 0 \<and> slot (mem s') 2 pt va = Some a" using r(6) by auto
  ultimately show thesis using that[of a s' F'] r(1) assms(2) by (simp add: walk_def)
qed

lemma walk_noalloc:
  "va < MAXVA \<Longrightarrow> walk pt va False s = Ok (case slot (mem s) 2 pt va of None \<Rightarrow> 0 | Some a \<Rightarrow> a) s"
  by (simp add: walk_def walk_loop_noalloc)

lemma store_edit:
  assumes "pt_inv s F pt" "slot (mem s) 2 pt va = Some a" "va < MAXVA"
  shows "pt_edit s (s\<lparr>mem := store64 (mem s) a v\<rparr>) F F pt"
    "va' < MAXVA \<Longrightarrow> pte_at (s\<lparr>mem := store64 (mem s) a v\<rparr>) pt va' = (if pn va' = pn va then v else pte_at s pt va')"
proof -
  have i: "kmem_inv s F" "tree_ok (mem s) 2 pt" "tree (mem s) 2 pt \<inter> F = {}" using assms(1) by (auto simp: pt_inv_def)
  note st = store_slot[OF i(2) assms(2)] and fr = store_slot_frame[OF i(2) assms(2)]
  have "kmem_inv (s\<lparr>mem := store64 (mem s) a v\<rparr>) F"
    by (rule put_page[OF i(1)]) (use fr i(3) in auto)
  with i(3) st fr show "pt_edit s (s\<lparr>mem := store64 (mem s) a v\<rparr>) F F pt" by (auto simp: pt_edit_def pt_inv_def)
  show "va' < MAXVA \<Longrightarrow> pte_at (s\<lparr>mem := store64 (mem s) a v\<rparr>) pt va' = (if pn va' = pn va then v else pte_at s pt va')"
    using st same_path_pn[OF assms(3)] by auto
qed

definition maps_range :: "'z kmem_scheme \<Rightarrow> 'z kmem_scheme \<Rightarrow> u64 \<Rightarrow> nat \<Rightarrow> nat \<Rightarrow> u64 \<Rightarrow> u64 \<Rightarrow> bool" where
  "maps_range s s' pt k n pa perm \<longleftrightarrow> (\<forall>va < MAXVA. pte_at s' pt va =
     (if k \<le> pn va \<and> pn va < k + n then PA2PTE (pa + of_nat ((pn va - k) * 4096)) OR perm OR PTE_V else pte_at s pt va))"

definition unmapped :: "'z kmem_scheme \<Rightarrow> u64 \<Rightarrow> nat \<Rightarrow> nat \<Rightarrow> bool" where
  "unmapped s pt k n \<longleftrightarrow> (\<forall>va < MAXVA. k \<le> pn va \<and> pn va < k + n \<longrightarrow> \<not> pte_valid (pte_at s pt va))"

lemma maps_range_Suc:
  assumes "\<And>va. va < MAXVA \<Longrightarrow> pte_at s1 pt va = (if pn va = k then PA2PTE pa OR perm OR PTE_V else pte_at s pt va)"
    "maps_range s1 s2 pt (Suc k) n (pa + PGSIZE) perm"
  shows "maps_range s s2 pt k (Suc n) pa perm"
  unfolding maps_range_def
proof (intro allI impI)
  fix va :: u64
  assume va: "va < MAXVA"
  let ?pte = "\<lambda>x. PA2PTE (pa + of_nat (x * 4096)) OR perm OR PTE_V"
  have e: "pte_at s2 pt va = (if Suc k \<le> pn va \<and> pn va < Suc k + n
      then PA2PTE (pa + PGSIZE + of_nat ((pn va - Suc k) * 4096)) OR perm OR PTE_V else pte_at s1 pt va)"
    using assms(2) va unfolding maps_range_def by blast
  consider "pn va = k" | "Suc k \<le> pn va" "pn va < Suc k + n" | "pn va < k \<or> k + Suc n \<le> pn va" by linarith
  then show "pte_at s2 pt va = (if k \<le> pn va \<and> pn va < k + Suc n then ?pte (pn va - k) else pte_at s pt va)"
  proof cases
    case 1
    then show ?thesis using e assms(1)[OF va] by simp
  next
    case 2
    then have "pn va - k = Suc (pn va - Suc k)" by simp
    then have "pa + PGSIZE + of_nat ((pn va - Suc k) * 4096) = pa + of_nat ((pn va - k) * 4096)"
      by (simp only: mult_Suc of_nat_add) (simp add: PGSIZE_def add.assoc)
    then show ?thesis using e 2 by (simp only: if_True simp_thms) (simp add: if_P)
  next
    case 3
    then show ?thesis using e assms(1)[OF va] by auto
  qed
qed

lemma map_one:
  assumes "pt_inv s F pt" "a < MAXVA" "\<not> pte_valid (pte_at s pt a)"
  obtains (full) s' F' where "walk pt a True s = Ok 0 s'" "pt_edit s s' F F' pt" "\<And>v. pte_at s' pt v = pte_at s pt v"
  | (stored) x s1 F' where "walk pt a True s = Ok x s1" "x \<noteq> 0" "load64 (mem s1) x AND PTE_V = 0"
      "pt_edit s (s1\<lparr>mem := store64 (mem s1) x w\<rparr>) F F' pt"
      "\<And>va. va < MAXVA \<Longrightarrow> pte_at (s1\<lparr>mem := store64 (mem s1) x w\<rparr>) pt va = (if pn va = pn a then w else pte_at s pt va)"
proof -
  obtain x s1 F1 where x: "walk pt a True s = Ok x s1" "pt_edit s s1 F F1 pt" "\<And>v. pte_at s1 pt v = pte_at s pt v"
      "x = 0 \<or> x \<noteq> 0 \<and> slot (mem s1) 2 pt a = Some x"
    using walk_alloc[OF assms(1,2)] by blast
  show thesis
  proof (cases "x = 0")
    case True
    then show thesis using full x by blast
  next
    case False
    then have sl: "slot (mem s1) 2 pt a = Some x" using x(4) by simp
    then have "load64 (mem s1) x = pte_at s1 pt a" by (simp add: pte_of_def)
    then have inv: "load64 (mem s1) x AND PTE_V = 0" using assms(3) x(3) by (simp add: pte_valid_def)
    have "pt_inv s1 F1 pt" using x(2) by (simp add: pt_edit_def)
    note st = store_edit[OF this sl assms(2)]
    show thesis
      using stored[OF x(1) False inv pt_edit_trans[OF x(2) st(1)]] st(2) x(3) by simp
  qed
qed

lemma maps_range_0: "(\<And>v. pte_at s' pt v = pte_at s pt v) \<Longrightarrow> maps_range s s' pt k 0 pa perm"
  by (auto simp: maps_range_def)

lemma mappages_loop_spec:
  fixes s :: "'z kmem_scheme"
  assumes "pt_inv s F pt" "aligned a" "aligned z" "pn z = pn a + n" "pn z < 0x4000000" "unmapped s pt (pn a) (Suc n)"
  shows "\<exists>r s' F' k. mappages_loop pt a z pa perm s = Ok r s' \<and> pt_edit s s' F F' pt \<and>
    (r = 0 \<and> k = Suc n \<or> r = -1 \<and> k \<le> n) \<and> maps_range s s' pt (pn a) k pa perm"
  using assms
proof (induction n arbitrary: a pa s F)
  case (0 a pa s F)
  have a: "a = z" "a < MAXVA" using 0 aligned_eq_pn aligned_less_pn by auto
  have "\<not> pte_valid (pte_at s pt a)" using 0(6) a by (simp add: unmapped_def)
  from 0(1) a(2) this show ?case
  proof (cases rule: map_one[where w = "PA2PTE pa OR perm OR PTE_V"])
    case (full s' F')
    then show ?thesis
      by (intro exI[of _ "-1"] exI[of _ s'] exI[of _ F'] exI[of _ 0])
        (simp add: mappages_loop.simps[of pt a] maps_range_0)
  next
    case (stored x s1 F')
    let ?s = "s1\<lparr>mem := store64 (mem s1) x (PA2PTE pa OR perm OR PTE_V)\<rparr>"
    have "maps_range ?s ?s pt (Suc (pn a)) 0 (pa + PGSIZE) perm" by (simp add: maps_range_0)
    from maps_range_Suc[OF stored(5) this] have "maps_range s ?s pt (pn a) (Suc 0) pa perm" .
    moreover have "mappages_loop pt a z pa perm s = Ok 0 ?s"
      unfolding mappages_loop.simps[of pt a] using stored(1-3) a(1) by (simp add: Let_def)
    ultimately show ?thesis using stored(4) by blast
  qed
next
  case (Suc n a pa s F)
  have a: "a \<noteq> z" "a < MAXVA" using Suc.prems aligned_eq_pn aligned_less_pn by auto
  have "\<not> pte_valid (pte_at s pt a)" using Suc.prems(6) a by (simp add: unmapped_def)
  from Suc.prems(1) a(2) this show ?case
  proof (cases rule: map_one[where w = "PA2PTE pa OR perm OR PTE_V"])
    case (full s' F')
    then show ?thesis
      by (intro exI[of _ "-1"] exI[of _ s'] exI[of _ F'] exI[of _ 0])
        (simp add: mappages_loop.simps[of pt a] maps_range_0)
  next
    case (stored x s1 F1)
    let ?s = "s1\<lparr>mem := store64 (mem s1) x (PA2PTE pa OR perm OR PTE_V)\<rparr>"
    have n: "aligned (a + PGSIZE)" "pn (a + PGSIZE) = Suc (pn a)"
      using pn_add[OF Suc.prems(2), of 1] Suc.prems(4,5) by (simp_all add: PGSIZE_def)
    have i: "pt_inv ?s F1 pt" using stored(4) by (simp add: pt_edit_def)
    have u: "unmapped ?s pt (pn (a + PGSIZE)) (Suc n)"
      using Suc.prems(6) stored(5) by (simp add: unmapped_def n(2))
    obtain r s' F' k where r: "mappages_loop pt (a + PGSIZE) z (pa + PGSIZE) perm ?s = Ok r s'" "pt_edit ?s s' F1 F' pt"
        "r = 0 \<and> k = Suc n \<or> r = -1 \<and> k \<le> n" "maps_range ?s s' pt (pn (a + PGSIZE)) k (pa + PGSIZE) perm"
      using Suc.IH[OF i n(1) Suc.prems(3) _ Suc.prems(5) u] n(2) Suc.prems(4) by force
    have "mappages_loop pt a z pa perm s = Ok r s'"
      using stored(1-3) a(1) r(1) by (simp add: mappages_loop.simps[of pt a] Let_def)
    moreover have "maps_range s s' pt (pn a) (Suc k) pa perm"
      by (rule maps_range_Suc[OF stored(5)]) (use r(4) n(2) in simp_all)
    ultimately show ?thesis using pt_edit_trans[OF stored(4) r(2)] r(3)
      by (intro exI[of _ r] exI[of _ s'] exI[of _ F'] exI[of _ "Suc k"]) auto
  qed
qed

lemma mappages_spec:
  assumes "pt_inv s F pt" "sz \<noteq> 0" "unat va + unat sz \<le> unat MAXVA" "n = Suc (pn (va + sz - 1) - pn va)"
    "unmapped s pt (pn va) n"
  shows "\<exists>r s' F' k. mappages pt va sz pa perm s = Ok r s' \<and> pt_edit s s' F F' pt \<and>
    (r = 0 \<and> k = n \<or> r = -1 \<and> k < n) \<and> maps_range s s' pt (pn va) k pa perm"
proof -
  have u: "unat va + unat sz \<le> 0x4000000000" using assms(3) by (simp add: MAXVA_def)
  have s1: "1 \<le> unat sz" using assms(2) by (simp add: Suc_le_eq unat_gt_0)
  have "unat (sz - 1) = unat sz - 1" using s1 by (simp add: unat_sub_if')
  then have "unat (va + (sz - 1)) = unat va + (unat sz - 1)" using u s1 by (simp add: unat_plus_if')
  then have e: "unat (va + sz - 1) = unat va + unat sz - 1" using s1 by (simp add: add_diff_eq)
  have le: "pn va \<le> pn (va + sz - 1)" using s1 unfolding pn_def e by (intro div_le_mono) simp
  have "unat (va + sz - 1) < 0x4000000 * 4096" using u s1 e by simp
  then have lt: "pn (va + sz - 1) < 0x4000000" unfolding pn_def by (simp only: div_less_iff_less_mult)
  have un: "unmapped s pt (pn (PGROUNDDOWN va)) (Suc (pn (va + sz - 1) - pn va))" using assms(4,5) by simp
  have pe: "pn (PGROUNDDOWN (va + sz - 1)) = pn (PGROUNDDOWN va) + (pn (va + sz - 1) - pn va)" using le by simp
  show ?thesis
    using mappages_loop_spec[OF assms(1) aligned_PGROUNDDOWN aligned_PGROUNDDOWN pe _ un, of pa perm] lt assms(2,4)
    by (fastforce simp: mappages_def less_Suc_eq_le)
qed

section \<open>User addresses\<close>

lemma slot_same_path: "same_path l va va' \<Longrightarrow> slot m l p va = slot m l p va'"
proof (induction l arbitrary: p)
  case (Suc l)
  then have "index (Suc l) va = index (Suc l) va'" "same_path l va va'" by (auto simp: same_path_def)
  with Suc.IH show ?case by simp
qed (simp add: same_path_def pte_addr_index)

lemma pte_of_pn: "pn va = pn va' \<Longrightarrow> pte_of m l p va = pte_of m l p va'"
  using slot_same_path[of l va va'] by (simp add: same_path_def index_pn pte_of_def)

text \<open>What \<^verbatim>\<open>walkaddr\<close> returns, and the byte a user address stands for.\<close>

definition uaddr :: "memory \<Rightarrow> u64 \<Rightarrow> u64 \<Rightarrow> u64" where
  "uaddr m pt va = (let e = pte_of m 2 pt va in
     if va < MAXVA \<and> pte_valid e \<and> e AND PTE_U \<noteq> 0 then PTE2PA e else 0)"

definition ubyte :: "memory \<Rightarrow> u64 \<Rightarrow> u64 \<Rightarrow> u8" where
  "ubyte m pt va = m (uaddr m pt va + of_nat (unat va mod 4096))"

lemma walkaddr_uaddr:
  assumes "tree_ok (mem s) 2 pt"
  shows "walkaddr pt va s = Ok (uaddr (mem s) pt va) s"
proof (cases "va < MAXVA")
  case True
  then show ?thesis
    using slot_not_0[OF assms, of va]
    by (cases "slot (mem s) 2 pt va") (auto simp: walkaddr_def walk_noalloc uaddr_def pte_of_def pte_valid_def Let_def)
qed (auto simp: walkaddr_def uaddr_def not_less Let_def)

lemma aligned_uaddr [simp]: "aligned (uaddr m pt va)"
  by (simp add: uaddr_def Let_def)

lemma MAXVA_pn: "va < MAXVA \<longleftrightarrow> pn va < 0x4000000"
  by (simp add: pn_def word_less_nat_alt MAXVA_def div_less_iff_less_mult)

lemma uaddr_pn: "pn va = pn va' \<Longrightarrow> uaddr m pt va = uaddr m pt va'"
  using pte_of_pn[of va va' m 2 pt] by (simp add: uaddr_def MAXVA_pn)

lemma of_nat_unat_id: "of_nat (unat x) = (x :: 'a::len word)"
  by simp

lemma offset_word: "va - PGROUNDDOWN va = of_nat (unat va mod 4096)"
proof -
  have "va - PGROUNDDOWN va = take_bit 12 va" by (simp add: PGROUNDDOWN_diff)
  then have "unat (va - PGROUNDDOWN va) = unat va mod 4096" by (simp add: unat_take_bit)
  then show ?thesis by (metis of_nat_unat_id)
qed

lemma unat_page_rest: "unat (PGSIZE - (va - PGROUNDDOWN va)) = 4096 - unat va mod 4096"
proof -
  have "unat va mod 4096 < 4096" by simp
  then show ?thesis unfolding offset_word by (simp add: PGSIZE_def unat_sub_if' unat_of_nat64)
qed

text \<open>Offsets within the page of \<open>va\<close>, and the start of the next page.\<close>

lemma in_same_page:
  assumes "i < 4096 - unat va mod 4096" "unat va + i < 2 ^ 64"
  shows "pn (va + of_nat i) = pn va" "unat (va + of_nat i) mod 4096 = unat va mod 4096 + i"
proof -
  have u: "unat (va + of_nat i) = unat va + i" using assms(2) by (rule unat_add_of_nat)
  define q r where "q = unat va div 4096" and "r = unat va mod 4096"
  have d: "unat va + i = (r + i) + 4096 * q" by (simp add: q_def r_def)
  have "r + i < 4096" using assms(1) by (simp add: r_def)
  then have "(unat va + i) div 4096 = q \<and> (unat va + i) mod 4096 = r + i" unfolding d by simp
  then have "(unat va + i) div 4096 = unat va div 4096 \<and> (unat va + i) mod 4096 = unat va mod 4096 + i"
    by (simp only: q_def r_def)
  then show "pn (va + of_nat i) = pn va" "unat (va + of_nat i) mod 4096 = unat va mod 4096 + i"
    by (simp_all add: pn_def u)
qed

lemma next_page: "PGROUNDDOWN va + PGSIZE = va + of_nat (4096 - unat va mod 4096)"
proof -
  have "va + of_nat (4096 - unat va mod 4096) = PGROUNDDOWN va + (va - PGROUNDDOWN va) + of_nat (4096 - unat va mod 4096)"
    by simp
  also have "\<dots> = PGROUNDDOWN va + of_nat (unat va mod 4096 + (4096 - unat va mod 4096))"
    unfolding offset_word of_nat_add add.assoc ..
  also have "unat va mod 4096 + (4096 - unat va mod 4096) = 4096" by simp
  finally show ?thesis by (simp add: PGSIZE_def)
qed

end
