(* ===== verification/UserMem.thy ===== *)
theory UserMem
  imports PageTable
begin

text \<open>
  Copying between kernel and user memory: \<^verbatim>\<open>copyin\<close>, \<^verbatim>\<open>copyinstr\<close> and \<^verbatim>\<open>copyout\<close> read and write the
  bytes the page table assigns to a range of user addresses, page by page, and stop at the first
  page that is not mapped for the user.
\<close>

section \<open>Reading\<close>

text \<open>The user bytes at \<open>va\<close>, \<open>va + 1\<close>, \<dots>.\<close>

definition ubytes :: "memory \<Rightarrow> u64 \<Rightarrow> u64 \<Rightarrow> nat \<Rightarrow> u8 list" where
  "ubytes m pt va n = map (\<lambda>i. ubyte m pt (va + of_nat i)) [0..<n]"

definition umapped :: "memory \<Rightarrow> u64 \<Rightarrow> u64 \<Rightarrow> bool" where
  "umapped m pt va \<longleftrightarrow> uaddr m pt va \<noteq> 0"

lemma length_ubytes [simp]: "length (ubytes m pt va n) = n"
  by (simp add: ubytes_def)

lemma nth_ubytes [simp]: "i < n \<Longrightarrow> ubytes m pt va n ! i = ubyte m pt (va + of_nat i)"
  by (simp add: ubytes_def)

lemma ubytes_append: "ubytes m pt va (n + k) = ubytes m pt va n @ ubytes m pt (va + of_nat n) k"
  by (rule nth_equalityI) (auto simp: nth_append add.assoc of_nat_add[symmetric] simp del: of_nat_add)

lemma umapped_below: "umapped m pt va \<Longrightarrow> va < MAXVA"
  by (auto simp: umapped_def uaddr_def Let_def split: if_splits)

lemma umapped_room: "umapped m pt va \<Longrightarrow> i < 4096 \<Longrightarrow> unat va + i < 2 ^ 64"
  using umapped_below[of m pt va] by (simp add: word_less_nat_alt MAXVA_def)

lemma in_user_page:
  assumes "umapped m pt va" "i < 4096 - unat va mod 4096"
  shows "umapped m pt (va + of_nat i)" "uaddr m pt (va + of_nat i) = uaddr m pt va"
    "ubyte m pt (va + of_nat i) = m (uaddr m pt va + of_nat (unat va mod 4096 + i))"
proof -
  have r: "unat va + i < 2 ^ 64" using umapped_room[OF assms(1)] assms(2) by simp
  note p = in_same_page[OF assms(2) r]
  from uaddr_pn[OF p(1)] show u: "uaddr m pt (va + of_nat i) = uaddr m pt va" .
  then show "umapped m pt (va + of_nat i)" using assms(1) by (simp add: umapped_def)
  show "ubyte m pt (va + of_nat i) = m (uaddr m pt va + of_nat (unat va mod 4096 + i))"
    by (simp only: ubyte_def u p(2))
qed

lemma load_user_page:
  assumes "umapped m pt va" "n \<le> 4096 - unat va mod 4096"
  shows "load_bytes m (uaddr m pt va + (va - PGROUNDDOWN va)) n = ubytes m pt va n"
  by (rule nth_equalityI)
    (use assms in_user_page(3)[OF assms(1)] in \<open>simp_all add: load_bytes_def offset_word add.assoc\<close>)

lemma beyond_min:
  fixes a k :: nat
  assumes "k \<le> len - min a len" "i < min a len + k" "\<not> i < min a len"
  shows "min a len = a" "i = min a len + (i - min a len)" "i - min a len < k"
  using assms by (auto simp: min_def split: if_splits)

lemma below_min:
  fixes a k :: nat
  assumes "min a len + k < len"
  shows "min a len = a" "k < len - min a len"
  using assms by (auto simp: min_def split: if_splits)

lemma mapped_step:
  assumes "umapped m pt va" "k \<le> len - min (4096 - unat va mod 4096) len"
    "\<And>i. i < k \<Longrightarrow> umapped m pt (PGROUNDDOWN va + PGSIZE + of_nat i)"
    "k < len - min (4096 - unat va mod 4096) len \<Longrightarrow> \<not> umapped m pt (PGROUNDDOWN va + PGSIZE + of_nat k)"
  shows "i < min (4096 - unat va mod 4096) len + k \<Longrightarrow> umapped m pt (va + of_nat i)"
    "min (4096 - unat va mod 4096) len + k < len \<Longrightarrow> \<not> umapped m pt (va + of_nat (min (4096 - unat va mod 4096) len + k))"
proof -
  let ?n = "min (4096 - unat va mod 4096) len"
  show "umapped m pt (va + of_nat i)" if "i < ?n + k"
  proof (cases "i < ?n")
    case True
    then show ?thesis by (intro in_user_page(1)[OF assms(1)]) simp
  next
    case False
    note n = beyond_min[OF assms(2) that False]
    have "va + of_nat i = PGROUNDDOWN va + PGSIZE + of_nat (i - ?n)"
      by (subst n(2)) (simp only: next_page n(1) of_nat_add add.assoc)
    with assms(3)[OF n(3)] show ?thesis by simp
  qed
  show "\<not> umapped m pt (va + of_nat (?n + k))" if "?n + k < len"
  proof -
    note n = below_min[OF that]
    have e: "va + of_nat (?n + k) = PGROUNDDOWN va + PGSIZE + of_nat k"
      by (simp only: next_page n(1) of_nat_add add.assoc)
    show ?thesis unfolding e by (rule assms(4)[OF n(2)])
  qed
qed

lemma copyin_spec:
  assumes "tree_ok (mem s) 2 pt"
  shows "\<exists>k \<le> len. copyin pt va len s = Ok (if k = len then 0 else -1, ubytes (mem s) pt va k) s \<and>
    (\<forall>i < k. umapped (mem s) pt (va + of_nat i)) \<and> (k < len \<longrightarrow> \<not> umapped (mem s) pt (va + of_nat k))"
  using assms
proof (induction pt va len s rule: copyin.induct)
  case (1 pt va len s)
  let ?n = "min (4096 - unat va mod 4096) len"
  have u: "uaddr (mem s) pt (PGROUNDDOWN va) = uaddr (mem s) pt va" by (rule uaddr_pn) simp
  note w = walkaddr_uaddr[OF "1.prems", of "PGROUNDDOWN va", unfolded u]
  then have wr: "returns (walkaddr pt (PGROUNDDOWN va) s) (uaddr (mem s) pt va) s" by simp
  show ?case
  proof (cases "len = 0 \<or> \<not> umapped (mem s) pt va")
    case True
    then show ?thesis
      by (intro exI[of _ 0]) (auto simp: copyin.simps[of pt va] w umapped_def ubytes_def Let_def)
  next
    case False
    then have l: "len \<noteq> 0" and m: "umapped (mem s) pt va" by auto
    have "\<exists>k \<le> len - ?n. copyin pt (PGROUNDDOWN va + PGSIZE) (len - ?n) s =
        Ok (if k = len - ?n then 0 else -1, ubytes (mem s) pt (PGROUNDDOWN va + PGSIZE) k) s \<and>
        (\<forall>i < k. umapped (mem s) pt (PGROUNDDOWN va + PGSIZE + of_nat i)) \<and>
        (k < len - ?n \<longrightarrow> \<not> umapped (mem s) pt (PGROUNDDOWN va + PGSIZE + of_nat k))"
      using "1.IH"[OF l refl wr _ _ refl] m "1.prems" by (simp add: umapped_def unat_page_rest)
    then obtain k where k: "k \<le> len - ?n" "copyin pt (PGROUNDDOWN va + PGSIZE) (len - ?n) s =
        Ok (if k = len - ?n then 0 else -1, ubytes (mem s) pt (PGROUNDDOWN va + PGSIZE) k) s"
        "\<And>i. i < k \<Longrightarrow> umapped (mem s) pt (PGROUNDDOWN va + PGSIZE + of_nat i)"
        "k < len - ?n \<Longrightarrow> \<not> umapped (mem s) pt (PGROUNDDOWN va + PGSIZE + of_nat k)"
      by blast
    have ubs: "ubytes (mem s) pt va ?n @ ubytes (mem s) pt (PGROUNDDOWN va + PGSIZE) k = ubytes (mem s) pt va (?n + k)"
    proof (cases "?n = len")
      case True
      then show ?thesis using k(1) by (simp add: ubytes_def)
    next
      case False
      then have "4096 - unat va mod 4096 = ?n" by (simp add: min_def split: if_splits)
      then show ?thesis unfolding next_page ubytes_append by simp
    qed
    have c: "copyin pt va len s = Ok (if ?n + k = len then 0 else -1, ubytes (mem s) pt va (?n + k)) s"
    proof -
      have "copyin pt va len s = bind (copyin pt (PGROUNDDOWN va + PGSIZE) (len - ?n) s)
          (\<lambda>(r, rest) s'. Ok (r, ubytes (mem s) pt va ?n @ rest) s')"
        unfolding copyin.simps[of pt va] using l m load_user_page[OF m, of ?n]
        by (simp add: w umapped_def unat_page_rest Let_def)
      moreover have "k = len - ?n \<longleftrightarrow> ?n + k = len" using k(1) by linarith
      ultimately show ?thesis unfolding k(2) by (simp only: bind.simps prod.case ubs)
    qed
    moreover have "(\<forall>i < ?n + k. umapped (mem s) pt (va + of_nat i)) \<and>
        (?n + k < len \<longrightarrow> \<not> umapped (mem s) pt (va + of_nat (?n + k)))"
      using mapped_step[OF m k(1,3,4)] by blast
    moreover have "?n + k \<le> len" using k(1) by simp
    ultimately show ?thesis using c by blast
  qed
qed

section \<open>Writing\<close>

text \<open>
  User pages are pages of their own: none is part of the page table, and different virtual pages
  have different physical pages.
\<close>

definition user_ok :: "memory \<Rightarrow> u64 \<Rightarrow> bool" where
  "user_ok m pt \<longleftrightarrow> (\<forall>va. umapped m pt va \<longrightarrow> uaddr m pt va \<notin> tree m 2 pt) \<and>
     (\<forall>va va'. umapped m pt va \<longrightarrow> umapped m pt va' \<longrightarrow> uaddr m pt va = uaddr m pt va' \<longrightarrow> pn va = pn va')"

text \<open>From \<open>m\<close> to \<open>m'\<close> exactly the user bytes from \<open>va\<close> on have become \<open>bs\<close>.\<close>

definition uwrites :: "memory \<Rightarrow> memory \<Rightarrow> u64 \<Rightarrow> u64 \<Rightarrow> u8 list \<Rightarrow> bool" where
  "uwrites m m' pt va bs \<longleftrightarrow> tree m' 2 pt = tree m 2 pt \<and> tree_ok m' 2 pt \<and> user_ok m' pt \<and>
     (\<forall>v. uaddr m' pt v = uaddr m pt v) \<and>
     (\<forall>v. umapped m pt v \<longrightarrow> ubyte m' pt v =
        (if unat va \<le> unat v \<and> unat v < unat va + length bs then bs ! (unat v - unat va) else ubyte m pt v)) \<and>
     (\<forall>q. (\<forall>v. umapped m pt v \<longrightarrow> uaddr m pt v \<noteq> q) \<longrightarrow> same_page m m' q)"

lemma uwrites_Nil: "tree_ok m 2 pt \<Longrightarrow> user_ok m pt \<Longrightarrow> uwrites m m pt va []"
  by (auto simp: uwrites_def)

lemma uwrites_Nil_any: "uwrites m m' pt va [] \<Longrightarrow> uwrites m m' pt va' []"
  by (auto simp: uwrites_def)

lemma uwrites_append:
  assumes "uwrites m m1 pt va bs" "uwrites m1 m2 pt (va + of_nat (length bs)) bs'" "unat va + length bs < 2 ^ 64"
  shows "uwrites m m2 pt va (bs @ bs')"
proof -
  have u: "unat (va + of_nat (length bs)) = unat va + length bs" using assms(3) by (rule unat_add_of_nat)
  have a: "uaddr m1 pt v = uaddr m pt v" "uaddr m2 pt v = uaddr m pt v" for v using assms(1,2) by (auto simp: uwrites_def)
  have mp: "umapped m1 pt v = umapped m pt v" for v by (simp add: umapped_def a)
  have "ubyte m2 pt v = (if unat va \<le> unat v \<and> unat v < unat va + length (bs @ bs') then (bs @ bs') ! (unat v - unat va)
      else ubyte m pt v)" if v: "umapped m pt v" for v
  proof -
    have "ubyte m2 pt v = (if unat va + length bs \<le> unat v \<and> unat v < unat va + length bs + length bs'
        then bs' ! (unat v - (unat va + length bs)) else ubyte m1 pt v)"
      using assms(2) v mp u unfolding uwrites_def by auto
    moreover have "ubyte m1 pt v = (if unat va \<le> unat v \<and> unat v < unat va + length bs then bs ! (unat v - unat va)
        else ubyte m pt v)"
      using assms(1) v unfolding uwrites_def by auto
    ultimately show ?thesis by (auto simp: nth_append)
  qed
  moreover have "same_page m m2 q" if "\<forall>v. umapped m pt v \<longrightarrow> uaddr m pt v \<noteq> q" for q
  proof (rule same_page_trans)
    show "same_page m m1 q" using assms(1) that by (simp add: uwrites_def)
    show "same_page m1 m2 q" using assms(2) that by (simp add: uwrites_def a mp)
  qed
  ultimately show ?thesis using assms(1,2) a(2) by (simp add: uwrites_def)
qed

lemma store_in_page:
  assumes "aligned p" "off + length bs \<le> 4096"
  shows "q \<noteq> p \<Longrightarrow> same_page m (store_bytes m (p + of_nat off) bs) q"
    "i < 4096 \<Longrightarrow> store_bytes m (p + of_nat off) bs (p + of_nat i) =
       (if off \<le> i \<and> i < off + length bs then bs ! (i - off) else m (p + of_nat i))"
proof -
  have d: "unat (p + of_nat i - (p + of_nat off)) = (if off \<le> i then i - off else i + 2 ^ 64 - off)" if "i < 4096" for i
  proof -
    have oi: "unat (of_nat i :: u64) = i" "unat (of_nat off :: u64) = off"
      using that assms(2) by (simp_all add: unat_of_nat64)
    have "p + of_nat i - (p + of_nat off) = of_nat i - of_nat off" by simp
    moreover have "unat (of_nat i - of_nat off :: u64) = (if off \<le> i then i - off else i + 2 ^ 64 - off)"
      unfolding unat_sub_if' oi by simp
    ultimately show ?thesis by metis
  qed
  show "i < 4096 \<Longrightarrow> store_bytes m (p + of_nat off) bs (p + of_nat i) =
       (if off \<le> i \<and> i < off + length bs then bs ! (i - off) else m (p + of_nat i))"
    using assms(2) d by (auto simp: store_bytes_def)
  show "same_page m (store_bytes m (p + of_nat off) bs) q" if "q \<noteq> p"
    unfolding same_page_def
  proof (intro allI impI)
    fix x assume x: "PGROUNDDOWN x = q"
    show "store_bytes m (p + of_nat off) bs x = m x"
    proof (rule store_bytes_other, rule notI)
      assume l: "unat (x - (p + of_nat off)) < length bs"
      have "x = p + of_nat (off + unat (x - (p + of_nat off)))" by simp
      moreover have "off + unat (x - (p + of_nat off)) < 4096" using l assms(2) by simp
      ultimately have "PGROUNDDOWN x = p" using page_offset[OF assms(1)] by metis
      with x that show False by simp
    qed
  qed
qed

lemma uaddr_frame:
  assumes "tree_ok m 2 pt" "\<And>q. q \<in> tree m 2 pt \<Longrightarrow> same_page m m' q"
  shows "uaddr m' pt v = uaddr m pt v" "tree m' 2 pt = tree m 2 pt" "tree_ok m' 2 pt"
    "user_ok m' pt = user_ok m pt" "umapped m' pt v = umapped m pt v"
proof -
  note f = tree_frame[OF assms]
  show u: "uaddr m' pt v = uaddr m pt v" for v by (simp add: uaddr_def f(4))
  then show "umapped m' pt v = umapped m pt v" "user_ok m' pt = user_ok m pt"
    by (simp_all add: user_ok_def umapped_def f(1))
  show "tree m' 2 pt = tree m 2 pt" "tree_ok m' 2 pt" by (simp_all only: f(1,2))
qed

lemma store_user_page:
  assumes "tree_ok m 2 pt" "user_ok m pt" "umapped m pt va" "length bs \<le> 4096 - unat va mod 4096"
  shows "uwrites m (store_bytes m (uaddr m pt va + (va - PGROUNDDOWN va)) bs) pt va bs"
proof -
  let ?p = "uaddr m pt va" and ?off = "unat va mod 4096"
  let ?m = "store_bytes m (?p + of_nat ?off) bs"
  have off: "?off + length bs \<le> 4096" using assms(4) by (simp add: le_diff_conv2)
  note st = store_in_page[OF aligned_uaddr off]
  have np: "?p \<notin> tree m 2 pt" using assms(2,3) by (simp add: user_ok_def)
  have fr: "same_page m ?m q" if "q \<in> tree m 2 pt" for q using that np by (intro st(1)) auto
  note f = uaddr_frame[OF assms(1) fr]
  have "ubyte ?m pt v = (if unat va \<le> unat v \<and> unat v < unat va + length bs then bs ! (unat v - unat va) else ubyte m pt v)"
    if v: "umapped m pt v" for v
  proof (cases "pn v = pn va")
    case True
    have up: "uaddr m pt v = ?p" using uaddr_pn[OF True] .
    have "unat v = 4096 * pn v + unat v mod 4096" "unat va = 4096 * pn va + ?off" by (simp_all add: pn_def)
    then have c: "unat va \<le> unat v \<longleftrightarrow> ?off \<le> unat v mod 4096"
        "unat v < unat va + length bs \<longleftrightarrow> unat v mod 4096 < ?off + length bs"
        "unat v - unat va = unat v mod 4096 - ?off"
      using True by linarith+
    have "ubyte ?m pt v = ?m (?p + of_nat (unat v mod 4096))" by (simp only: ubyte_def f(1) up)
    also have "\<dots> = (if ?off \<le> unat v mod 4096 \<and> unat v mod 4096 < ?off + length bs
        then bs ! (unat v mod 4096 - ?off) else m (?p + of_nat (unat v mod 4096)))"
      by (rule st(2)) simp
    finally show ?thesis unfolding c by (simp only: ubyte_def up)
  next
    case False
    then have "uaddr m pt v \<noteq> ?p" using assms(2,3) v unfolding user_ok_def by blast
    then have "same_page m ?m (uaddr m pt v)" by (rule st(1))
    then have "ubyte ?m pt v = ubyte m pt v" by (simp add: ubyte_def f(1) same_page_def page_offset)
    moreover have "\<not> (unat va \<le> unat v \<and> unat v < unat va + length bs)"
    proof
      assume a: "unat va \<le> unat v \<and> unat v < unat va + length bs"
      define i where "i = unat v - unat va"
      have i: "i < 4096 - ?off" "unat va + i < 2 ^ 64" "v = va + of_nat i"
        using a assms(4) unsigned_less[of v] by (auto simp: i_def of_nat_diff)
      from in_same_page(1)[OF i(1,2)] i(3) False show False by simp
    qed
    ultimately show ?thesis by (simp only: if_False)
  qed
  moreover have "same_page m ?m q" if "\<forall>v. umapped m pt v \<longrightarrow> uaddr m pt v \<noteq> q" for q
    using that assms(3) by (intro st(1)) auto
  ultimately show ?thesis using f assms(1,2) unfolding offset_word uwrites_def by auto
qed

lemma copyout_spec:
  fixes s :: "'z kmem_scheme"
  assumes "tree_ok (mem s) 2 pt" "user_ok (mem s) pt"
  shows "\<exists>k \<le> length src. \<exists>m'. copyout pt va src s = Ok (if k = length src then 0 else -1) (s\<lparr>mem := m'\<rparr>) \<and>
    uwrites (mem s) m' pt va (take k src) \<and>
    (\<forall>i < k. umapped (mem s) pt (va + of_nat i)) \<and> (k < length src \<longrightarrow> \<not> umapped (mem s) pt (va + of_nat k))"
  using assms
proof (induction pt va src s rule: copyout.induct)
  case (1 pt va src s)
  let ?n = "min (4096 - unat va mod 4096) (length src)"
  have u: "uaddr (mem s) pt (PGROUNDDOWN va) = uaddr (mem s) pt va" by (rule uaddr_pn) simp
  note w = walkaddr_uaddr[OF "1.prems"(1), of "PGROUNDDOWN va", unfolded u]
  then have wr: "returns (walkaddr pt (PGROUNDDOWN va) s) (uaddr (mem s) pt va) s" by simp
  show ?case
  proof (cases "src = [] \<or> \<not> umapped (mem s) pt va")
    case True
    then have "copyout pt va src s = Ok (if src = [] then 0 else -1) s"
      by (auto simp: copyout.simps[of pt va] w umapped_def Let_def)
    with True uwrites_Nil[OF "1.prems", of va] show ?thesis
      by (intro exI[of _ 0]) (auto intro!: exI[of _ "mem s"])
  next
    case False
    then have l: "src \<noteq> []" and m: "umapped (mem s) pt va" by auto
    let ?m1 = "store_bytes (mem s) (uaddr (mem s) pt va + (va - PGROUNDDOWN va)) (take ?n src)"
    have w1: "uwrites (mem s) ?m1 pt va (take ?n src)" by (rule store_user_page[OF "1.prems" m]) simp
    then have t1: "tree_ok ?m1 2 pt" "user_ok ?m1 pt" "\<And>v. umapped ?m1 pt v = umapped (mem s) pt v"
      by (auto simp: uwrites_def umapped_def)
    have IH: "\<exists>k \<le> length (drop ?n src). \<exists>m'. copyout pt (PGROUNDDOWN va + PGSIZE) (drop ?n src) (s\<lparr>mem := ?m1\<rparr>) =
        Ok (if k = length (drop ?n src) then 0 else -1) (s\<lparr>mem := m'\<rparr>) \<and>
        uwrites ?m1 m' pt (PGROUNDDOWN va + PGSIZE) (take k (drop ?n src)) \<and>
        (\<forall>i < k. umapped ?m1 pt (PGROUNDDOWN va + PGSIZE + of_nat i)) \<and>
        (k < length (drop ?n src) \<longrightarrow> \<not> umapped ?m1 pt (PGROUNDDOWN va + PGSIZE + of_nat k))"
      using "1.IH"[OF l refl wr _ refl] m t1(1,2) by (simp add: umapped_def unat_page_rest)
    let ?l = "length src - ?n"
    from IH obtain k m' where k: "k \<le> ?l" "copyout pt (PGROUNDDOWN va + PGSIZE) (drop ?n src) (s\<lparr>mem := ?m1\<rparr>) =
        Ok (if k = ?l then 0 else -1) (s\<lparr>mem := m'\<rparr>)"
        "\<And>i. i < k \<Longrightarrow> umapped (mem s) pt (PGROUNDDOWN va + PGSIZE + of_nat i)"
        "k < ?l \<Longrightarrow> \<not> umapped (mem s) pt (PGROUNDDOWN va + PGSIZE + of_nat k)"
        "uwrites ?m1 m' pt (PGROUNDDOWN va + PGSIZE) (take k (drop ?n src))"
      unfolding t1(3) length_drop by blast
    have "copyout pt va src s = copyout pt (PGROUNDDOWN va + PGSIZE) (drop ?n src) (s\<lparr>mem := ?m1\<rparr>)"
      unfolding copyout.simps[of pt va src] using l m by (simp add: w umapped_def unat_page_rest Let_def)
    moreover have "k = ?l \<longleftrightarrow> ?n + k = length src" using k(1) by linarith
    ultimately have c: "copyout pt va src s = Ok (if ?n + k = length src then 0 else -1) (s\<lparr>mem := m'\<rparr>)"
      using k(2) by simp
    have room: "unat va + length (take ?n src) < 2 ^ 64"
      using umapped_below[OF m] by (simp add: word_less_nat_alt MAXVA_def)
    have "uwrites (mem s) m' pt va (take (?n + k) src)"
    proof (cases "?n = length src")
      case True
      with k(1,5) have "uwrites ?m1 m' pt (PGROUNDDOWN va + PGSIZE) []" by simp
      then have "uwrites ?m1 m' pt (va + of_nat (length (take ?n src))) []" by (rule uwrites_Nil_any)
      from uwrites_append[OF w1 this room] True k(1) show ?thesis by simp
    next
      case False
      then have n: "4096 - unat va mod 4096 = length (take ?n src)" by (simp add: min_def split: if_splits)
      have "PGROUNDDOWN va + PGSIZE = va + of_nat (length (take ?n src))"
        by (rule trans[OF next_page arg_cong[where f = "\<lambda>x. va + of_nat x", OF n]])
      from uwrites_append[OF w1 k(5)[unfolded this] room] show ?thesis by (simp add: take_add)
    qed
    moreover have "(\<forall>i < ?n + k. umapped (mem s) pt (va + of_nat i)) \<and>
        (?n + k < length src \<longrightarrow> \<not> umapped (mem s) pt (va + of_nat (?n + k)))"
      using mapped_step[OF m k(1,3,4)] by blast
    moreover have "?n + k \<le> length src" using k(1) by simp
    ultimately show ?thesis using c by blast
  qed
qed

section \<open>An address space with one page\<close>

text \<open>A table of three pages that maps user page 0 to the physical page \<open>0x87ffb000\<close>.\<close>

definition demo_pte :: u64 where
  "demo_pte = PA2PTE 0x87ffb000 OR (PTE_R OR PTE_W OR PTE_U OR PTE_V)"

definition demo_mem :: memory where
  "demo_mem = store64 (store64 (store64 (\<lambda>_. 0) 0x87ffe000 (PA2PTE 0x87ffd000 OR PTE_V))
     0x87ffd000 (PA2PTE 0x87ffc000 OR PTE_V)) 0x87ffc000 demo_pte"

lemma index_0 [simp]: "index k 0 = 0"
  by (simp add: index_pn pn_def)

lemma demo_pte_bits: "pte_valid demo_pte" "demo_pte AND PTE_U \<noteq> 0" "PTE2PA demo_pte = 0x87ffb000"
  by (simp_all add: demo_pte_def pte_valid_def PA2PTE_def PTE2PA_def pte_bits)

text \<open>Two empty pages, linked.\<close>

lemma link_pages:
  assumes "aligned r" "r \<noteq> 0" "aligned q" "q \<noteq> 0" "q \<noteq> r" "q \<in> F" "r \<notin> F"
    "\<And>x. PGROUNDDOWN x = r \<Longrightarrow> m x = 0" "\<And>x. PGROUNDDOWN x = q \<Longrightarrow> m x = 0"
  shows "grows m (store64 m r (PA2PTE q OR PTE_V)) (Suc l) r F (F - {q})" "entry (store64 m r (PA2PTE q OR PTE_V)) r 0 = PA2PTE q OR PTE_V"
    "child (store64 m r (PA2PTE q OR PTE_V)) r 0 = q"
proof -
  have z: "entry m r 0 = 0" "tree m (Suc l) r = {r}" "tree_ok m (Suc l) r"
    by (rule zero_page[of r m]; use assms(1,2,8) in simp)+
  have v: "\<not> pte_valid (entry m r 0)" unfolding z(1) by simp
  have d: "tree m (Suc l) r \<inter> F = {}" unfolding z(2) using assms(7) by simp
  note g = grows_attach[where ?m1.0 = m and i = 0, OF z(3) _ v assms(3,4,6) d]
  show "grows m (store64 m r (PA2PTE q OR PTE_V)) (Suc l) r F (F - {q})"
    "entry (store64 m r (PA2PTE q OR PTE_V)) r 0 = PA2PTE q OR PTE_V" "child (store64 m r (PA2PTE q OR PTE_V)) r 0 = q"
    by (rule g; use assms(9) in simp)+
qed

lemma demo_mem_ok:
  "tree_ok demo_mem 2 0x87ffe000" "tree demo_mem 2 0x87ffe000 = {0x87ffe000, 0x87ffd000, 0x87ffc000}"
  "va < MAXVA \<Longrightarrow> pte_of demo_mem 2 0x87ffe000 va = (if pn va = 0 then demo_pte else 0)"
proof -
  define r a b :: u64 where "r = 0x87ffe000" and "a = 0x87ffd000" and "b = 0x87ffc000"
  have al: "aligned r" "aligned a" "aligned b" "r \<noteq> 0" "a \<noteq> 0" "b \<noteq> 0" "a \<noteq> r" "b \<noteq> a" "b \<noteq> r"
    by (simp_all add: aligned_def PGSIZE_def r_def a_def b_def)
  let ?m1 = "store64 (\<lambda>_. 0) r (PA2PTE a OR PTE_V)"
  let ?m2 = "store64 ?m1 a (PA2PTE b OR PTE_V)"
  have g1: "grows (\<lambda>_. 0) ?m1 (Suc 1) r {a, b} ({a, b} - {a})" "entry ?m1 r 0 = PA2PTE a OR PTE_V" "child ?m1 r 0 = a"
    using link_pages[of r a "{a, b}" "\<lambda>_. 0"] al by simp_all
  have f1: "same_page (\<lambda>_. 0) ?m1 q" if "q \<noteq> r" for q using store64_same_page[OF al(1) that] .
  have z1: "?m1 x = 0" if "PGROUNDDOWN x = a \<or> PGROUNDDOWN x = b" for x
    using f1[of "PGROUNDDOWN x"] that al by (auto simp: same_page_def)
  have g2: "grows ?m1 ?m2 (Suc 0) a {b} ({b} - {b})" "entry ?m2 a 0 = PA2PTE b OR PTE_V" "child ?m2 a 0 = b"
    using link_pages[of a b "{b}" ?m1] al z1 by simp_all
  have v1: "pte_valid (entry ?m1 r 0)" unfolding g1(2) by (rule pte_table_entry)
  have z0: "tree (\<lambda>_. 0) l r = {r}" "pte_of (\<lambda>_. 0) l r va = 0" for l va
    by (rule zero_page[OF al(1,4)], rule refl)+
  have "tree ?m1 (Suc 1) r = tree (\<lambda>_. 0) (Suc 1) r \<union> ({a, b} - ({a, b} - {a}))" using g1(1) unfolding grows_def by blast
  moreover have "{a, b} - ({a, b} - {a}) = {a}" using al(8) by auto
  ultimately have t1: "tree_ok ?m1 (Suc 1) r" "tree ?m1 (Suc 1) r = {r, a}"
    using g1(1) unfolding grows_def z0(1) by auto
  have d1: "tree ?m1 (Suc 1) r \<inter> {b} = {}" using t1(2) al by auto
  have g3: "grows ?m1 ?m2 (Suc 1) r {b} ({b} - {b})" "entry ?m2 r 0 = entry ?m1 r 0"
    using grows_child[OF t1(1) _ v1 d1, of ?m2 "{b} - {b}"] g2(1) g1(3) by simp_all
  have two: "Suc 1 = 2" by simp
  have t2: "tree_ok ?m2 2 r" "tree ?m2 2 r = {r, a, b}" "\<And>va. pte_of ?m2 2 r va = 0"
    using g3(1)[unfolded grows_def t1(2)] g1(1)[unfolded grows_def z0(2)] unfolding two by auto
  have "slot ?m2 2 r 0 = Some b"
    using v1 g3(2) g2(2,3) g1(3) pte_table_entry(2)[of b]
    by (simp add: numeral_2_eq_2 pte_addr_index)
  note st = store_slot[OF t2(1) this, of demo_pte]
  have "demo_mem = store64 ?m2 b demo_pte" by (simp add: demo_mem_def r_def a_def b_def)
  with st t2 have "tree_ok demo_mem 2 r" "tree demo_mem 2 r = {r, a, b}"
    "\<And>va. pte_of demo_mem 2 r va = (if same_path 2 0 va then demo_pte else 0)" by auto
  then show "tree_ok demo_mem 2 0x87ffe000" "tree demo_mem 2 0x87ffe000 = {0x87ffe000, 0x87ffd000, 0x87ffc000}"
    "va < MAXVA \<Longrightarrow> pte_of demo_mem 2 0x87ffe000 va = (if pn va = 0 then demo_pte else 0)"
    using same_path_pn[of 0 va] by (auto simp: r_def a_def b_def pn_def MAXVA_def)
qed

lemma demo_uaddr: "uaddr demo_mem 0x87ffe000 va = (if pn va = 0 then 0x87ffb000 else 0)"
  using demo_mem_ok(3)[of va] demo_pte_bits by (auto simp: uaddr_def MAXVA_pn Let_def)

lemma demo_user_ok: "user_ok demo_mem 0x87ffe000"
  by (auto simp: user_ok_def umapped_def demo_uaddr demo_mem_ok(2))

section \<open>Properties\<close>

lemma mapped_no_wrap:
  assumes "\<And>j. j < k \<Longrightarrow> umapped m pt (va + of_nat j)" "i < k"
  shows "unat (va + of_nat i) = unat va + i"
  using assms(2)
proof (induction i)
  case (Suc i)
  have "va + of_nat i < MAXVA" using assms(1)[of i] Suc.prems by (simp add: umapped_below)
  then have "unat (va + of_nat i) < 0x4000000000" by (simp add: word_less_nat_alt MAXVA_def)
  then have "unat (va + of_nat i + 1) = unat (va + of_nat i) + 1" by (simp add: unat_plus_if')
  moreover have "va + of_nat (Suc i) = va + of_nat i + 1" by simp
  ultimately show ?case using Suc by (simp only: Suc_lessD)
qed simp

text \<open>
  C9: \<^verbatim>\<open>copyout\<close> returns 0 exactly when every byte of the destination range lies in a page mapped
  for the user, and otherwise \<open>-1\<close> after having written the bytes before the first page that is
  not. It writes nothing else: the translation of every user address, every other user byte, and
  every page that is not a user page of this address space keep their values.
\<close>

theorem copyout_writes_user_range:
  assumes "tree_ok (mem s) 2 pt" "user_ok (mem s) pt"
  shows "\<exists>k \<le> length src. \<exists>m'. copyout pt va src s = Ok (if k = length src then 0 else -1) (s\<lparr>mem := m'\<rparr>) \<and>
    (\<forall>i < k. umapped (mem s) pt (va + of_nat i)) \<and> (k < length src \<longrightarrow> \<not> umapped (mem s) pt (va + of_nat k)) \<and>
    (\<forall>v. uaddr m' pt v = uaddr (mem s) pt v) \<and>
    (\<forall>v. umapped (mem s) pt v \<longrightarrow> ubyte m' pt v =
       (if unat va \<le> unat v \<and> unat v < unat va + k then src ! (unat v - unat va) else ubyte (mem s) pt v)) \<and>
    (\<forall>q. (\<forall>v. umapped (mem s) pt v \<longrightarrow> uaddr (mem s) pt v \<noteq> q) \<longrightarrow> same_page (mem s) m' q)"
proof -
  obtain k m' where k: "k \<le> length src" "copyout pt va src s = Ok (if k = length src then 0 else -1) (s\<lparr>mem := m'\<rparr>)"
      "uwrites (mem s) m' pt va (take k src)" "\<forall>i < k. umapped (mem s) pt (va + of_nat i)"
      "k < length src \<longrightarrow> \<not> umapped (mem s) pt (va + of_nat k)"
    using copyout_spec[OF assms, of src va] by blast
  have "ubyte m' pt v = (if unat va \<le> unat v \<and> unat v < unat va + k then src ! (unat v - unat va) else ubyte (mem s) pt v)"
    if "umapped (mem s) pt v" for v
    using k(1,3) that unfolding uwrites_def by (auto simp: min_def)
  with k show ?thesis unfolding uwrites_def by blast
qed

theorem copyout_writes_user_range_witness:
  "\<exists>m'. copyout 0x87ffe000 16 [1, 2, 3] (boot_kmem\<lparr>mem := demo_mem\<rparr>) = Ok 0 (boot_kmem\<lparr>mem := m'\<rparr>) \<and>
    ubyte m' 0x87ffe000 17 = 2"
proof -
  let ?s = "boot_kmem\<lparr>mem := demo_mem\<rparr>"
  have t: "tree_ok (mem ?s) 2 0x87ffe000" "user_ok (mem ?s) 0x87ffe000" by (simp_all add: demo_mem_ok demo_user_ok)
  have u: "umapped demo_mem 0x87ffe000 16" "umapped demo_mem 0x87ffe000 17" "umapped demo_mem 0x87ffe000 18"
    by (simp_all add: umapped_def demo_uaddr pn_def)
  let ?src = "[1, 2, 3] :: u8 list"
  obtain k m' where k: "k \<le> length ?src" "copyout 0x87ffe000 16 ?src ?s = Ok (if k = length ?src then 0 else -1) (?s\<lparr>mem := m'\<rparr>)"
    "k < length ?src \<longrightarrow> \<not> umapped (mem ?s) 0x87ffe000 (16 + of_nat k)"
    "\<forall>v. umapped (mem ?s) 0x87ffe000 v \<longrightarrow> ubyte m' 0x87ffe000 v =
       (if unat (16::u64) \<le> unat v \<and> unat v < unat (16::u64) + k then ?src ! (unat v - unat (16::u64))
        else ubyte (mem ?s) 0x87ffe000 v)"
    using copyout_writes_user_range[OF t, of ?src 16] by blast
  have "k = 0 \<or> k = 1 \<or> k = 2 \<or> k = 3" using k(1) by auto
  with k(3) u have "k = 3" by auto
  with k(2,4) u(2) show ?thesis by auto
qed

text \<open>
  C10: bytes copied out to user memory are read back by \<^verbatim>\<open>copyin\<close> as they were written.
\<close>

theorem copyout_copyin_roundtrip:
  assumes "tree_ok (mem s) 2 pt" "user_ok (mem s) pt" "copyout pt va src s = Ok 0 s'"
  shows "copyin pt va (length src) s' = Ok (0, src) s'"
proof -
  obtain m' where k: "s' = s\<lparr>mem := m'\<rparr>" "uwrites (mem s) m' pt va src" "\<And>i. i < length src \<Longrightarrow> umapped (mem s) pt (va + of_nat i)"
    using copyout_spec[OF assms(1,2), of src va] assms(3) by (auto split: if_splits)
  then have t: "tree_ok (mem s') 2 pt" and u: "umapped (mem s') pt v = umapped (mem s) pt v" for v
    by (auto simp: uwrites_def umapped_def)
  have "ubytes (mem s') pt va (length src) = src"
  proof (rule nth_equalityI)
    fix i assume "i < length (ubytes (mem s') pt va (length src))"
    then have i: "i < length src" by simp
    have "unat (va + of_nat i) = unat va + i" by (rule mapped_no_wrap[OF k(3) i])
    with k(1,2,3) i show "ubytes (mem s') pt va (length src) ! i = src ! i" by (simp add: uwrites_def)
  qed simp
  with copyin_spec[OF t, of "length src" va] k(3) u show ?thesis by (auto simp: le_less)
qed

theorem copyout_copyin_roundtrip_witness:
  "\<exists>s'. copyout 0x87ffe000 16 [1, 2, 3] (boot_kmem\<lparr>mem := demo_mem\<rparr>) = Ok 0 s' \<and>
    copyin 0x87ffe000 16 3 s' = Ok (0, [1, 2, 3]) s'"
proof -
  let ?s = "boot_kmem\<lparr>mem := demo_mem\<rparr>"
  have t: "tree_ok (mem ?s) 2 0x87ffe000" "user_ok (mem ?s) 0x87ffe000" by (simp_all add: demo_mem_ok demo_user_ok)
  have u: "umapped demo_mem 0x87ffe000 16" "umapped demo_mem 0x87ffe000 17" "umapped demo_mem 0x87ffe000 18"
    by (simp_all add: umapped_def demo_uaddr pn_def)
  let ?src = "[1, 2, 3] :: u8 list"
  obtain k m' where k: "k \<le> length ?src" "copyout 0x87ffe000 16 ?src ?s = Ok (if k = length ?src then 0 else -1) (?s\<lparr>mem := m'\<rparr>)"
    "k < length ?src \<longrightarrow> \<not> umapped (mem ?s) 0x87ffe000 (16 + of_nat k)"
    using copyout_spec[OF t, of ?src 16] by blast
  have "k = 0 \<or> k = 1 \<or> k = 2 \<or> k = 3" using k(1) by auto
  with k(3) u have "k = 3" by auto
  with k(2) copyout_copyin_roundtrip[OF t, of 16 ?src] show ?thesis by (auto simp: numeral_3_eq_3)
qed



end
