(* ===== verification/Proc.thy ===== *)
theory Proc
  imports UserMem
begin

text \<open>
  The process table and process switching (\<^verbatim>\<open>kernel/proc.c\<close>, \<^verbatim>\<open>kernel/proc.h\<close>): allocation and
  freeing of table entries, page tables of processes, \<^verbatim>\<open>sched\<close>, \<^verbatim>\<open>yield\<close>, \<^verbatim>\<open>sleep\<close>, \<^verbatim>\<open>wakeup\<close>, \<^verbatim>\<open>kill\<close>,
  the scheduler, and the copy routines that work on the current process. A process is named by its
  index in the table, a wait channel by the object whose address the code passes.

  \<^verbatim>\<open>swtch\<close> is the outcome \<open>Swtch\<close>: what follows it in the code is the continuation, run on whatever
  state the switched-out thread is resumed in. (The register contents \<^verbatim>\<open>swtch.S\<close> saves are the
  continuation itself and are not represented a second time.)
\<close>

section \<open>State\<close>

datatype procstate = UNUSED | USED | SLEEPING | RUNNABLE | RUNNING | ZOMBIE

datatype chan =
    ChanProc nat | ChanTicks | ChanLog | ChanSleep sleeplockid | ChanNread u64 | ChanNwrite u64
  | ChanConsR | ChanUartTx | ChanDiskFree | ChanBuf nat

text \<open>What a fresh context starts with: its return address, its stack pointer, zeroed registers.\<close>

datatype kcode = KNull | KForkret

record kcontext =
  ctx_ra :: kcode
  ctx_sp :: u64
  ctx_s :: "u64 list"

record proc =
  p_state :: procstate
  p_chan :: "chan option"
  p_killed :: int
  p_xstate :: int
  p_pid :: int
  p_parent :: "nat option"
  p_kstack :: u64
  p_sz :: u64
  p_pagetable :: u64
  p_trapframe :: u64
  p_context :: kcontext
  p_ofile :: "nat \<Rightarrow> nat option"
  p_cwd :: "nat option"
  p_name :: "u8 list"

record pstate = vmem +
  procs :: "nat \<Rightarrow> proc"
  initproc :: "nat option"
  nextpid :: int
  first :: bool
  patience :: nat

text \<open>
  \<open>patience\<close> is not a variable of the kernel: it bounds how often a loop around \<^verbatim>\<open>sleep\<close> may be
  woken up in vain before the model gives up with \<open>NoFuel\<close>. No statement depends on its value.
\<close>

text \<open>These fields are no part of the locking state.\<close>

lemma procs_frame [simp]:
  "grab lk (procs_update g s) = procs_update g (grab lk s)" "norm (procs_update g s) = procs_update g (norm s)"
  "hart_ok (procs_update g s) = hart_ok s" "lock_free lk (procs_update g s) = lock_free lk s"
  "procs (grab lk s) = procs s" "procs (norm s) = procs s"
  "procs_update (\<lambda>_. procs s) (grab lk s) = grab lk s" "procs_update (\<lambda>_. procs s) (norm s) = norm s"
  by (simp_all add: grab_def norm_def hart_ok_def lock_free_def spinlock_defs Let_def)

lemma initproc_frame [simp]:
  "grab lk (initproc_update g s) = initproc_update g (grab lk s)" "norm (initproc_update g s) = initproc_update g (norm s)"
  "hart_ok (initproc_update g s) = hart_ok s" "lock_free lk (initproc_update g s) = lock_free lk s"
  "initproc (grab lk s) = initproc s" "initproc (norm s) = initproc s"
  "initproc_update (\<lambda>_. initproc s) (grab lk s) = grab lk s" "initproc_update (\<lambda>_. initproc s) (norm s) = norm s"
  by (simp_all add: grab_def norm_def hart_ok_def lock_free_def spinlock_defs Let_def)

lemma nextpid_frame [simp]:
  "grab lk (nextpid_update g s) = nextpid_update g (grab lk s)" "norm (nextpid_update g s) = nextpid_update g (norm s)"
  "hart_ok (nextpid_update g s) = hart_ok s" "lock_free lk (nextpid_update g s) = lock_free lk s"
  "nextpid (grab lk s) = nextpid s" "nextpid (norm s) = nextpid s"
  "nextpid_update (\<lambda>_. nextpid s) (grab lk s) = grab lk s" "nextpid_update (\<lambda>_. nextpid s) (norm s) = norm s"
  by (simp_all add: grab_def norm_def hart_ok_def lock_free_def spinlock_defs Let_def)

lemma first_frame [simp]:
  "grab lk (first_update g s) = first_update g (grab lk s)" "norm (first_update g s) = first_update g (norm s)"
  "hart_ok (first_update g s) = hart_ok s" "lock_free lk (first_update g s) = lock_free lk s"
  "first (grab lk s) = first s" "first (norm s) = first s"
  "first_update (\<lambda>_. first s) (grab lk s) = grab lk s" "first_update (\<lambda>_. first s) (norm s) = norm s"
  by (simp_all add: grab_def norm_def hart_ok_def lock_free_def spinlock_defs Let_def)

lemma patience_frame [simp]:
  "grab lk (patience_update g s) = patience_update g (grab lk s)" "norm (patience_update g s) = patience_update g (norm s)"
  "hart_ok (patience_update g s) = hart_ok s" "lock_free lk (patience_update g s) = lock_free lk s"
  "patience (grab lk s) = patience s" "patience (norm s) = patience s"
  "patience_update (\<lambda>_. patience s) (grab lk s) = grab lk s" "patience_update (\<lambda>_. patience s) (norm s) = norm s"
  by (simp_all add: grab_def norm_def hart_ok_def lock_free_def spinlock_defs Let_def)

definition upd_proc :: "nat \<Rightarrow> (proc \<Rightarrow> proc) \<Rightarrow> 'z pstate_scheme \<Rightarrow> 'z pstate_scheme" where
  "upd_proc p f s = s\<lparr>procs := (procs s)(p := f (procs s p))\<rparr>"

text \<open>Offsets of the fields of \<^verbatim>\<open>struct trapframe\<close> the kernel reads and writes.\<close>

definition TF_kernel_satp :: u64 where "TF_kernel_satp = 0"
definition TF_kernel_sp :: u64 where "TF_kernel_sp = 8"
definition TF_kernel_trap :: u64 where "TF_kernel_trap = 16"
definition TF_epc :: u64 where "TF_epc = 24"
definition TF_kernel_hartid :: u64 where "TF_kernel_hartid = 32"
definition TF_sp :: u64 where "TF_sp = 48"
definition TF_a0 :: u64 where "TF_a0 = 112"
definition TF_a1 :: u64 where "TF_a1 = 120"
definition TF_a2 :: u64 where "TF_a2 = 128"
definition TF_a3 :: u64 where "TF_a3 = 136"
definition TF_a4 :: u64 where "TF_a4 = 144"
definition TF_a5 :: u64 where "TF_a5 = 152"
definition TF_a7 :: u64 where "TF_a7 = 168"
definition TF_size :: nat where "TF_size = 288"

section \<open>The table\<close>

fun procinit_loop :: "nat list \<Rightarrow> 'z pstate_scheme \<Rightarrow> 'z pstate_scheme" where
  "procinit_loop [] s = s"
| "procinit_loop (p # ps) s =
     procinit_loop ps (upd_proc p (\<lambda>q. q\<lparr>p_state := UNUSED, p_kstack := KSTACK p\<rparr>)
       (initlock (ProcLock p) ''proc'' s))"

definition procinit :: "'z pstate_scheme \<Rightarrow> 'z pstate_scheme" where
  "procinit s =
     procinit_loop [0..<NPROC] (initlock WaitLock ''wait_lock'' (initlock PidLock ''nextpid'' s))"

definition myproc :: "'z machine_scheme \<Rightarrow> (nat option, 'z machine_scheme) outcome" where
  "myproc s =
     (let s = push_off s; p = cpu_proc (mycpu s) in bind (pop_off s) (\<lambda>_ s. Ok p s))"

text \<open>
  \<^verbatim>\<open>myproc()\<close> where the code goes on to dereference the pointer: with no current process that is a
  page fault in the kernel, which ends in \<^verbatim>\<open>kerneltrap\<close>.
\<close>

definition curproc :: "'z machine_scheme \<Rightarrow> (nat, 'z machine_scheme) outcome" where
  "curproc s =
     bind (myproc s) (\<lambda>p s. case p of None \<Rightarrow> Panic ''kerneltrap'' | Some p \<Rightarrow> Ok p s)"

definition allocpid :: "'z pstate_scheme \<Rightarrow> (int, 'z pstate_scheme) outcome" where
  "allocpid s = with_lock PidLock (\<lambda>s. Ok (nextpid s) (s\<lparr>nextpid := nextpid s + 1\<rparr>)) s"

definition proc_pagetable :: "nat \<Rightarrow> 'z pstate_scheme \<Rightarrow> (u64, 'z pstate_scheme) outcome" where
  "proc_pagetable p s =
     bind (uvmcreate s) (\<lambda>pagetable s.
       if pagetable = 0 then Ok 0 s
       else bind (mappages pagetable TRAMPOLINE PGSIZE (trampoline s) (PTE_R OR PTE_X) s) (\<lambda>r s.
         if r < 0 then bind (uvmfree pagetable 0 s) (\<lambda>_ s. Ok 0 s)
         else bind (mappages pagetable TRAPFRAME PGSIZE (p_trapframe (procs s p)) (PTE_R OR PTE_W) s) (\<lambda>r s.
           if r < 0 then
             bind (uvmunmap pagetable TRAMPOLINE 1 False s) (\<lambda>_ s.
             bind (uvmfree pagetable 0 s) (\<lambda>_ s. Ok 0 s))
           else Ok pagetable s)))"

definition proc_freepagetable :: "u64 \<Rightarrow> u64 \<Rightarrow> 'z kmem_scheme \<Rightarrow> (unit, 'z kmem_scheme) outcome" where
  "proc_freepagetable pagetable sz s =
     bind (uvmunmap pagetable TRAMPOLINE 1 False s) (\<lambda>_ s.
     bind (uvmunmap pagetable TRAPFRAME 1 False s) (\<lambda>_ s.
     uvmfree pagetable sz s))"

definition freeproc :: "nat \<Rightarrow> 'z pstate_scheme \<Rightarrow> (unit, 'z pstate_scheme) outcome" where
  "freeproc p s =
     bind (if p_trapframe (procs s p) \<noteq> 0 then kfree (p_trapframe (procs s p)) s else Ok () s) (\<lambda>_ s.
     let s = upd_proc p (p_trapframe_update (\<lambda>_. 0)) s in
     bind (if p_pagetable (procs s p) \<noteq> 0
           then proc_freepagetable (p_pagetable (procs s p)) (p_sz (procs s p)) s else Ok () s) (\<lambda>_ s.
     Ok () (upd_proc p (\<lambda>q. q\<lparr>p_pagetable := 0, p_sz := 0, p_pid := 0, p_parent := None,
       p_name := (p_name q)[0 := 0], p_chan := None, p_killed := 0, p_xstate := 0, p_state := UNUSED\<rparr>) s)))"

fun find_unused :: "nat list \<Rightarrow> 'z pstate_scheme \<Rightarrow> (nat option, 'z pstate_scheme) outcome" where
  "find_unused [] s = Ok None s"
| "find_unused (p # ps) s =
     bind (acquire (ProcLock p) s) (\<lambda>_ s.
       if p_state (procs s p) = UNUSED then Ok (Some p) s
       else bind (release (ProcLock p) s) (\<lambda>_ s. find_unused ps s))"

definition allocproc :: "'z pstate_scheme \<Rightarrow> (nat option, 'z pstate_scheme) outcome" where
  "allocproc s =
     bind (find_unused [0..<NPROC] s) (\<lambda>r s.
       case r of None \<Rightarrow> Ok None s
       | Some p \<Rightarrow>
           bind (allocpid s) (\<lambda>pid s.
           bind (kalloc (upd_proc p (\<lambda>q. q\<lparr>p_pid := pid, p_state := USED\<rparr>) s)) (\<lambda>tf s.
           let s = upd_proc p (p_trapframe_update (\<lambda>_. tf)) s in
           if tf = 0 then
             bind (freeproc p s) (\<lambda>_ s. bind (release (ProcLock p) s) (\<lambda>_ s. Ok None s))
           else bind (proc_pagetable p s) (\<lambda>pt s.
             let s = upd_proc p (p_pagetable_update (\<lambda>_. pt)) s in
             if pt = 0 then
               bind (freeproc p s) (\<lambda>_ s. bind (release (ProcLock p) s) (\<lambda>_ s. Ok None s))
             else Ok (Some p) (upd_proc p (\<lambda>q. q\<lparr>p_context :=
                 \<lparr>ctx_ra = KForkret, ctx_sp = p_kstack q + PGSIZE, ctx_s = replicate 12 0\<rparr>\<rparr>) s)))))"

definition growproc :: "int \<Rightarrow> 'z pstate_scheme \<Rightarrow> (int, 'z pstate_scheme) outcome" where
  "growproc n s =
     bind (curproc s) (\<lambda>p s.
       let sz = p_sz (procs s p); pt = p_pagetable (procs s p) in
       if n > 0 then
         bind (uvmalloc pt sz (sz + of_int n) PTE_W s) (\<lambda>sz s.
           if sz = 0 then Ok (-1) s else Ok 0 (upd_proc p (p_sz_update (\<lambda>_. sz)) s))
       else if n < 0 then
         bind (uvmdealloc pt sz (sz + of_int n) s) (\<lambda>sz s. Ok 0 (upd_proc p (p_sz_update (\<lambda>_. sz)) s))
       else Ok 0 (upd_proc p (p_sz_update (\<lambda>_. sz)) s))"

section \<open>Switching\<close>

definition swtch :: "'s \<Rightarrow> (unit, 's) outcome" where
  "swtch s = Swtch s (\<lambda>s. Ok () s)"

definition sched :: "'z pstate_scheme \<Rightarrow> (unit, 'z pstate_scheme) outcome" where
  "sched s =
     bind (curproc s) (\<lambda>p s.
       if \<not> holding (ProcLock p) s then Panic ''sched p->lock''
       else if noff (mycpu s) \<noteq> 1 then Panic ''sched locks''
       else if p_state (procs s p) = RUNNING then Panic ''sched running''
       else if intr_get s then Panic ''sched interruptible''
       else let ie = intena (mycpu s) in
         bind (swtch s) (\<lambda>_ s. Ok () (set_mycpu ((mycpu s)\<lparr>intena := ie\<rparr>) s)))"

definition yield :: "'z pstate_scheme \<Rightarrow> (unit, 'z pstate_scheme) outcome" where
  "yield s =
     bind (curproc s) (\<lambda>p s.
     bind (acquire (ProcLock p) s) (\<lambda>_ s.
     bind (sched (upd_proc p (p_state_update (\<lambda>_. RUNNABLE)) s)) (\<lambda>_ s.
     release (ProcLock p) s)))"

definition sleep :: "chan \<Rightarrow> lockid \<Rightarrow> 'z pstate_scheme \<Rightarrow> (unit, 'z pstate_scheme) outcome" where
  "sleep chan lk s =
     bind (curproc s) (\<lambda>p s.
     bind (acquire (ProcLock p) s) (\<lambda>_ s.
     bind (release lk s) (\<lambda>_ s.
     bind (sched (upd_proc p (\<lambda>q. q\<lparr>p_chan := Some chan, p_state := SLEEPING\<rparr>) s)) (\<lambda>_ s.
     bind (release (ProcLock p) (upd_proc p (p_chan_update (\<lambda>_. None)) s)) (\<lambda>_ s.
     acquire lk s)))))"

fun wakeup_loop :: "nat list \<Rightarrow> chan option \<Rightarrow> 'z pstate_scheme \<Rightarrow> (unit, 'z pstate_scheme) outcome" where
  "wakeup_loop [] chan s = Ok () s"
| "wakeup_loop (p # ps) chan s =
     bind (myproc s) (\<lambda>me s.
       bind (if me \<noteq> Some p then
           bind (acquire (ProcLock p) s) (\<lambda>_ s.
             release (ProcLock p)
               (if p_state (procs s p) = SLEEPING \<and> p_chan (procs s p) = chan
                then upd_proc p (p_state_update (\<lambda>_. RUNNABLE)) s else s))
         else Ok () s)
       (\<lambda>_ s. wakeup_loop ps chan s))"

definition wakeup :: "chan option \<Rightarrow> 'z pstate_scheme \<Rightarrow> (unit, 'z pstate_scheme) outcome" where
  "wakeup chan s = wakeup_loop [0..<NPROC] chan s"

fun kill_loop :: "nat list \<Rightarrow> int \<Rightarrow> 'z pstate_scheme \<Rightarrow> (int, 'z pstate_scheme) outcome" where
  "kill_loop [] pid s = Ok (-1) s"
| "kill_loop (p # ps) pid s =
     bind (acquire (ProcLock p) s) (\<lambda>_ s.
       if p_pid (procs s p) = pid then
         let s = upd_proc p (p_killed_update (\<lambda>_. 1)) s;
             s = (if p_state (procs s p) = SLEEPING
                  then upd_proc p (p_state_update (\<lambda>_. RUNNABLE)) s else s)
         in bind (release (ProcLock p) s) (\<lambda>_ s. Ok 0 s)
       else bind (release (ProcLock p) s) (\<lambda>_ s. kill_loop ps pid s))"

definition kill :: "int \<Rightarrow> 'z pstate_scheme \<Rightarrow> (int, 'z pstate_scheme) outcome" where
  "kill pid s = kill_loop [0..<NPROC] pid s"

definition setkilled :: "nat \<Rightarrow> 'z pstate_scheme \<Rightarrow> (unit, 'z pstate_scheme) outcome" where
  "setkilled p s =
     with_lock (ProcLock p) (\<lambda>s. Ok () (upd_proc p (p_killed_update (\<lambda>_. 1)) s)) s"

definition killed :: "nat \<Rightarrow> 'z pstate_scheme \<Rightarrow> (int, 'z pstate_scheme) outcome" where
  "killed p s = with_lock (ProcLock p) (\<lambda>s. Ok (p_killed (procs s p)) s) s"

text \<open>
  One round of the loop in \<^verbatim>\<open>scheduler\<close> for entry \<open>p\<close> on the hart \<open>c\<close>, the rounds over the table, and
  the endless loop, cut off after \<open>fuel\<close> rounds.
\<close>

definition schedule_one :: "nat \<Rightarrow> nat \<Rightarrow> 'z pstate_scheme \<Rightarrow> (unit, 'z pstate_scheme) outcome" where
  "schedule_one c p s =
     bind (acquire (ProcLock p) s) (\<lambda>_ s.
     bind (if p_state (procs s p) = RUNNABLE then
         let s = upd_proc p (p_state_update (\<lambda>_. RUNNING)) s;
             s = s\<lparr>cpus := (cpus s)(c := (cpus s c)\<lparr>cpu_proc := Some p\<rparr>)\<rparr> in
         bind (swtch s) (\<lambda>_ s. Ok () (s\<lparr>cpus := (cpus s)(c := (cpus s c)\<lparr>cpu_proc := None\<rparr>)\<rparr>))
       else Ok () s)
     (\<lambda>_ s. release (ProcLock p) s))"

fun schedule_round :: "nat \<Rightarrow> nat list \<Rightarrow> 'z pstate_scheme \<Rightarrow> (unit, 'z pstate_scheme) outcome" where
  "schedule_round c [] s = Ok () s"
| "schedule_round c (p # ps) s = bind (schedule_one c p s) (\<lambda>_ s. schedule_round c ps s)"

fun scheduler_loop :: "nat \<Rightarrow> nat \<Rightarrow> 'z pstate_scheme \<Rightarrow> (unit, 'z pstate_scheme) outcome" where
  "scheduler_loop 0 c s = NoFuel"
| "scheduler_loop (Suc fuel) c s =
     bind (schedule_round c [0..<NPROC] (intr_on s)) (\<lambda>_ s. scheduler_loop fuel c s)"

definition scheduler :: "nat \<Rightarrow> 'z pstate_scheme \<Rightarrow> (unit, 'z pstate_scheme) outcome" where
  "scheduler fuel s =
     (let c = cpuid s in scheduler_loop fuel c (s\<lparr>cpus := (cpus s)(c := (cpus s c)\<lparr>cpu_proc := None\<rparr>)\<rparr>))"

section \<open>Copying to and from the current process\<close>

text \<open>
  A destination is a user address or a kernel buffer; for a kernel buffer the routine returns the
  bytes it has stored there. A source is a user address or the bytes of a kernel buffer.
\<close>

datatype dst = UserDst u64 | KernDst
datatype src = UserSrc u64 | KernSrc "u8 list"

fun dst_add :: "dst \<Rightarrow> nat \<Rightarrow> dst" where
  "dst_add (UserDst a) n = UserDst (a + of_nat n)"
| "dst_add KernDst n = KernDst"

fun src_add :: "src \<Rightarrow> nat \<Rightarrow> src" where
  "src_add (UserSrc a) n = UserSrc (a + of_nat n)"
| "src_add (KernSrc bs) n = KernSrc (drop n bs)"

definition either_copyout :: "dst \<Rightarrow> u8 list \<Rightarrow> 'z pstate_scheme \<Rightarrow> (int \<times> u8 list, 'z pstate_scheme) outcome" where
  "either_copyout dst src s =
     bind (myproc s) (\<lambda>p s.
       case dst of
         UserDst a \<Rightarrow> (case p of None \<Rightarrow> Panic ''kerneltrap''
           | Some p \<Rightarrow> bind (copyout (p_pagetable (procs s p)) a src s) (\<lambda>r s. Ok (r, []) s))
       | KernDst \<Rightarrow> Ok (0, src) s)"

definition either_copyin :: "src \<Rightarrow> nat \<Rightarrow> 'z pstate_scheme \<Rightarrow> (int \<times> u8 list, 'z pstate_scheme) outcome" where
  "either_copyin src len s =
     bind (myproc s) (\<lambda>p s.
       case src of
         UserSrc a \<Rightarrow> (case p of None \<Rightarrow> Panic ''kerneltrap''
           | Some p \<Rightarrow> copyin (p_pagetable (procs s p)) a len s)
       | KernSrc bs \<Rightarrow> Ok (0, take len bs) s)"

end
