(* ===== verification/Sleeplock.thy ===== *)
theory Sleeplock
  imports Proc
begin

text \<open>
  Long-term locks for processes (\<^verbatim>\<open>kernel/sleeplock.c\<close>): a flag and an owner pid, guarded by a
  spinlock, on which processes sleep.
\<close>

record sleeplock =
  sl_locked :: u32
  sl_name :: string
  sl_pid :: int

record slstate = pstate +
  sleeplocks :: "sleeplockid \<Rightarrow> sleeplock"

text \<open>These fields are no part of the locking state.\<close>

lemma sleeplocks_frame [simp]:
  "grab lk (sleeplocks_update g s) = sleeplocks_update g (grab lk s)" "norm (sleeplocks_update g s) = sleeplocks_update g (norm s)"
  "hart_ok (sleeplocks_update g s) = hart_ok s" "lock_free lk (sleeplocks_update g s) = lock_free lk s"
  "sleeplocks (grab lk s) = sleeplocks s" "sleeplocks (norm s) = sleeplocks s"
  "sleeplocks_update (\<lambda>_. sleeplocks s) (grab lk s) = grab lk s" "sleeplocks_update (\<lambda>_. sleeplocks s) (norm s) = norm s"
  by (simp_all add: grab_def norm_def hart_ok_def lock_free_def spinlock_defs Let_def)

definition upd_sl :: "sleeplockid \<Rightarrow> (sleeplock \<Rightarrow> sleeplock) \<Rightarrow> 'z slstate_scheme \<Rightarrow> 'z slstate_scheme" where
  "upd_sl lk f s = s\<lparr>sleeplocks := (sleeplocks s)(lk := f (sleeplocks s lk))\<rparr>"

definition initsleeplock :: "sleeplockid \<Rightarrow> string \<Rightarrow> 'z slstate_scheme \<Rightarrow> 'z slstate_scheme" where
  "initsleeplock lk name s =
     upd_sl lk (\<lambda>_. \<lparr>sl_locked = 0, sl_name = name, sl_pid = 0\<rparr>) (initlock (SleepLk lk) ''sleep lock'' s)"

fun acquiresleep_loop :: "nat \<Rightarrow> sleeplockid \<Rightarrow> 'z slstate_scheme \<Rightarrow> (unit, 'z slstate_scheme) outcome" where
  "acquiresleep_loop n lk s =
     (if sl_locked (sleeplocks s lk) \<noteq> 0 then
        (case n of 0 \<Rightarrow> NoFuel
         | Suc n \<Rightarrow> bind (sleep (ChanSleep lk) (SleepLk lk) s) (\<lambda>_ s. acquiresleep_loop n lk s))
      else Ok () s)"

definition acquiresleep :: "sleeplockid \<Rightarrow> 'z slstate_scheme \<Rightarrow> (unit, 'z slstate_scheme) outcome" where
  "acquiresleep lk s =
     bind (acquire (SleepLk lk) s) (\<lambda>_ s.
     bind (acquiresleep_loop (patience s) lk s) (\<lambda>_ s.
     bind (curproc s) (\<lambda>p s.
     release (SleepLk lk) (upd_sl lk (\<lambda>l. l\<lparr>sl_locked := 1, sl_pid := p_pid (procs s p)\<rparr>) s))))"

definition releasesleep :: "sleeplockid \<Rightarrow> 'z slstate_scheme \<Rightarrow> (unit, 'z slstate_scheme) outcome" where
  "releasesleep lk s =
     bind (acquire (SleepLk lk) s) (\<lambda>_ s.
     bind (wakeup (Some (ChanSleep lk)) (upd_sl lk (\<lambda>l. l\<lparr>sl_locked := 0, sl_pid := 0\<rparr>) s)) (\<lambda>_ s.
     release (SleepLk lk) s))"

definition holdingsleep :: "sleeplockid \<Rightarrow> 'z slstate_scheme \<Rightarrow> (bool, 'z slstate_scheme) outcome" where
  "holdingsleep lk s =
     with_lock (SleepLk lk) (\<lambda>s.
       if sl_locked (sleeplocks s lk) = 0 then Ok False s
       else bind (curproc s) (\<lambda>p s. Ok (sl_pid (sleeplocks s lk) = p_pid (procs s p)) s)) s"

end
