(* ===== verification/Pipe.thy ===== *)
theory Pipe
  imports Sleeplock Ring
begin

text \<open>
  Pipes (\<^verbatim>\<open>kernel/pipe.c\<close>): a ring of 512 bytes with free-running 32-bit counters. A pipe lives in a
  page of its own and is named by that page's address. \<^verbatim>\<open>pipealloc\<close> needs the file table and is part
  of theory \<open>File\<close>.
\<close>

section \<open>State and operations\<close>

definition PIPESIZE :: nat where "PIPESIZE = 512"

record pipe =
  pp_data :: "u8 list"
  nread :: u32
  nwrite :: u32
  readopen :: int
  writeopen :: int

record ppstate = slstate +
  pipes :: "u64 \<Rightarrow> pipe"

text \<open>These fields are no part of the locking state.\<close>

lemma pipes_frame [simp]:
  "grab lk (pipes_update g s) = pipes_update g (grab lk s)" "norm (pipes_update g s) = pipes_update g (norm s)"
  "hart_ok (pipes_update g s) = hart_ok s" "lock_free lk (pipes_update g s) = lock_free lk s"
  "pipes (grab lk s) = pipes s" "pipes (norm s) = pipes s"
  "pipes_update (\<lambda>_. pipes s) (grab lk s) = grab lk s" "pipes_update (\<lambda>_. pipes s) (norm s) = norm s"
  by (simp_all add: grab_def norm_def hart_ok_def lock_free_def spinlock_defs Let_def)

definition upd_pipe :: "u64 \<Rightarrow> (pipe \<Rightarrow> pipe) \<Rightarrow> 'z ppstate_scheme \<Rightarrow> 'z ppstate_scheme" where
  "upd_pipe pi f s = s\<lparr>pipes := (pipes s)(pi := f (pipes s pi))\<rparr>"

definition pipe_put :: "u8 \<Rightarrow> pipe \<Rightarrow> pipe" where
  "pipe_put ch q = q\<lparr>pp_data := (pp_data q)[unat (nwrite q) mod PIPESIZE := ch], nwrite := nwrite q + 1\<rparr>"

definition pipe_get :: "pipe \<Rightarrow> u8 \<times> pipe" where
  "pipe_get q = (pp_data q ! (unat (nread q) mod PIPESIZE), q\<lparr>nread := nread q + 1\<rparr>)"

interpretation pq: ring PIPESIZE pp_data nread nwrite pipe_put pipe_get
  by unfold_locales (simp_all add: pipe_put_def pipe_get_def PIPESIZE_def)

definition pipeclose :: "u64 \<Rightarrow> bool \<Rightarrow> 'z ppstate_scheme \<Rightarrow> (unit, 'z ppstate_scheme) outcome" where
  "pipeclose pi writable s =
     bind (acquire (PipeLock pi) s) (\<lambda>_ s.
     bind (if writable
           then wakeup (Some (ChanNread pi)) (upd_pipe pi (writeopen_update (\<lambda>_. 0)) s)
           else wakeup (Some (ChanNwrite pi)) (upd_pipe pi (readopen_update (\<lambda>_. 0)) s)) (\<lambda>_ s.
     if readopen (pipes s pi) = 0 \<and> writeopen (pipes s pi) = 0
     then bind (release (PipeLock pi) s) (\<lambda>_ s. kfree pi s)
     else release (PipeLock pi) s))"

text \<open>
  The loops take fuel: one unit per byte and one per time the loop is woken up. The result of
  \<^verbatim>\<open>pipewrite_loop\<close> is \<open>Some i\<close> when the loop is left with \<open>i\<close> bytes written, \<open>None\<close> for the early
  return of \<open>-1\<close> (with the lock released).
\<close>

fun pipewrite_loop :: "nat \<Rightarrow> u64 \<Rightarrow> nat \<Rightarrow> u64 \<Rightarrow> int \<Rightarrow> int \<Rightarrow> 'z ppstate_scheme \<Rightarrow>
    (int option, 'z ppstate_scheme) outcome" where
  "pipewrite_loop fuel pi pr addr n i s =
     (if i < n then
        (case fuel of 0 \<Rightarrow> NoFuel
         | Suc fuel \<Rightarrow>
             bind (if readopen (pipes s pi) = 0 then Ok 1 s else killed pr s) (\<lambda>stop s.
               if stop \<noteq> 0 then bind (release (PipeLock pi) s) (\<lambda>_ s. Ok None s)
               else if nwrite (pipes s pi) = nread (pipes s pi) + of_nat PIPESIZE then
                 bind (wakeup (Some (ChanNread pi)) s) (\<lambda>_ s.
                 bind (sleep (ChanNwrite pi) (PipeLock pi) s) (\<lambda>_ s.
                 pipewrite_loop fuel pi pr addr n i s))
               else
                 bind (copyin (p_pagetable (procs s pr)) (addr + of_int i) 1 s) (\<lambda>(r, bs) s.
                   if r = -1 then Ok (Some i) s
                   else pipewrite_loop fuel pi pr addr n (i + 1) (upd_pipe pi (pipe_put (hd bs)) s))))
      else Ok (Some i) s)"

definition pipewrite :: "u64 \<Rightarrow> u64 \<Rightarrow> int \<Rightarrow> 'z ppstate_scheme \<Rightarrow> (int, 'z ppstate_scheme) outcome" where
  "pipewrite pi addr n s =
     bind (curproc s) (\<lambda>pr s.
     bind (acquire (PipeLock pi) s) (\<lambda>_ s.
     bind (pipewrite_loop (nat n + patience s) pi pr addr n 0 s) (\<lambda>r s.
       case r of None \<Rightarrow> Ok (-1) s
       | Some i \<Rightarrow>
           bind (wakeup (Some (ChanNread pi)) s) (\<lambda>_ s.
           bind (release (PipeLock pi) s) (\<lambda>_ s. Ok i s)))))"

text \<open>The wait for data (\<open>False\<close> for the early return) and the copy loop.\<close>

fun piperead_wait :: "nat \<Rightarrow> u64 \<Rightarrow> nat \<Rightarrow> 'z ppstate_scheme \<Rightarrow> (bool, 'z ppstate_scheme) outcome" where
  "piperead_wait fuel pi pr s =
     (if nread (pipes s pi) = nwrite (pipes s pi) \<and> writeopen (pipes s pi) \<noteq> 0 then
        (case fuel of 0 \<Rightarrow> NoFuel
         | Suc fuel \<Rightarrow>
             bind (killed pr s) (\<lambda>k s.
               if k \<noteq> 0 then bind (release (PipeLock pi) s) (\<lambda>_ s. Ok False s)
               else bind (sleep (ChanNread pi) (PipeLock pi) s) (\<lambda>_ s. piperead_wait fuel pi pr s)))
      else Ok True s)"

fun piperead_loop :: "nat \<Rightarrow> u64 \<Rightarrow> nat \<Rightarrow> u64 \<Rightarrow> int \<Rightarrow> 'z ppstate_scheme \<Rightarrow> (int, 'z ppstate_scheme) outcome" where
  "piperead_loop 0 pi pr addr i s = Ok i s"
| "piperead_loop (Suc k) pi pr addr i s =
     (if nread (pipes s pi) = nwrite (pipes s pi) then Ok i s
      else
        case pipe_get (pipes s pi) of (ch, q) \<Rightarrow>
        bind (copyout (p_pagetable (procs s pr)) (addr + of_int i) [ch] (upd_pipe pi (\<lambda>_. q) s)) (\<lambda>r s.
          if r = -1 then Ok i s else piperead_loop k pi pr addr (i + 1) s))"

definition piperead :: "u64 \<Rightarrow> u64 \<Rightarrow> int \<Rightarrow> 'z ppstate_scheme \<Rightarrow> (int, 'z ppstate_scheme) outcome" where
  "piperead pi addr n s =
     bind (curproc s) (\<lambda>pr s.
     bind (acquire (PipeLock pi) s) (\<lambda>_ s.
     bind (piperead_wait (patience s) pi pr s) (\<lambda>go s.
       if \<not> go then Ok (-1) s
       else
         bind (piperead_loop (nat n) pi pr addr 0 s) (\<lambda>i s.
         bind (wakeup (Some (ChanNwrite pi)) s) (\<lambda>_ s.
         bind (release (PipeLock pi) s) (\<lambda>_ s. Ok i s))))))"

end
