(* ===== verification/Virtio.thy ===== *)
theory Virtio
  imports Pipe
begin

text \<open>
  The disk driver (\<^verbatim>\<open>kernel/virtio_disk.c\<close>, \<^verbatim>\<open>kernel/virtio.h\<close>) and the buffers it transfers
  (\<^verbatim>\<open>kernel/buf.h\<close>). The descriptor table and the two rings live in pages shared with the device; the
  model keeps them as the C structures they are. The device's registers are a function from
  register to value; how the device reacts to a register write is a parameter of
  \<^verbatim>\<open>virtio_disk_init\<close>. A buffer is named by its index in \<^verbatim>\<open>bcache.buf\<close>.
\<close>

section \<open>Buffers, descriptors and rings\<close>

definition BSIZE :: nat where "BSIZE = 1024"
definition NUM :: nat where "NUM = 8"

text \<open>The control registers, and their offsets from \<^verbatim>\<open>VIRTIO0\<close>.\<close>

datatype mmio_reg =
    VIRTIO_MMIO_MAGIC_VALUE
  | VIRTIO_MMIO_VERSION
  | VIRTIO_MMIO_DEVICE_ID
  | VIRTIO_MMIO_VENDOR_ID
  | VIRTIO_MMIO_DEVICE_FEATURES
  | VIRTIO_MMIO_DRIVER_FEATURES
  | VIRTIO_MMIO_QUEUE_SEL
  | VIRTIO_MMIO_QUEUE_NUM_MAX
  | VIRTIO_MMIO_QUEUE_NUM
  | VIRTIO_MMIO_QUEUE_READY
  | VIRTIO_MMIO_QUEUE_NOTIFY
  | VIRTIO_MMIO_INTERRUPT_STATUS
  | VIRTIO_MMIO_INTERRUPT_ACK
  | VIRTIO_MMIO_STATUS
  | VIRTIO_MMIO_QUEUE_DESC_LOW
  | VIRTIO_MMIO_QUEUE_DESC_HIGH
  | VIRTIO_MMIO_DRIVER_DESC_LOW
  | VIRTIO_MMIO_DRIVER_DESC_HIGH
  | VIRTIO_MMIO_DEVICE_DESC_LOW
  | VIRTIO_MMIO_DEVICE_DESC_HIGH

fun mmio_offset :: "mmio_reg \<Rightarrow> u64" where
  "mmio_offset VIRTIO_MMIO_MAGIC_VALUE = 0x000"
| "mmio_offset VIRTIO_MMIO_VERSION = 0x004"
| "mmio_offset VIRTIO_MMIO_DEVICE_ID = 0x008"
| "mmio_offset VIRTIO_MMIO_VENDOR_ID = 0x00c"
| "mmio_offset VIRTIO_MMIO_DEVICE_FEATURES = 0x010"
| "mmio_offset VIRTIO_MMIO_DRIVER_FEATURES = 0x020"
| "mmio_offset VIRTIO_MMIO_QUEUE_SEL = 0x030"
| "mmio_offset VIRTIO_MMIO_QUEUE_NUM_MAX = 0x034"
| "mmio_offset VIRTIO_MMIO_QUEUE_NUM = 0x038"
| "mmio_offset VIRTIO_MMIO_QUEUE_READY = 0x044"
| "mmio_offset VIRTIO_MMIO_QUEUE_NOTIFY = 0x050"
| "mmio_offset VIRTIO_MMIO_INTERRUPT_STATUS = 0x060"
| "mmio_offset VIRTIO_MMIO_INTERRUPT_ACK = 0x064"
| "mmio_offset VIRTIO_MMIO_STATUS = 0x070"
| "mmio_offset VIRTIO_MMIO_QUEUE_DESC_LOW = 0x080"
| "mmio_offset VIRTIO_MMIO_QUEUE_DESC_HIGH = 0x084"
| "mmio_offset VIRTIO_MMIO_DRIVER_DESC_LOW = 0x090"
| "mmio_offset VIRTIO_MMIO_DRIVER_DESC_HIGH = 0x094"
| "mmio_offset VIRTIO_MMIO_DEVICE_DESC_LOW = 0x0a0"
| "mmio_offset VIRTIO_MMIO_DEVICE_DESC_HIGH = 0x0a4"

text \<open>Registers have different offsets, so that the model can index them by name.\<close>

lemma mmio_offset_inj: "mmio_offset r = mmio_offset q \<longleftrightarrow> r = q"
  by (cases r; cases q) simp_all

definition VIRTIO_CONFIG_S_ACKNOWLEDGE :: u32 where "VIRTIO_CONFIG_S_ACKNOWLEDGE = 1"
definition VIRTIO_CONFIG_S_DRIVER :: u32 where "VIRTIO_CONFIG_S_DRIVER = 2"
definition VIRTIO_CONFIG_S_DRIVER_OK :: u32 where "VIRTIO_CONFIG_S_DRIVER_OK = 4"
definition VIRTIO_CONFIG_S_FEATURES_OK :: u32 where "VIRTIO_CONFIG_S_FEATURES_OK = 8"

definition VIRTIO_BLK_F_RO :: nat where "VIRTIO_BLK_F_RO = 5"
definition VIRTIO_BLK_F_SCSI :: nat where "VIRTIO_BLK_F_SCSI = 7"
definition VIRTIO_BLK_F_CONFIG_WCE :: nat where "VIRTIO_BLK_F_CONFIG_WCE = 11"
definition VIRTIO_BLK_F_MQ :: nat where "VIRTIO_BLK_F_MQ = 12"
definition VIRTIO_F_ANY_LAYOUT :: nat where "VIRTIO_F_ANY_LAYOUT = 27"
definition VIRTIO_RING_F_INDIRECT_DESC :: nat where "VIRTIO_RING_F_INDIRECT_DESC = 28"
definition VIRTIO_RING_F_EVENT_IDX :: nat where "VIRTIO_RING_F_EVENT_IDX = 29"

definition VRING_DESC_F_NEXT :: u16 where "VRING_DESC_F_NEXT = 1"
definition VRING_DESC_F_WRITE :: u16 where "VRING_DESC_F_WRITE = 2"

definition VIRTIO_BLK_T_IN :: u32 where "VIRTIO_BLK_T_IN = 0"
definition VIRTIO_BLK_T_OUT :: u32 where "VIRTIO_BLK_T_OUT = 1"

text \<open>\<open>b_prev\<close> and \<open>b_next\<close> are buffer indices; \<open>NBUF\<close> stands for \<^verbatim>\<open>&bcache.head\<close>.\<close>

record buf =
  b_valid :: int
  b_disk :: int
  b_dev :: u32
  b_blockno :: u32
  b_refcnt :: u32
  b_prev :: nat
  b_next :: nat
  b_data :: "u8 list"

text \<open>What the address field of a descriptor points at.\<close>

datatype dma = NullAddr | OpsAddr nat | DataAddr nat | StatusAddr nat

record virtq_desc =
  d_addr :: dma
  d_len :: u32
  d_flags :: u16
  d_next :: u16

record virtio_blk_req =
  req_type :: u32
  req_reserved :: u32
  req_sector :: u64

record vdisk =
  vd_desc_page :: u64
  vd_avail_page :: u64
  vd_used_page :: u64
  vd_desc :: "nat \<Rightarrow> virtq_desc"
  avail_idx :: u16
  avail_ring :: "nat \<Rightarrow> u16"
  used_idx_dev :: u16
  used_ring :: "nat \<Rightarrow> u32"
  vd_free :: "nat \<Rightarrow> bool"
  vd_used_idx :: u16
  info_b :: "nat \<Rightarrow> nat option"
  info_status :: "nat \<Rightarrow> u8"
  vd_ops :: "nat \<Rightarrow> virtio_blk_req"

text \<open>\<open>medium\<close> are the sectors of the disk itself, 512 bytes each; only the device touches them.\<close>

record vdstate = ppstate +
  vdisk :: vdisk
  mmio :: "mmio_reg \<Rightarrow> u32"
  bufs :: "nat \<Rightarrow> buf"
  medium :: "u64 \<Rightarrow> u8 list"

text \<open>These fields are no part of the locking state.\<close>

lemma vdisk_frame [simp]:
  "grab lk (vdisk_update g s) = vdisk_update g (grab lk s)" "norm (vdisk_update g s) = vdisk_update g (norm s)"
  "hart_ok (vdisk_update g s) = hart_ok s" "lock_free lk (vdisk_update g s) = lock_free lk s"
  "vdisk (grab lk s) = vdisk s" "vdisk (norm s) = vdisk s"
  "vdisk_update (\<lambda>_. vdisk s) (grab lk s) = grab lk s" "vdisk_update (\<lambda>_. vdisk s) (norm s) = norm s"
  by (simp_all add: grab_def norm_def hart_ok_def lock_free_def spinlock_defs Let_def)

lemma mmio_frame [simp]:
  "grab lk (mmio_update g s) = mmio_update g (grab lk s)" "norm (mmio_update g s) = mmio_update g (norm s)"
  "hart_ok (mmio_update g s) = hart_ok s" "lock_free lk (mmio_update g s) = lock_free lk s"
  "mmio (grab lk s) = mmio s" "mmio (norm s) = mmio s"
  "mmio_update (\<lambda>_. mmio s) (grab lk s) = grab lk s" "mmio_update (\<lambda>_. mmio s) (norm s) = norm s"
  by (simp_all add: grab_def norm_def hart_ok_def lock_free_def spinlock_defs Let_def)

lemma bufs_frame [simp]:
  "grab lk (bufs_update g s) = bufs_update g (grab lk s)" "norm (bufs_update g s) = bufs_update g (norm s)"
  "hart_ok (bufs_update g s) = hart_ok s" "lock_free lk (bufs_update g s) = lock_free lk s"
  "bufs (grab lk s) = bufs s" "bufs (norm s) = bufs s"
  "bufs_update (\<lambda>_. bufs s) (grab lk s) = grab lk s" "bufs_update (\<lambda>_. bufs s) (norm s) = norm s"
  by (simp_all add: grab_def norm_def hart_ok_def lock_free_def spinlock_defs Let_def)

lemma medium_frame [simp]:
  "grab lk (medium_update g s) = medium_update g (grab lk s)" "norm (medium_update g s) = medium_update g (norm s)"
  "hart_ok (medium_update g s) = hart_ok s" "lock_free lk (medium_update g s) = lock_free lk s"
  "medium (grab lk s) = medium s" "medium (norm s) = medium s"
  "medium_update (\<lambda>_. medium s) (grab lk s) = grab lk s" "medium_update (\<lambda>_. medium s) (norm s) = norm s"
  by (simp_all add: grab_def norm_def hart_ok_def lock_free_def spinlock_defs Let_def)

definition upd_buf :: "nat \<Rightarrow> (buf \<Rightarrow> buf) \<Rightarrow> 'z vdstate_scheme \<Rightarrow> 'z vdstate_scheme" where
  "upd_buf b f s = s\<lparr>bufs := (bufs s)(b := f (bufs s b))\<rparr>"

definition upd_vd :: "(vdisk \<Rightarrow> vdisk) \<Rightarrow> 'z vdstate_scheme \<Rightarrow> 'z vdstate_scheme" where
  "upd_vd f s = s\<lparr>vdisk := f (vdisk s)\<rparr>"

definition upd_desc :: "nat \<Rightarrow> (virtq_desc \<Rightarrow> virtq_desc) \<Rightarrow> 'z vdstate_scheme \<Rightarrow> 'z vdstate_scheme" where
  "upd_desc i f s = upd_vd (\<lambda>d. d\<lparr>vd_desc := (vd_desc d)(i := f (vd_desc d i))\<rparr>) s"

section \<open>Initialisation\<close>

type_synonym react = "mmio_reg \<Rightarrow> u32 \<Rightarrow> (mmio_reg \<Rightarrow> u32) \<Rightarrow> mmio_reg \<Rightarrow> u32"

definition mmio_write :: "react \<Rightarrow> mmio_reg \<Rightarrow> u32 \<Rightarrow> 'z vdstate_scheme \<Rightarrow> 'z vdstate_scheme" where
  "mmio_write react r v s = s\<lparr>mmio := react r v (mmio s)\<rparr>"

definition drop_features :: "u64 \<Rightarrow> u64" where
  "drop_features features =
     (let f = features AND NOT (push_bit VIRTIO_BLK_F_RO 1);
          f = f AND NOT (push_bit VIRTIO_BLK_F_SCSI 1);
          f = f AND NOT (push_bit VIRTIO_BLK_F_CONFIG_WCE 1);
          f = f AND NOT (push_bit VIRTIO_BLK_F_MQ 1);
          f = f AND NOT (push_bit VIRTIO_F_ANY_LAYOUT 1);
          f = f AND NOT (push_bit VIRTIO_RING_F_EVENT_IDX 1)
      in f AND NOT (push_bit VIRTIO_RING_F_INDIRECT_DESC 1))"

definition virtio_disk_init :: "react \<Rightarrow> 'z vdstate_scheme \<Rightarrow> (unit, 'z vdstate_scheme) outcome" where
  "virtio_disk_init react s =
     (let s = initlock VdiskLock ''virtio_disk'' s in
      if mmio s VIRTIO_MMIO_MAGIC_VALUE \<noteq> 0x74726976 \<or> mmio s VIRTIO_MMIO_VERSION \<noteq> 2 \<or>
         mmio s VIRTIO_MMIO_DEVICE_ID \<noteq> 2 \<or> mmio s VIRTIO_MMIO_VENDOR_ID \<noteq> 0x554d4551
      then Panic ''could not find virtio disk''
      else let
        s = mmio_write react VIRTIO_MMIO_STATUS 0 s;
        status = VIRTIO_CONFIG_S_ACKNOWLEDGE;
        s = mmio_write react VIRTIO_MMIO_STATUS status s;
        status = status OR VIRTIO_CONFIG_S_DRIVER;
        s = mmio_write react VIRTIO_MMIO_STATUS status s;
        features = drop_features (ucast (mmio s VIRTIO_MMIO_DEVICE_FEATURES));
        s = mmio_write react VIRTIO_MMIO_DRIVER_FEATURES (ucast features) s;
        status = status OR VIRTIO_CONFIG_S_FEATURES_OK;
        s = mmio_write react VIRTIO_MMIO_STATUS status s;
        status = mmio s VIRTIO_MMIO_STATUS
      in if status AND VIRTIO_CONFIG_S_FEATURES_OK = 0 then Panic ''virtio disk FEATURES_OK unset''
      else let s = mmio_write react VIRTIO_MMIO_QUEUE_SEL 0 s in
      if mmio s VIRTIO_MMIO_QUEUE_READY \<noteq> 0 then Panic ''virtio disk should not be ready''
      else let mx = mmio s VIRTIO_MMIO_QUEUE_NUM_MAX in
      if mx = 0 then Panic ''virtio disk has no queue 0''
      else if mx < of_nat NUM then Panic ''virtio disk max queue too short''
      else
        bind (kalloc s) (\<lambda>desc s. bind (kalloc s) (\<lambda>avail s. bind (kalloc s) (\<lambda>used s.
        if desc = 0 \<or> avail = 0 \<or> used = 0 then Panic ''virtio disk kalloc''
        else let
          s = s\<lparr>mem := memset (memset (memset (mem s) desc 0 4096) avail 0 4096) used 0 4096\<rparr>;
          s = upd_vd (\<lambda>d. d\<lparr>vd_desc_page := desc, vd_avail_page := avail, vd_used_page := used,
                vd_desc := (\<lambda>_. \<lparr>d_addr = NullAddr, d_len = 0, d_flags = 0, d_next = 0\<rparr>),
                avail_idx := 0, avail_ring := (\<lambda>_. 0), used_idx_dev := 0, used_ring := (\<lambda>_. 0)\<rparr>) s;
          s = mmio_write react VIRTIO_MMIO_QUEUE_NUM (of_nat NUM) s;
          s = mmio_write react VIRTIO_MMIO_QUEUE_DESC_LOW (ucast desc) s;
          s = mmio_write react VIRTIO_MMIO_QUEUE_DESC_HIGH (ucast (drop_bit 32 desc)) s;
          s = mmio_write react VIRTIO_MMIO_DRIVER_DESC_LOW (ucast avail) s;
          s = mmio_write react VIRTIO_MMIO_DRIVER_DESC_HIGH (ucast (drop_bit 32 avail)) s;
          s = mmio_write react VIRTIO_MMIO_DEVICE_DESC_LOW (ucast used) s;
          s = mmio_write react VIRTIO_MMIO_DEVICE_DESC_HIGH (ucast (drop_bit 32 used)) s;
          s = mmio_write react VIRTIO_MMIO_QUEUE_READY 1 s;
          s = upd_vd (\<lambda>d. d\<lparr>vd_free := (\<lambda>i. if i < NUM then True else vd_free d i)\<rparr>) s
        in Ok () (mmio_write react VIRTIO_MMIO_STATUS (status OR VIRTIO_CONFIG_S_DRIVER_OK) s)))))"

section \<open>Descriptors\<close>

fun alloc_desc_loop :: "nat list \<Rightarrow> 'z vdstate_scheme \<Rightarrow> int \<times> 'z vdstate_scheme" where
  "alloc_desc_loop [] s = (-1, s)"
| "alloc_desc_loop (i # is) s =
     (if vd_free (vdisk s) i
      then (int i, upd_vd (\<lambda>d. d\<lparr>vd_free := (vd_free d)(i := False)\<rparr>) s)
      else alloc_desc_loop is s)"

definition alloc_desc :: "'z vdstate_scheme \<Rightarrow> int \<times> 'z vdstate_scheme" where
  "alloc_desc s = alloc_desc_loop [0..<NUM] s"

definition free_desc :: "nat \<Rightarrow> 'z vdstate_scheme \<Rightarrow> (unit, 'z vdstate_scheme) outcome" where
  "free_desc i s =
     (if NUM \<le> i then Panic ''free_desc 1''
      else if vd_free (vdisk s) i then Panic ''free_desc 2''
      else wakeup (Some ChanDiskFree)
        (upd_vd (\<lambda>d. d\<lparr>vd_free := (vd_free d)(i := True)\<rparr>)
          (upd_desc i (\<lambda>_. \<lparr>d_addr = NullAddr, d_len = 0, d_flags = 0, d_next = 0\<rparr>) s)))"

text \<open>
  A chain that loops would reach a descriptor that is free already and panic, so \<open>NUM + 1\<close> units of
  fuel are enough.
\<close>

fun free_chain_loop :: "nat \<Rightarrow> nat \<Rightarrow> 'z vdstate_scheme \<Rightarrow> (unit, 'z vdstate_scheme) outcome" where
  "free_chain_loop 0 i s = NoFuel"
| "free_chain_loop (Suc fuel) i s =
     (let flag = d_flags (vd_desc (vdisk s) i); nxt = unat (d_next (vd_desc (vdisk s) i)) in
      bind (free_desc i s) (\<lambda>_ s.
        if flag AND VRING_DESC_F_NEXT \<noteq> 0 then free_chain_loop fuel nxt s else Ok () s))"

definition free_chain :: "nat \<Rightarrow> 'z vdstate_scheme \<Rightarrow> (unit, 'z vdstate_scheme) outcome" where
  "free_chain i s = free_chain_loop (Suc NUM) i s"

fun free_descs :: "nat list \<Rightarrow> 'z vdstate_scheme \<Rightarrow> (unit, 'z vdstate_scheme) outcome" where
  "free_descs [] s = Ok () s"
| "free_descs (i # is) s = bind (free_desc i s) (\<lambda>_ s. free_descs is s)"

text \<open>The result is the array \<^verbatim>\<open>idx\<close>, or \<open>None\<close> for \<open>-1\<close>.\<close>

fun alloc_descs :: "nat \<Rightarrow> nat list \<Rightarrow> 'z vdstate_scheme \<Rightarrow> (nat list option, 'z vdstate_scheme) outcome" where
  "alloc_descs 0 idx s = Ok (Some idx) s"
| "alloc_descs (Suc k) idx s =
     (case alloc_desc s of (i, s) \<Rightarrow>
        if i < 0 then bind (free_descs idx s) (\<lambda>_ s. Ok None s)
        else alloc_descs k (idx @ [nat i]) s)"

definition alloc3_desc :: "'z vdstate_scheme \<Rightarrow> (nat list option, 'z vdstate_scheme) outcome" where
  "alloc3_desc s = alloc_descs 3 [] s"

section \<open>Requests and completion\<close>

fun rw_alloc_loop :: "nat \<Rightarrow> 'z vdstate_scheme \<Rightarrow> (nat list, 'z vdstate_scheme) outcome" where
  "rw_alloc_loop n s =
     bind (alloc3_desc s) (\<lambda>r s.
       case r of Some idx \<Rightarrow> Ok idx s
       | None \<Rightarrow> (case n of 0 \<Rightarrow> NoFuel
           | Suc n \<Rightarrow> bind (sleep ChanDiskFree VdiskLock s) (\<lambda>_ s. rw_alloc_loop n s)))"

definition rw_format :: "nat \<Rightarrow> bool \<Rightarrow> nat list \<Rightarrow> 'z vdstate_scheme \<Rightarrow> 'z vdstate_scheme" where
  "rw_format b write idx s =
     (let i0 = idx ! 0; i1 = idx ! 1; i2 = idx ! 2;
          sector = ucast (b_blockno (bufs s b) * of_nat (BSIZE div 512)) :: u64;
          s = upd_vd (\<lambda>d. d\<lparr>vd_ops := (vd_ops d)(i0 := \<lparr>req_type = (if write then VIRTIO_BLK_T_OUT else VIRTIO_BLK_T_IN),
                req_reserved = 0, req_sector = sector\<rparr>)\<rparr>) s;
          s = upd_desc i0 (\<lambda>_. \<lparr>d_addr = OpsAddr i0, d_len = 16, d_flags = VRING_DESC_F_NEXT, d_next = of_nat i1\<rparr>) s;
          s = upd_desc i1 (\<lambda>_. \<lparr>d_addr = DataAddr b, d_len = of_nat BSIZE,
                d_flags = (if write then 0 else VRING_DESC_F_WRITE) OR VRING_DESC_F_NEXT, d_next = of_nat i2\<rparr>) s;
          s = upd_vd (\<lambda>d. d\<lparr>info_status := (info_status d)(i0 := 0xff)\<rparr>) s;
          s = upd_desc i2 (\<lambda>_. \<lparr>d_addr = StatusAddr i0, d_len = 1, d_flags = VRING_DESC_F_WRITE, d_next = 0\<rparr>) s;
          s = upd_buf b (b_disk_update (\<lambda>_. 1)) s;
          s = upd_vd (\<lambda>d. d\<lparr>info_b := (info_b d)(i0 := Some b)\<rparr>) s;
          s = upd_vd (\<lambda>d. d\<lparr>avail_ring := (avail_ring d)(unat (avail_idx d) mod NUM := of_nat i0)\<rparr>) s
      in upd_vd (\<lambda>d. d\<lparr>avail_idx := avail_idx d + 1\<rparr>) s)"

fun rw_wait :: "nat \<Rightarrow> nat \<Rightarrow> 'z vdstate_scheme \<Rightarrow> (unit, 'z vdstate_scheme) outcome" where
  "rw_wait n b s =
     (if b_disk (bufs s b) = 1 then
        (case n of 0 \<Rightarrow> NoFuel
         | Suc n \<Rightarrow> bind (sleep (ChanBuf b) VdiskLock s) (\<lambda>_ s. rw_wait n b s))
      else Ok () s)"

definition virtio_disk_rw :: "nat \<Rightarrow> bool \<Rightarrow> 'z vdstate_scheme \<Rightarrow> (unit, 'z vdstate_scheme) outcome" where
  "virtio_disk_rw b write s =
     bind (acquire VdiskLock s) (\<lambda>_ s.
     bind (rw_alloc_loop (patience s) s) (\<lambda>idx s.
     let s = rw_format b write idx s;
         s = s\<lparr>mmio := (mmio s)(VIRTIO_MMIO_QUEUE_NOTIFY := 0)\<rparr> in
     bind (rw_wait (patience s) b s) (\<lambda>_ s.
     let s = upd_vd (\<lambda>d. d\<lparr>info_b := (info_b d)(idx ! 0 := None)\<rparr>) s in
     bind (free_chain (idx ! 0) s) (\<lambda>_ s.
     release VdiskLock s))))"

text \<open>The counters are 16 bits wide, so the completion loop makes fewer than \<open>2 ^ 16\<close> rounds.\<close>

fun intr_loop :: "nat \<Rightarrow> 'z vdstate_scheme \<Rightarrow> (unit, 'z vdstate_scheme) outcome" where
  "intr_loop fuel s =
     (if vd_used_idx (vdisk s) \<noteq> used_idx_dev (vdisk s) then
        (case fuel of 0 \<Rightarrow> NoFuel
         | Suc fuel \<Rightarrow>
             let id = unat (used_ring (vdisk s) (unat (vd_used_idx (vdisk s)) mod NUM)) in
             if info_status (vdisk s) id \<noteq> 0 then Panic ''virtio_disk_intr status''
             else (case info_b (vdisk s) id of None \<Rightarrow> Panic ''kerneltrap''
               | Some b \<Rightarrow>
                   bind (wakeup (Some (ChanBuf b)) (upd_buf b (b_disk_update (\<lambda>_. 0)) s)) (\<lambda>_ s.
                   intr_loop fuel (upd_vd (\<lambda>d. d\<lparr>vd_used_idx := vd_used_idx d + 1\<rparr>) s))))
      else Ok () s)"

definition virtio_disk_intr :: "'z vdstate_scheme \<Rightarrow> (unit, 'z vdstate_scheme) outcome" where
  "virtio_disk_intr s =
     bind (acquire VdiskLock s) (\<lambda>_ s.
     let s = s\<lparr>mmio := (mmio s)(VIRTIO_MMIO_INTERRUPT_ACK := mmio s VIRTIO_MMIO_INTERRUPT_STATUS AND 3)\<rparr> in
     bind (intr_loop (2 ^ 16) s) (\<lambda>_ s.
     release VdiskLock s))"

declare acquiresleep_loop.simps [simp del] pipewrite_loop.simps [simp del] piperead_wait.simps [simp del]
  rw_alloc_loop.simps [simp del] rw_wait.simps [simp del] intr_loop.simps [simp del]

end
