(* ===== verification/Uart.thy ===== *)
theory Uart
  imports Virtio
begin

text \<open>
  The serial port (\<^verbatim>\<open>kernel/uart.c\<close>) and console output (\<^verbatim>\<open>consputc\<close> of \<^verbatim>\<open>kernel/console.c\<close>).
  The device is seen through its registers: \<open>lsr_feed\<close> are the values that successive reads of the
  line status register will return (a read beyond the end sees an idle line with nothing to
  send or receive), \<open>rhr_feed\<close> the characters that arrive, and \<open>uart_writes\<close> the register writes
  so far, oldest first. The record also holds the other globals of the console: its input
  buffer, the \<^verbatim>\<open>printf\<close> lock flag and the device switch.
\<close>

section \<open>State\<close>

definition RHR :: nat where "RHR = 0"
definition THR :: nat where "THR = 0"
definition IER :: nat where "IER = 1"
definition IER_RX_ENABLE :: u8 where "IER_RX_ENABLE = push_bit 0 1"
definition IER_TX_ENABLE :: u8 where "IER_TX_ENABLE = push_bit 1 1"
definition FCR :: nat where "FCR = 2"
definition FCR_FIFO_ENABLE :: u8 where "FCR_FIFO_ENABLE = push_bit 0 1"
definition FCR_FIFO_CLEAR :: u8 where "FCR_FIFO_CLEAR = push_bit 1 3"
definition LCR :: nat where "LCR = 3"
definition LCR_EIGHT_BITS :: u8 where "LCR_EIGHT_BITS = push_bit 0 3"
definition LCR_BAUD_LATCH :: u8 where "LCR_BAUD_LATCH = push_bit 7 1"
definition LSR_RX_READY :: u8 where "LSR_RX_READY = push_bit 0 1"
definition LSR_TX_IDLE :: u8 where "LSR_TX_IDLE = push_bit 5 1"
definition UART_TX_BUF_SIZE :: nat where "UART_TX_BUF_SIZE = 32"
definition INPUT_BUF_SIZE :: nat where "INPUT_BUF_SIZE = 128"
definition CONSOLE :: nat where "CONSOLE = 1"

record uart =
  lsr_feed :: "u8 list"
  rhr_feed :: "u8 list"
  uart_writes :: "(nat \<times> u8) list"
  uart_tx_buf :: "u8 list"
  uart_tx_w :: u64
  uart_tx_r :: u64

record consbuf =
  cons_buf :: "u8 list"
  cons_r :: u32
  cons_w :: u32
  cons_e :: u32

datatype devread = Consoleread
datatype devwrite = Consolewrite

record cnstate = vdstate +
  uart :: uart
  panicked :: int
  pr_locking :: int
  cons :: consbuf
  devsw_read :: "nat \<Rightarrow> devread option"
  devsw_write :: "nat \<Rightarrow> devwrite option"

text \<open>These fields are no part of the locking state.\<close>

lemma uart_frame [simp]:
  "grab lk (uart_update g s) = uart_update g (grab lk s)" "norm (uart_update g s) = uart_update g (norm s)"
  "hart_ok (uart_update g s) = hart_ok s" "lock_free lk (uart_update g s) = lock_free lk s"
  "uart (grab lk s) = uart s" "uart (norm s) = uart s"
  "uart_update (\<lambda>_. uart s) (grab lk s) = grab lk s" "uart_update (\<lambda>_. uart s) (norm s) = norm s"
  by (simp_all add: grab_def norm_def hart_ok_def lock_free_def spinlock_defs Let_def)

lemma panicked_frame [simp]:
  "grab lk (panicked_update g s) = panicked_update g (grab lk s)" "norm (panicked_update g s) = panicked_update g (norm s)"
  "hart_ok (panicked_update g s) = hart_ok s" "lock_free lk (panicked_update g s) = lock_free lk s"
  "panicked (grab lk s) = panicked s" "panicked (norm s) = panicked s"
  "panicked_update (\<lambda>_. panicked s) (grab lk s) = grab lk s" "panicked_update (\<lambda>_. panicked s) (norm s) = norm s"
  by (simp_all add: grab_def norm_def hart_ok_def lock_free_def spinlock_defs Let_def)

lemma pr_locking_frame [simp]:
  "grab lk (pr_locking_update g s) = pr_locking_update g (grab lk s)" "norm (pr_locking_update g s) = pr_locking_update g (norm s)"
  "hart_ok (pr_locking_update g s) = hart_ok s" "lock_free lk (pr_locking_update g s) = lock_free lk s"
  "pr_locking (grab lk s) = pr_locking s" "pr_locking (norm s) = pr_locking s"
  "pr_locking_update (\<lambda>_. pr_locking s) (grab lk s) = grab lk s" "pr_locking_update (\<lambda>_. pr_locking s) (norm s) = norm s"
  by (simp_all add: grab_def norm_def hart_ok_def lock_free_def spinlock_defs Let_def)

lemma cons_frame [simp]:
  "grab lk (cons_update g s) = cons_update g (grab lk s)" "norm (cons_update g s) = cons_update g (norm s)"
  "hart_ok (cons_update g s) = hart_ok s" "lock_free lk (cons_update g s) = lock_free lk s"
  "cons (grab lk s) = cons s" "cons (norm s) = cons s"
  "cons_update (\<lambda>_. cons s) (grab lk s) = grab lk s" "cons_update (\<lambda>_. cons s) (norm s) = norm s"
  by (simp_all add: grab_def norm_def hart_ok_def lock_free_def spinlock_defs Let_def)

definition upd_uart :: "(uart \<Rightarrow> uart) \<Rightarrow> 'z cnstate_scheme \<Rightarrow> 'z cnstate_scheme" where
  "upd_uart f s = s\<lparr>uart := f (uart s)\<rparr>"

definition upd_cons :: "(consbuf \<Rightarrow> consbuf) \<Rightarrow> 'z cnstate_scheme \<Rightarrow> 'z cnstate_scheme" where
  "upd_cons f s = s\<lparr>cons := f (cons s)\<rparr>"

section \<open>Registers\<close>

definition WriteReg :: "nat \<Rightarrow> u8 \<Rightarrow> 'z cnstate_scheme \<Rightarrow> 'z cnstate_scheme" where
  "WriteReg r v s = upd_uart (\<lambda>u. u\<lparr>uart_writes := uart_writes u @ [(r, v)]\<rparr>) s"

definition read_lsr :: "'z cnstate_scheme \<Rightarrow> u8 \<times> 'z cnstate_scheme" where
  "read_lsr s =
     (case lsr_feed (uart s) of [] \<Rightarrow> (0, s)
      | l # ls \<Rightarrow> (l, upd_uart (\<lambda>u. u\<lparr>lsr_feed := ls\<rparr>) s))"

definition read_rhr :: "'z cnstate_scheme \<Rightarrow> u8 \<times> 'z cnstate_scheme" where
  "read_rhr s =
     (case rhr_feed (uart s) of [] \<Rightarrow> (0, s)
      | c # cs \<Rightarrow> (c, upd_uart (\<lambda>u. u\<lparr>rhr_feed := cs\<rparr>) s))"

definition uartinit :: "'z cnstate_scheme \<Rightarrow> 'z cnstate_scheme" where
  "uartinit s =
     (let s = WriteReg IER 0 s;
          s = WriteReg LCR LCR_BAUD_LATCH s;
          s = WriteReg 0 3 s;
          s = WriteReg 1 0 s;
          s = WriteReg LCR LCR_EIGHT_BITS s;
          s = WriteReg FCR (FCR_FIFO_ENABLE OR FCR_FIFO_CLEAR) s;
          s = WriteReg IER (IER_TX_ENABLE OR IER_RX_ENABLE) s
      in initlock UartTxLock ''uart'' s)"

section \<open>Buffered output\<close>

text \<open>The store into and the load from the transmit buffer.\<close>

definition tx_put :: "u8 \<Rightarrow> uart \<Rightarrow> uart" where
  "tx_put c u = u\<lparr>uart_tx_buf := (uart_tx_buf u)[unat (uart_tx_w u) mod UART_TX_BUF_SIZE := c],
     uart_tx_w := uart_tx_w u + 1\<rparr>"

definition tx_get :: "uart \<Rightarrow> u8 \<times> uart" where
  "tx_get u = (uart_tx_buf u ! (unat (uart_tx_r u) mod UART_TX_BUF_SIZE), u\<lparr>uart_tx_r := uart_tx_r u + 1\<rparr>)"

interpretation txq: ring UART_TX_BUF_SIZE uart_tx_buf uart_tx_r uart_tx_w tx_put tx_get
  by unfold_locales (simp_all add: tx_put_def tx_get_def UART_TX_BUF_SIZE_def)

text \<open>
  \<open>uartstart_loop\<close> reads the line status once per round, so the length of the feed bounds the
  rounds.
\<close>

fun uartstart_loop :: "nat \<Rightarrow> 'z cnstate_scheme \<Rightarrow> (unit, 'z cnstate_scheme) outcome" where
  "uartstart_loop fuel s =
     (if uart_tx_w (uart s) = uart_tx_r (uart s) then Ok () s
      else case read_lsr s of (lsr, s) \<Rightarrow>
        if lsr AND LSR_TX_IDLE = 0 then Ok () s
        else (case fuel of 0 \<Rightarrow> NoFuel
          | Suc fuel \<Rightarrow>
              (case tx_get (uart s) of (c, u) \<Rightarrow>
                 bind (wakeup (Some ChanUartTx) (upd_uart (\<lambda>_. u) s)) (\<lambda>_ s.
                 uartstart_loop fuel (WriteReg THR c s)))))"

declare uartstart_loop.simps [simp del]

definition uartstart :: "'z cnstate_scheme \<Rightarrow> (unit, 'z cnstate_scheme) outcome" where
  "uartstart s = uartstart_loop (length (lsr_feed (uart s))) s"

fun uartputc_wait :: "nat \<Rightarrow> 'z cnstate_scheme \<Rightarrow> (unit, 'z cnstate_scheme) outcome" where
  "uartputc_wait n s =
     (if uart_tx_w (uart s) = uart_tx_r (uart s) + of_nat UART_TX_BUF_SIZE then
        (case n of 0 \<Rightarrow> NoFuel
         | Suc n \<Rightarrow> bind (sleep ChanUartTx UartTxLock s) (\<lambda>_ s. uartputc_wait n s))
      else Ok () s)"

declare uartputc_wait.simps [simp del]

definition uartputc :: "int \<Rightarrow> 'z cnstate_scheme \<Rightarrow> (unit, 'z cnstate_scheme) outcome" where
  "uartputc c s =
     bind (acquire UartTxLock s) (\<lambda>_ s.
       if panicked s \<noteq> 0 then Stuck
       else bind (uartputc_wait (patience s) s) (\<lambda>_ s.
         bind (uartstart (upd_uart (tx_put (of_int c)) s)) (\<lambda>_ s.
         release UartTxLock s)))"

section \<open>Synchronous output\<close>

fun tx_spin :: "u8 list \<Rightarrow> 'z cnstate_scheme \<Rightarrow> (unit, 'z cnstate_scheme) outcome" where
  "tx_spin [] s = Stuck"
| "tx_spin (l # ls) s =
     (if l AND LSR_TX_IDLE = 0 then tx_spin ls s else Ok () (upd_uart (\<lambda>u. u\<lparr>lsr_feed := ls\<rparr>) s))"

definition uartputc_sync :: "int \<Rightarrow> 'z cnstate_scheme \<Rightarrow> (unit, 'z cnstate_scheme) outcome" where
  "uartputc_sync c s =
     (let s = push_off s in
      if panicked s \<noteq> 0 then Stuck
      else bind (tx_spin (lsr_feed (uart s)) s) (\<lambda>_ s. pop_off (WriteReg THR (of_int c) s)))"

definition BACKSPACE :: int where "BACKSPACE = 0x100"

definition consputc :: "int \<Rightarrow> 'z cnstate_scheme \<Rightarrow> (unit, 'z cnstate_scheme) outcome" where
  "consputc c s =
     (if c = BACKSPACE then
        bind (uartputc_sync 8 s) (\<lambda>_ s. bind (uartputc_sync 32 s) (\<lambda>_ s. uartputc_sync 8 s))
      else uartputc_sync c s)"

definition uartgetc :: "'z cnstate_scheme \<Rightarrow> int \<times> 'z cnstate_scheme" where
  "uartgetc s =
     (case read_lsr s of (lsr, s) \<Rightarrow>
        if lsr AND LSR_RX_READY \<noteq> 0 then (case read_rhr s of (c, s) \<Rightarrow> (uint c, s)) else (-1, s))"

end
