(* ===== verification/Printf.thy ===== *)
theory Printf
  imports Uart
begin

text \<open>
  Formatted output of the kernel (\<^verbatim>\<open>kernel/printf.c\<close>) and the process listing (\<^verbatim>\<open>procdump\<close> of
  \<^verbatim>\<open>kernel/proc.c\<close>). A variable argument is a tagged value; reading an argument that is missing or of
  another kind is undefined in C and is the outcome \<open>Stuck\<close> here. \<^verbatim>\<open>panic\<close> itself, which
  never returns, is the outcome \<open>Panic\<close> everywhere in the development; \<open>panic_output\<close> is what it prints.
\<close>

datatype fmtarg = ArgInt int | ArgPtr u64 | ArgStr "u8 list option"

text \<open>The digits of a number, least significant first: the \<^verbatim>\<open>do\<close> loop of \<^verbatim>\<open>printkint\<close>.\<close>

function digits_loop :: "nat \<Rightarrow> nat \<Rightarrow> nat list" where
  "digits_loop base x =
     (if x div base \<noteq> 0 \<and> 1 < base then (x mod base) # digits_loop base (x div base) else [x mod base])"
  by pat_completeness auto
termination
proof (relation "measure snd")
  show "wf (measure (snd :: nat \<times> nat \<Rightarrow> nat))" by simp
  fix base x :: nat
  assume h: "x div base \<noteq> 0 \<and> 1 < base"
  then have "0 < x" by (cases x) auto
  then show "((base, x div base), base, x) \<in> measure snd" using h by simp
qed

declare digits_loop.simps [simp del]

definition digit_char :: "nat \<Rightarrow> u8" where
  "digit_char d = of_nat (if d < 10 then 48 + d else 87 + d)"

text \<open>The contents of \<^verbatim>\<open>buf\<close> in the order in which they are printed.\<close>

definition printkint_buf :: "int \<Rightarrow> nat \<Rightarrow> bool \<Rightarrow> u8 list" where
  "printkint_buf xx base sign =
     (let sign = (sign \<and> xx < 0);
          x = (if sign then of_int (- xx) else of_int xx) :: u32;
          buf = map digit_char (digits_loop base (unat x))
      in rev (buf @ (if sign then [45] else [])))"

fun consputs :: "u8 list \<Rightarrow> 'z cnstate_scheme \<Rightarrow> (unit, 'z cnstate_scheme) outcome" where
  "consputs [] s = Ok () s"
| "consputs (c # cs) s = bind (consputc (uint c) s) (\<lambda>_ s. consputs cs s)"

definition printkint :: "int \<Rightarrow> nat \<Rightarrow> bool \<Rightarrow> 'z cnstate_scheme \<Rightarrow> (unit, 'z cnstate_scheme) outcome" where
  "printkint xx base sign s = consputs (printkint_buf xx base sign) s"

primrec ptr_digits :: "nat \<Rightarrow> u64 \<Rightarrow> u8 list" where
  "ptr_digits 0 x = []"
| "ptr_digits (Suc i) x = digit_char (unat (drop_bit 60 x)) # ptr_digits i (push_bit 4 x)"

definition printkptr :: "u64 \<Rightarrow> 'z cnstate_scheme \<Rightarrow> (unit, 'z cnstate_scheme) outcome" where
  "printkptr x s = consputs (48 # 120 # ptr_digits 16 x) s"

definition cbytes :: "string \<Rightarrow> u8 list" where
  "cbytes str = map of_char str"

fun printfk_loop :: "string \<Rightarrow> fmtarg list \<Rightarrow> 'z cnstate_scheme \<Rightarrow> (unit, 'z cnstate_scheme) outcome" where
  "printfk_loop [] args s = Ok () s"
| "printfk_loop [c] args s = (if c \<noteq> CHR ''%'' then consputc (of_char c) s else Ok () s)"
| "printfk_loop (c # d # fmt) args s =
     (if c \<noteq> CHR ''%'' then bind (consputc (of_char c) s) (\<lambda>_ s. printfk_loop (d # fmt) args s)
      else if d = CHR ''d'' then
        (case args of ArgInt n # args \<Rightarrow> bind (printkint n 10 True s) (\<lambda>_ s. printfk_loop fmt args s) | _ \<Rightarrow> Stuck)
      else if d = CHR ''x'' then
        (case args of ArgInt n # args \<Rightarrow> bind (printkint n 16 True s) (\<lambda>_ s. printfk_loop fmt args s) | _ \<Rightarrow> Stuck)
      else if d = CHR ''p'' then
        (case args of ArgPtr p # args \<Rightarrow> bind (printkptr p s) (\<lambda>_ s. printfk_loop fmt args s) | _ \<Rightarrow> Stuck)
      else if d = CHR ''s'' then
        (case args of ArgStr str # args \<Rightarrow>
           bind (consputs (takeWhile (\<lambda>b. b \<noteq> 0) (case str of None \<Rightarrow> cbytes ''(null)'' | Some bs \<Rightarrow> bs)) s)
             (\<lambda>_ s. printfk_loop fmt args s) | _ \<Rightarrow> Stuck)
      else if d = CHR ''%'' then bind (consputc 37 s) (\<lambda>_ s. printfk_loop fmt args s)
      else bind (consputc 37 s) (\<lambda>_ s. bind (consputc (of_char d) s) (\<lambda>_ s. printfk_loop fmt args s)))"

text \<open>The format is never a null pointer: every caller passes a literal.\<close>

definition printfk :: "string \<Rightarrow> fmtarg list \<Rightarrow> 'z cnstate_scheme \<Rightarrow> (unit, 'z cnstate_scheme) outcome" where
  "printfk fmt args s =
     (let locking = pr_locking s in
      bind (if locking \<noteq> 0 then acquire PrLock s else Ok () s) (\<lambda>_ s.
      bind (printfk_loop fmt args s) (\<lambda>_ s.
      if locking \<noteq> 0 then release PrLock s else Ok () s)))"

definition printfkinit :: "'z cnstate_scheme \<Rightarrow> 'z cnstate_scheme" where
  "printfkinit s = (initlock PrLock ''pr'' s)\<lparr>pr_locking := 1\<rparr>"

definition panic_output :: "string \<Rightarrow> 'z cnstate_scheme \<Rightarrow> (unit, 'z cnstate_scheme) outcome" where
  "panic_output m s =
     bind (printfk ''panic: '' [] (s\<lparr>pr_locking := 0\<rparr>)) (\<lambda>_ s.
     bind (printfk m [] s) (\<lambda>_ s.
     bind (printfk ''\<newline>'' [] s) (\<lambda>_ s. Ok () (s\<lparr>panicked := 1\<rparr>))))"

fun state_name :: "procstate \<Rightarrow> string" where
  "state_name UNUSED = ''unused''"
| "state_name USED = ''used''"
| "state_name SLEEPING = ''sleep ''"
| "state_name RUNNABLE = ''runble''"
| "state_name RUNNING = ''run   ''"
| "state_name ZOMBIE = ''zombie''"

fun procdump_loop :: "nat list \<Rightarrow> 'z cnstate_scheme \<Rightarrow> (unit, 'z cnstate_scheme) outcome" where
  "procdump_loop [] s = Ok () s"
| "procdump_loop (p # ps) s =
     (if p_state (procs s p) = UNUSED then procdump_loop ps s
      else bind (printfk ''%d %s %s'' [ArgInt (p_pid (procs s p)),
                   ArgStr (Some (cbytes (state_name (p_state (procs s p))))), ArgStr (Some (p_name (procs s p)))] s) (\<lambda>_ s.
        bind (printfk ''\<newline>'' [] s) (\<lambda>_ s. procdump_loop ps s)))"

definition procdump :: "'z cnstate_scheme \<Rightarrow> (unit, 'z cnstate_scheme) outcome" where
  "procdump s = bind (printfk ''\<newline>'' [] s) (\<lambda>_ s. procdump_loop [0..<NPROC] s)"

end
