(* ===== verification/Console.thy ===== *)
theory Console
  imports Printf
begin

text \<open>
  The console driver (\<^verbatim>\<open>kernel/console.c\<close>) and the serial interrupt (\<^verbatim>\<open>uartintr\<close> of
  \<^verbatim>\<open>kernel/uart.c\<close>): line editing in a ring of 128 bytes with three free-running 32-bit indices,
  reading of whole lines, and writing through the transmit buffer.
\<close>

section \<open>Writing\<close>

text \<open>\<open>i\<close> counts the bytes written, \<open>k\<close> the bytes to go.\<close>

fun consolewrite_loop :: "nat \<Rightarrow> src \<Rightarrow> int \<Rightarrow> 'z cnstate_scheme \<Rightarrow> (int, 'z cnstate_scheme) outcome" where
  "consolewrite_loop 0 src i s = Ok i s"
| "consolewrite_loop (Suc k) src i s =
     bind (either_copyin (src_add src (nat i)) 1 s) (\<lambda>(r, bs) s.
       if r = -1 then Ok i s
       else bind (uartputc (uint (hd bs)) s) (\<lambda>_ s. consolewrite_loop k src (i + 1) s))"

definition consolewrite :: "src \<Rightarrow> int \<Rightarrow> 'z cnstate_scheme \<Rightarrow> (int, 'z cnstate_scheme) outcome" where
  "consolewrite src n s = consolewrite_loop (nat n) src 0 s"

section \<open>Reading\<close>

definition CTRL_D :: int where "CTRL_D = 0x44 - 0x40"
definition CTRL_P :: int where "CTRL_P = 0x50 - 0x40"
definition CTRL_U :: int where "CTRL_U = 0x55 - 0x40"
definition CTRL_H :: int where "CTRL_H = 0x48 - 0x40"

text \<open>The load \<^verbatim>\<open>cons.buf[cons.r++ % INPUT_BUF_SIZE]\<close>.\<close>

definition cons_take :: "consbuf \<Rightarrow> u8 \<times> consbuf" where
  "cons_take q = (cons_buf q ! (unat (cons_r q) mod INPUT_BUF_SIZE), q\<lparr>cons_r := cons_r q + 1\<rparr>)"

text \<open>The wait for input; \<open>False\<close> is the early return of a killed process, with the lock released.\<close>

fun consoleread_wait :: "nat \<Rightarrow> 'z cnstate_scheme \<Rightarrow> (bool, 'z cnstate_scheme) outcome" where
  "consoleread_wait fuel s =
     (if cons_r (cons s) = cons_w (cons s) then
        (case fuel of 0 \<Rightarrow> NoFuel
         | Suc fuel \<Rightarrow>
             bind (curproc s) (\<lambda>p s. bind (killed p s) (\<lambda>k s.
               if k \<noteq> 0 then bind (release ConsLock s) (\<lambda>_ s. Ok False s)
               else bind (sleep ChanConsR ConsLock s) (\<lambda>_ s. consoleread_wait fuel s))))
      else Ok True s)"

declare consoleread_wait.simps [simp del]

text \<open>
  \<open>n\<close> is the number of bytes still wanted. The result is \<open>None\<close> after the early return, otherwise what
  is left of \<open>n\<close>, with the bytes stored in a kernel destination.
\<close>

fun consoleread_loop :: "nat \<Rightarrow> nat \<Rightarrow> dst \<Rightarrow> u8 list \<Rightarrow> 'z cnstate_scheme \<Rightarrow>
    ((nat \<times> u8 list) option, 'z cnstate_scheme) outcome" where
  "consoleread_loop 0 target dst out s = Ok (Some (0, out)) s"
| "consoleread_loop (Suc n) target dst out s =
     bind (consoleread_wait (patience s) s) (\<lambda>go s.
       if \<not> go then Ok None s
       else let (c, q) = cons_take (cons s);
                s = upd_cons (\<lambda>_. q) s in
         if uint c = CTRL_D then
           Ok (Some (Suc n, out))
             (if Suc n < target then upd_cons (\<lambda>q. q\<lparr>cons_r := cons_r q - 1\<rparr>) s else s)
         else bind (either_copyout dst [c] s) (\<lambda>(r, bs) s.
           if r = -1 then Ok (Some (Suc n, out)) s
           else if c = 10 then Ok (Some (n, out @ bs)) s
           else consoleread_loop n target (dst_add dst 1) (out @ bs) s))"

definition consoleread :: "dst \<Rightarrow> int \<Rightarrow> 'z cnstate_scheme \<Rightarrow> (int \<times> u8 list, 'z cnstate_scheme) outcome" where
  "consoleread dst n s =
     bind (acquire ConsLock s) (\<lambda>_ s.
     bind (consoleread_loop (nat n) (nat n) dst [] s) (\<lambda>r s.
       case r of None \<Rightarrow> Ok (-1, []) s
       | Some (rest, out) \<Rightarrow>
           bind (release ConsLock s) (\<lambda>_ s. Ok (int (nat n - rest), out) s)))"

section \<open>Input interrupts\<close>

fun kill_line :: "nat \<Rightarrow> 'z cnstate_scheme \<Rightarrow> (unit, 'z cnstate_scheme) outcome" where
  "kill_line fuel s =
     (if cons_e (cons s) \<noteq> cons_w (cons s) \<and>
         cons_buf (cons s) ! (unat (cons_e (cons s) - 1) mod INPUT_BUF_SIZE) \<noteq> 10
      then (case fuel of 0 \<Rightarrow> NoFuel
        | Suc fuel \<Rightarrow>
            bind (consputc BACKSPACE (upd_cons (\<lambda>q. q\<lparr>cons_e := cons_e q - 1\<rparr>) s)) (\<lambda>_ s. kill_line fuel s))
      else Ok () s)"

declare kill_line.simps [simp del]

text \<open>\<open>cons_store\<close> is the store into the buffer; the flag says whether a reader is to be woken.\<close>

definition cons_store :: "int \<Rightarrow> consbuf \<Rightarrow> consbuf \<times> bool" where
  "cons_store c q =
     (let q = q\<lparr>cons_buf := (cons_buf q)[unat (cons_e q) mod INPUT_BUF_SIZE := of_int c], cons_e := cons_e q + 1\<rparr> in
      if c = 10 \<or> c = CTRL_D \<or> cons_e q - cons_r q = of_nat INPUT_BUF_SIZE
      then (q\<lparr>cons_w := cons_e q\<rparr>, True) else (q, False))"

interpretation cq: ring INPUT_BUF_SIZE cons_buf cons_r cons_e "\<lambda>c q. fst (cons_store (uint c) q)" cons_take
  by unfold_locales (simp_all add: cons_store_def cons_take_def INPUT_BUF_SIZE_def Let_def)

definition consoleintr :: "int \<Rightarrow> 'z cnstate_scheme \<Rightarrow> (unit, 'z cnstate_scheme) outcome" where
  "consoleintr c s =
     bind (acquire ConsLock s) (\<lambda>_ s.
     bind
       (if c = CTRL_P then procdump s
        else if c = CTRL_U then kill_line (unat (cons_e (cons s) - cons_w (cons s))) s
        else if c = CTRL_H \<or> c = 0x7f then
          (if cons_e (cons s) \<noteq> cons_w (cons s)
           then consputc BACKSPACE (upd_cons (\<lambda>q. q\<lparr>cons_e := cons_e q - 1\<rparr>) s)
           else Ok () s)
        else if c \<noteq> 0 \<and> cons_e (cons s) - cons_r (cons s) < of_nat INPUT_BUF_SIZE then
          (let c = (if c = 13 then 10 else c) in
           bind (consputc c s) (\<lambda>_ s.
             case cons_store c (cons s) of (q, wake) \<Rightarrow>
               (if wake then wakeup (Some ChanConsR) (upd_cons (\<lambda>_. q) s) else Ok () (upd_cons (\<lambda>_. q) s))))
        else Ok () s) (\<lambda>_ s.
     release ConsLock s))"

text \<open>Each round reads the line status, so the length of the feed bounds the rounds.\<close>

fun uartintr_loop :: "nat \<Rightarrow> 'z cnstate_scheme \<Rightarrow> (unit, 'z cnstate_scheme) outcome" where
  "uartintr_loop fuel s =
     (case uartgetc s of (c, s) \<Rightarrow>
        if c = -1 then Ok () s
        else (case fuel of 0 \<Rightarrow> NoFuel
          | Suc fuel \<Rightarrow> bind (consoleintr c s) (\<lambda>_ s. uartintr_loop fuel s)))"

declare uartintr_loop.simps [simp del]

definition uartintr :: "'z cnstate_scheme \<Rightarrow> (unit, 'z cnstate_scheme) outcome" where
  "uartintr s =
     bind (uartintr_loop (length (lsr_feed (uart s))) s) (\<lambda>_ s.
     bind (acquire UartTxLock s) (\<lambda>_ s.
     bind (uartstart s) (\<lambda>_ s.
     release UartTxLock s)))"

definition consoleinit :: "'z cnstate_scheme \<Rightarrow> 'z cnstate_scheme" where
  "consoleinit s =
     (let s = uartinit (initlock ConsLock ''cons'' s) in
      s\<lparr>devsw_read := (devsw_read s)(CONSOLE := Some Consoleread),
        devsw_write := (devsw_write s)(CONSOLE := Some Consolewrite)\<rparr>)"

end
