(* ===== verification/Bio.thy ===== *)
theory Bio
  imports Console
begin

text \<open>
  The buffer cache (\<^verbatim>\<open>kernel/bio.c\<close>): \<open>NBUF\<close> buffers on a circular doubly linked list in order of
  use, with a header at index \<open>NBUF\<close>. The pointers are the fields \<open>b_prev\<close> and \<open>b_next\<close> of the
  buffers, updated in the order in which the code updates them.
\<close>

section \<open>Operations\<close>

definition set_next :: "nat \<Rightarrow> nat \<Rightarrow> 'z vdstate_scheme \<Rightarrow> 'z vdstate_scheme" where
  "set_next b v s = upd_buf b (b_next_update (\<lambda>_. v)) s"

definition set_prev :: "nat \<Rightarrow> nat \<Rightarrow> 'z vdstate_scheme \<Rightarrow> 'z vdstate_scheme" where
  "set_prev b v s = upd_buf b (b_prev_update (\<lambda>_. v)) s"

text \<open>The four pointer stores that put \<open>b\<close> behind the header.\<close>

definition push_front :: "nat \<Rightarrow> 'z vdstate_scheme \<Rightarrow> 'z vdstate_scheme" where
  "push_front b s =
     (let s = set_next b (b_next (bufs s NBUF)) s;
          s = set_prev b NBUF s;
          s = set_prev (b_next (bufs s NBUF)) b s
      in set_next NBUF b s)"

fun binit_loop :: "nat list \<Rightarrow> 'z vdstate_scheme \<Rightarrow> 'z vdstate_scheme" where
  "binit_loop [] s = s"
| "binit_loop (b # bs) s = binit_loop bs (push_front b (initsleeplock (BufLock b) ''buffer'' s))"

definition binit :: "'z vdstate_scheme \<Rightarrow> 'z vdstate_scheme" where
  "binit s =
     (let s = initlock BcacheLock ''bcache'' s;
          s = set_prev NBUF NBUF s;
          s = set_next NBUF NBUF s
      in binit_loop [0..<NBUF] s)"

text \<open>
  The two searches of \<^verbatim>\<open>bget\<close>. Each follows the links from the header until it is back there, so
  on a well-formed list \<open>NBUF\<close> steps are enough.
\<close>

fun find_cached :: "nat \<Rightarrow> nat \<Rightarrow> u32 \<Rightarrow> u32 \<Rightarrow> 'z vdstate_scheme \<Rightarrow> (nat option, 'z vdstate_scheme) outcome" where
  "find_cached fuel b dev blockno s =
     (if b = NBUF then Ok None s
      else if b_dev (bufs s b) = dev \<and> b_blockno (bufs s b) = blockno then Ok (Some b) s
      else (case fuel of 0 \<Rightarrow> NoFuel
        | Suc fuel \<Rightarrow> find_cached fuel (b_next (bufs s b)) dev blockno s))"

fun find_unref :: "nat \<Rightarrow> nat \<Rightarrow> 'z vdstate_scheme \<Rightarrow> (nat option, 'z vdstate_scheme) outcome" where
  "find_unref fuel b s =
     (if b = NBUF then Ok None s
      else if b_refcnt (bufs s b) = 0 then Ok (Some b) s
      else (case fuel of 0 \<Rightarrow> NoFuel
        | Suc fuel \<Rightarrow> find_unref fuel (b_prev (bufs s b)) s))"

declare find_cached.simps [simp del] find_unref.simps [simp del]

definition bget :: "u32 \<Rightarrow> u32 \<Rightarrow> 'z vdstate_scheme \<Rightarrow> (nat, 'z vdstate_scheme) outcome" where
  "bget dev blockno s =
     bind (acquire BcacheLock s) (\<lambda>_ s.
     bind (find_cached NBUF (b_next (bufs s NBUF)) dev blockno s) (\<lambda>r s.
       case r of
         Some b \<Rightarrow>
           bind (release BcacheLock (upd_buf b (\<lambda>q. q\<lparr>b_refcnt := b_refcnt q + 1\<rparr>) s)) (\<lambda>_ s.
           bind (acquiresleep (BufLock b) s) (\<lambda>_ s. Ok b s))
       | None \<Rightarrow>
           bind (find_unref NBUF (b_prev (bufs s NBUF)) s) (\<lambda>r s.
             case r of
               Some b \<Rightarrow>
                 bind (release BcacheLock
                   (upd_buf b (\<lambda>q. q\<lparr>b_dev := dev, b_blockno := blockno, b_valid := 0, b_refcnt := 1\<rparr>) s)) (\<lambda>_ s.
                 bind (acquiresleep (BufLock b) s) (\<lambda>_ s. Ok b s))
             | None \<Rightarrow> Panic ''bget: no buffers'')))"

definition bread :: "u32 \<Rightarrow> u32 \<Rightarrow> 'z vdstate_scheme \<Rightarrow> (nat, 'z vdstate_scheme) outcome" where
  "bread dev blockno s =
     bind (bget dev blockno s) (\<lambda>b s.
       if b_valid (bufs s b) = 0 then
         bind (virtio_disk_rw b False s) (\<lambda>_ s. Ok b (upd_buf b (b_valid_update (\<lambda>_. 1)) s))
       else Ok b s)"

definition bwrite :: "nat \<Rightarrow> 'z vdstate_scheme \<Rightarrow> (unit, 'z vdstate_scheme) outcome" where
  "bwrite b s =
     bind (holdingsleep (BufLock b) s) (\<lambda>h s.
       if \<not> h then Panic ''bwrite'' else virtio_disk_rw b True s)"

definition unlink_buf :: "nat \<Rightarrow> 'z vdstate_scheme \<Rightarrow> 'z vdstate_scheme" where
  "unlink_buf b s =
     (let s = set_prev (b_next (bufs s b)) (b_prev (bufs s b)) s
      in set_next (b_prev (bufs s b)) (b_next (bufs s b)) s)"

definition brelse :: "nat \<Rightarrow> 'z vdstate_scheme \<Rightarrow> (unit, 'z vdstate_scheme) outcome" where
  "brelse b s =
     bind (holdingsleep (BufLock b) s) (\<lambda>h s.
       if \<not> h then Panic ''brelse''
       else bind (releasesleep (BufLock b) s) (\<lambda>_ s.
         with_lock BcacheLock (\<lambda>s.
           let s = upd_buf b (\<lambda>q. q\<lparr>b_refcnt := b_refcnt q - 1\<rparr>) s in
           Ok () (if b_refcnt (bufs s b) = 0 then push_front b (unlink_buf b s) else s)) s))"

definition bpin :: "nat \<Rightarrow> 'z vdstate_scheme \<Rightarrow> (unit, 'z vdstate_scheme) outcome" where
  "bpin b s = with_lock BcacheLock (\<lambda>s. Ok () (upd_buf b (\<lambda>q. q\<lparr>b_refcnt := b_refcnt q + 1\<rparr>) s)) s"

definition bunpin :: "nat \<Rightarrow> 'z vdstate_scheme \<Rightarrow> (unit, 'z vdstate_scheme) outcome" where
  "bunpin b s = with_lock BcacheLock (\<lambda>s. Ok () (upd_buf b (\<lambda>q. q\<lparr>b_refcnt := b_refcnt q - 1\<rparr>) s)) s"

text \<open>\<open>set_data\<close> is a store through \<^verbatim>\<open>bp->data\<close> by a client that holds the buffer.\<close>

definition set_data :: "nat \<Rightarrow> u8 list \<Rightarrow> 'z vdstate_scheme \<Rightarrow> 'z vdstate_scheme" where
  "set_data b bs s = upd_buf b (b_data_update (\<lambda>_. bs)) s"

definition bdata :: "nat \<Rightarrow> 'z vdstate_scheme \<Rightarrow> u8 list" where
  "bdata b s = b_data (bufs s b)"

section \<open>Structures inside a block\<close>

text \<open>
  Reads and writes through a pointer to a structure that overlays the data of a buffer: \<open>off\<close> is the offset of
  the field.
\<close>

definition put_at :: "u8 list \<Rightarrow> nat \<Rightarrow> u8 list \<Rightarrow> u8 list" where
  "put_at d off bs = take off d @ bs @ drop (off + length bs) d"

definition get16 :: "u8 list \<Rightarrow> nat \<Rightarrow> u16" where
  "get16 d off = word_of (take 2 (drop off d))"

definition get32 :: "u8 list \<Rightarrow> nat \<Rightarrow> u32" where
  "get32 d off = word_of (take 4 (drop off d))"

definition put16 :: "u8 list \<Rightarrow> nat \<Rightarrow> u16 \<Rightarrow> u8 list" where
  "put16 d off v = put_at d off (bytes_of 2 v)"

definition put32 :: "u8 list \<Rightarrow> nat \<Rightarrow> u32 \<Rightarrow> u8 list" where
  "put32 d off v = put_at d off (bytes_of 4 v)"

end
