(* ===== verification/Log.thy ===== *)
theory Log
  imports Bio
begin

text \<open>
  The write-ahead log (\<^verbatim>\<open>kernel/log.c\<close>): system calls bracket their updates with \<^verbatim>\<open>begin_op\<close> and
  \<^verbatim>\<open>end_op\<close>; modified blocks are pinned in the cache and listed in the header; the last \<^verbatim>\<open>end_op\<close>
  copies them to the log, writes the header, installs them and clears the header.
\<close>

section \<open>State\<close>

record superblock =
  sb_magic :: u32
  sb_size :: u32
  sb_nblocks :: u32
  sb_ninodes :: u32
  sb_nlog :: u32
  sb_logstart :: u32
  sb_inodestart :: u32
  sb_bmapstart :: u32

text \<open>
  \<^verbatim>\<open>block\<close> has \<open>LOGSIZE\<close> entries in the source; the model indexes it with a natural number, and the
  invariant of the log keeps the index below \<open>LOGSIZE\<close>.
\<close>

record logheader =
  lh_n :: int
  lh_block :: "nat \<Rightarrow> int"

record klog =
  log_start :: int
  log_size :: int
  outstanding :: int
  committing :: int
  log_dev :: int
  log_lh :: logheader

record lgstate = cnstate +
  klog :: klog

text \<open>These fields are no part of the locking state.\<close>

lemma klog_frame [simp]:
  "grab lk (klog_update g s) = klog_update g (grab lk s)" "norm (klog_update g s) = klog_update g (norm s)"
  "hart_ok (klog_update g s) = hart_ok s" "lock_free lk (klog_update g s) = lock_free lk s"
  "klog (grab lk s) = klog s" "klog (norm s) = klog s"
  "klog_update (\<lambda>_. klog s) (grab lk s) = grab lk s" "klog_update (\<lambda>_. klog s) (norm s) = norm s"
  by (simp_all add: grab_def norm_def hart_ok_def lock_free_def spinlock_defs Let_def)

definition upd_log :: "(klog \<Rightarrow> klog) \<Rightarrow> 'z lgstate_scheme \<Rightarrow> 'z lgstate_scheme" where
  "upd_log f s = s\<lparr>klog := f (klog s)\<rparr>"

definition upd_lh :: "(logheader \<Rightarrow> logheader) \<Rightarrow> 'z lgstate_scheme \<Rightarrow> 'z lgstate_scheme" where
  "upd_lh f s = upd_log (\<lambda>l. l\<lparr>log_lh := f (log_lh l)\<rparr>) s"

abbreviation lhn :: "'z lgstate_scheme \<Rightarrow> int" where "lhn s \<equiv> lh_n (log_lh (klog s))"
abbreviation lhblock :: "'z lgstate_scheme \<Rightarrow> nat \<Rightarrow> int" where "lhblock s \<equiv> lh_block (log_lh (klog s))"

text \<open>\<^verbatim>\<open>bread(log.dev, n)\<close>: the arguments are converted to unsigned.\<close>

definition log_bread :: "int \<Rightarrow> 'z lgstate_scheme \<Rightarrow> (nat, 'z lgstate_scheme) outcome" where
  "log_bread n s = bread (of_int (log_dev (klog s))) (of_int n) s"

section \<open>Header and log blocks\<close>

definition copy_block :: "nat \<Rightarrow> nat \<Rightarrow> 'z vdstate_scheme \<Rightarrow> 'z vdstate_scheme" where
  "copy_block d b s = set_data d (put_at (bdata d s) 0 (take BSIZE (bdata b s))) s"

fun install_trans_loop :: "nat list \<Rightarrow> bool \<Rightarrow> 'z lgstate_scheme \<Rightarrow> (unit, 'z lgstate_scheme) outcome" where
  "install_trans_loop [] recovering s = Ok () s"
| "install_trans_loop (tail # ts) recovering s =
     bind (log_bread (log_start (klog s) + int tail + 1) s) (\<lambda>lbuf s.
     bind (log_bread (lhblock s tail) s) (\<lambda>dbuf s.
     bind (bwrite dbuf (copy_block dbuf lbuf s)) (\<lambda>_ s.
     bind (if \<not> recovering then bunpin dbuf s else Ok () s) (\<lambda>_ s.
     bind (brelse lbuf s) (\<lambda>_ s.
     bind (brelse dbuf s) (\<lambda>_ s.
     install_trans_loop ts recovering s))))))"

definition install_trans :: "bool \<Rightarrow> 'z lgstate_scheme \<Rightarrow> (unit, 'z lgstate_scheme) outcome" where
  "install_trans recovering s = install_trans_loop [0..<nat (lhn s)] recovering s"

primrec read_head_loop :: "nat \<Rightarrow> nat \<Rightarrow> u8 list \<Rightarrow> (nat \<Rightarrow> int) \<Rightarrow> (nat \<Rightarrow> int)" where
  "read_head_loop 0 i d blk = blk"
| "read_head_loop (Suc k) i d blk = read_head_loop k (Suc i) d (blk(i := sint (get32 d (4 + 4 * i))))"

definition read_head :: "'z lgstate_scheme \<Rightarrow> (unit, 'z lgstate_scheme) outcome" where
  "read_head s =
     bind (log_bread (log_start (klog s)) s) (\<lambda>b s.
       let n = sint (get32 (bdata b s) 0) in
       brelse b (upd_lh (\<lambda>h. h\<lparr>lh_n := n, lh_block := read_head_loop (nat n) 0 (bdata b s) (lh_block h)\<rparr>) s))"

primrec write_head_loop :: "nat \<Rightarrow> nat \<Rightarrow> (nat \<Rightarrow> int) \<Rightarrow> u8 list \<Rightarrow> u8 list" where
  "write_head_loop 0 i blk d = d"
| "write_head_loop (Suc k) i blk d = write_head_loop k (Suc i) blk (put32 d (4 + 4 * i) (of_int (blk i)))"

definition head_data :: "logheader \<Rightarrow> u8 list \<Rightarrow> u8 list" where
  "head_data h d = write_head_loop (nat (lh_n h)) 0 (lh_block h) (put32 d 0 (of_int (lh_n h)))"

definition write_head :: "'z lgstate_scheme \<Rightarrow> (unit, 'z lgstate_scheme) outcome" where
  "write_head s =
     bind (log_bread (log_start (klog s)) s) (\<lambda>b s.
     bind (bwrite b (set_data b (head_data (log_lh (klog s)) (bdata b s)) s)) (\<lambda>_ s.
     brelse b s))"

definition recover_from_log :: "'z lgstate_scheme \<Rightarrow> (unit, 'z lgstate_scheme) outcome" where
  "recover_from_log s =
     bind (read_head s) (\<lambda>_ s.
     bind (install_trans True s) (\<lambda>_ s.
     write_head (upd_lh (\<lambda>h. h\<lparr>lh_n := 0\<rparr>) s)))"

definition initlog :: "int \<Rightarrow> superblock \<Rightarrow> 'z lgstate_scheme \<Rightarrow> (unit, 'z lgstate_scheme) outcome" where
  "initlog dev sb s =
     (if BSIZE \<le> 4 + 4 * LOGSIZE then Panic ''initlog: too big logheader''
      else recover_from_log (upd_log (\<lambda>l. l\<lparr>log_start := sint (sb_logstart sb), log_size := sint (sb_nlog sb),
        log_dev := dev\<rparr>) (initlock LogLock ''log'' s)))"

section \<open>Transactions\<close>

fun begin_op_loop :: "nat \<Rightarrow> 'z lgstate_scheme \<Rightarrow> (unit, 'z lgstate_scheme) outcome" where
  "begin_op_loop n s =
     (if committing (klog s) \<noteq> 0 \<or>
         lhn s + (outstanding (klog s) + 1) * int MAXOPBLOCKS > int LOGSIZE
      then (case n of 0 \<Rightarrow> NoFuel
        | Suc n \<Rightarrow> bind (sleep ChanLog LogLock s) (\<lambda>_ s. begin_op_loop n s))
      else release LogLock (upd_log (\<lambda>l. l\<lparr>outstanding := outstanding l + 1\<rparr>) s))"

declare begin_op_loop.simps [simp del]

definition begin_op :: "'z lgstate_scheme \<Rightarrow> (unit, 'z lgstate_scheme) outcome" where
  "begin_op s = bind (acquire LogLock s) (\<lambda>_ s. begin_op_loop (patience s) s)"

fun write_log_loop :: "nat list \<Rightarrow> 'z lgstate_scheme \<Rightarrow> (unit, 'z lgstate_scheme) outcome" where
  "write_log_loop [] s = Ok () s"
| "write_log_loop (tail # ts) s =
     bind (log_bread (log_start (klog s) + int tail + 1) s) (\<lambda>to s.
     bind (log_bread (lhblock s tail) s) (\<lambda>frm s.
     bind (bwrite to (copy_block to frm s)) (\<lambda>_ s.
     bind (brelse frm s) (\<lambda>_ s.
     bind (brelse to s) (\<lambda>_ s.
     write_log_loop ts s)))))"

definition write_log :: "'z lgstate_scheme \<Rightarrow> (unit, 'z lgstate_scheme) outcome" where
  "write_log s = write_log_loop [0..<nat (lhn s)] s"

definition commit :: "'z lgstate_scheme \<Rightarrow> (unit, 'z lgstate_scheme) outcome" where
  "commit s =
     (if lhn s > 0 then
        bind (write_log s) (\<lambda>_ s.
        bind (write_head s) (\<lambda>_ s.
        bind (install_trans False s) (\<lambda>_ s.
        write_head (upd_lh (\<lambda>h. h\<lparr>lh_n := 0\<rparr>) s))))
      else Ok () s)"

definition end_op :: "'z lgstate_scheme \<Rightarrow> (unit, 'z lgstate_scheme) outcome" where
  "end_op s =
     bind (acquire LogLock s) (\<lambda>_ s.
       let s = upd_log (\<lambda>l. l\<lparr>outstanding := outstanding l - 1\<rparr>) s in
       if committing (klog s) \<noteq> 0 then Panic ''log.committing''
       else if outstanding (klog s) = 0 then
         bind (release LogLock (upd_log (\<lambda>l. l\<lparr>committing := 1\<rparr>) s)) (\<lambda>_ s.
         bind (commit s) (\<lambda>_ s.
         bind (acquire LogLock s) (\<lambda>_ s.
         bind (wakeup (Some ChanLog) (upd_log (\<lambda>l. l\<lparr>committing := 0\<rparr>) s)) (\<lambda>_ s.
         release LogLock s))))
       else bind (wakeup (Some ChanLog) s) (\<lambda>_ s. release LogLock s))"

fun log_find :: "nat \<Rightarrow> nat \<Rightarrow> (nat \<Rightarrow> int) \<Rightarrow> u32 \<Rightarrow> nat" where
  "log_find 0 i blk bno = i"
| "log_find (Suc k) i blk bno = (if of_int (blk i) = bno then i else log_find k (Suc i) blk bno)"

definition log_write :: "nat \<Rightarrow> 'z lgstate_scheme \<Rightarrow> (unit, 'z lgstate_scheme) outcome" where
  "log_write b s =
     with_lock LogLock (\<lambda>s.
       if lhn s \<ge> int LOGSIZE \<or> lhn s \<ge> log_size (klog s) - 1 then Panic ''too big a transaction''
       else if outstanding (klog s) < 1 then Panic ''log_write outside of trans''
       else let i = log_find (nat (lhn s)) 0 (lhblock s) (b_blockno (bufs s b));
                s = upd_lh (\<lambda>h. h\<lparr>lh_block := (lh_block h)(i := sint (b_blockno (bufs s b)))\<rparr>) s in
         if int i = lhn s then
           bind (bpin b s) (\<lambda>_ s. Ok () (upd_lh (\<lambda>h. h\<lparr>lh_n := lh_n h + 1\<rparr>) s))
         else Ok () s) s"

end
