(* ===== verification/Fs.thy ===== *)
theory Fs
  imports Log
begin

text \<open>
  The file system below system calls (\<^verbatim>\<open>kernel/fs.c\<close>, \<^verbatim>\<open>kernel/fs.h\<close>, the inode of
  \<^verbatim>\<open>kernel/file.h\<close>): block allocation, inodes and the inode table, file contents. An inode pointer
  is an index into \<^verbatim>\<open>itable.inode\<close>. On-disk structures are read and written at the byte offsets the
  C compiler gives their fields.
\<close>

section \<open>Constants and state\<close>

definition ROOTINO :: u32 where "ROOTINO = 1"
definition FSMAGIC :: u32 where "FSMAGIC = 0x10203040"
definition NDIRECT :: nat where "NDIRECT = 12"
definition NINDIRECT :: nat where "NINDIRECT = BSIZE div 4"
definition MAXFILE :: nat where "MAXFILE = NDIRECT + NINDIRECT"
definition DINODE_SIZE :: nat where "DINODE_SIZE = 64"
definition IPB :: nat where "IPB = BSIZE div DINODE_SIZE"
definition BPB :: nat where "BPB = BSIZE * 8"
definition DIRSIZ :: nat where "DIRSIZ = 14"
definition DIRENT_SIZE :: nat where "DIRENT_SIZE = 16"

definition T_DIR :: u16 where "T_DIR = 1"
definition T_FILE :: u16 where "T_FILE = 2"
definition T_DEVICE :: u16 where "T_DEVICE = 3"

record inode =
  i_dev :: u32
  i_inum :: u32
  i_ref :: int
  i_valid :: int
  i_type :: u16
  i_major :: u16
  i_minor :: u16
  i_nlink :: u16
  i_size :: u32
  i_addrs :: "u32 list"

text \<open>\<open>stat_pad\<close> are the indeterminate padding bytes of the local \<^verbatim>\<open>struct stat\<close> of \<^verbatim>\<open>filestat\<close>.\<close>

record fsstate = lgstate +
  sb :: superblock
  inodes :: "nat \<Rightarrow> inode"
  stat_pad :: "u8 list"

text \<open>These fields are no part of the locking state.\<close>

lemma sb_frame [simp]:
  "grab lk (sb_update g s) = sb_update g (grab lk s)" "norm (sb_update g s) = sb_update g (norm s)"
  "hart_ok (sb_update g s) = hart_ok s" "lock_free lk (sb_update g s) = lock_free lk s"
  "sb (grab lk s) = sb s" "sb (norm s) = sb s"
  "sb_update (\<lambda>_. sb s) (grab lk s) = grab lk s" "sb_update (\<lambda>_. sb s) (norm s) = norm s"
  by (simp_all add: grab_def norm_def hart_ok_def lock_free_def spinlock_defs Let_def)

lemma inodes_frame [simp]:
  "grab lk (inodes_update g s) = inodes_update g (grab lk s)" "norm (inodes_update g s) = inodes_update g (norm s)"
  "hart_ok (inodes_update g s) = hart_ok s" "lock_free lk (inodes_update g s) = lock_free lk s"
  "inodes (grab lk s) = inodes s" "inodes (norm s) = inodes s"
  "inodes_update (\<lambda>_. inodes s) (grab lk s) = grab lk s" "inodes_update (\<lambda>_. inodes s) (norm s) = norm s"
  by (simp_all add: grab_def norm_def hart_ok_def lock_free_def spinlock_defs Let_def)

definition upd_inode :: "nat \<Rightarrow> (inode \<Rightarrow> inode) \<Rightarrow> 'z fsstate_scheme \<Rightarrow> 'z fsstate_scheme" where
  "upd_inode ip f s = s\<lparr>inodes := (inodes s)(ip := f (inodes s ip))\<rparr>"

definition IBLOCK :: "u32 \<Rightarrow> superblock \<Rightarrow> u32" where
  "IBLOCK i sbk = of_nat (unat i div IPB) + sb_inodestart sbk"

definition BBLOCK :: "nat \<Rightarrow> superblock \<Rightarrow> u32" where
  "BBLOCK b sbk = of_nat (b div BPB) + sb_bmapstart sbk"

section \<open>The superblock\<close>

definition superblock_of :: "u8 list \<Rightarrow> superblock" where
  "superblock_of d = \<lparr>sb_magic = get32 d 0, sb_size = get32 d 4, sb_nblocks = get32 d 8, sb_ninodes = get32 d 12,
     sb_nlog = get32 d 16, sb_logstart = get32 d 20, sb_inodestart = get32 d 24, sb_bmapstart = get32 d 28\<rparr>"

definition readsb :: "int \<Rightarrow> 'z fsstate_scheme \<Rightarrow> (unit, 'z fsstate_scheme) outcome" where
  "readsb dev s =
     bind (bread (of_int dev) 1 s) (\<lambda>bp s. brelse bp (s\<lparr>sb := superblock_of (bdata bp s)\<rparr>))"

definition fsinit :: "int \<Rightarrow> 'z fsstate_scheme \<Rightarrow> (unit, 'z fsstate_scheme) outcome" where
  "fsinit dev s =
     bind (readsb dev s) (\<lambda>_ s.
       if sb_magic (sb s) \<noteq> FSMAGIC then Panic ''invalid file system''
       else initlog dev (sb s) s)"

section \<open>Blocks\<close>

definition bzero :: "u32 \<Rightarrow> u32 \<Rightarrow> 'z fsstate_scheme \<Rightarrow> (unit, 'z fsstate_scheme) outcome" where
  "bzero dev bno s =
     bind (bread dev bno s) (\<lambda>bp s.
     bind (log_write bp (set_data bp (put_at (bdata bp s) 0 (replicate BSIZE 0)) s)) (\<lambda>_ s.
     brelse bp s))"

definition bit_mask :: "nat \<Rightarrow> u8" where
  "bit_mask bi = push_bit (bi mod 8) 1"

text \<open>The search for a clear bit in one bitmap block; \<open>b\<close> is the number of its first bit.\<close>

fun bitmap_find :: "nat list \<Rightarrow> nat \<Rightarrow> nat \<Rightarrow> u8 list \<Rightarrow> nat option" where
  "bitmap_find [] b sz d = None"
| "bitmap_find (bi # bis) b sz d =
     (if b + bi < sz then
        if d ! (bi div 8) AND bit_mask bi = 0 then Some bi else bitmap_find bis b sz d
      else None)"

definition set_bit_at :: "nat \<Rightarrow> u8 list \<Rightarrow> u8 list" where
  "set_bit_at bi d = d[bi div 8 := d ! (bi div 8) OR bit_mask bi]"

definition clear_bit_at :: "nat \<Rightarrow> u8 list \<Rightarrow> u8 list" where
  "clear_bit_at bi d = d[bi div 8 := d ! (bi div 8) AND NOT (bit_mask bi)]"

fun balloc_loop :: "nat list \<Rightarrow> u32 \<Rightarrow> 'z fsstate_scheme \<Rightarrow> (u32, 'z fsstate_scheme) outcome" where
  "balloc_loop [] dev s = bind (printfk ''balloc: out of blocks\<newline>'' [] s) (\<lambda>_ s. Ok 0 s)"
| "balloc_loop (b # bs) dev s =
     bind (bread dev (BBLOCK b (sb s)) s) (\<lambda>bp s.
       case bitmap_find [0..<BPB] b (unat (sb_size (sb s))) (bdata bp s) of
         Some bi \<Rightarrow>
           bind (log_write bp (set_data bp (set_bit_at bi (bdata bp s)) s)) (\<lambda>_ s.
           bind (brelse bp s) (\<lambda>_ s.
           bind (bzero dev (of_nat (b + bi)) s) (\<lambda>_ s. Ok (of_nat (b + bi)) s)))
       | None \<Rightarrow> bind (brelse bp s) (\<lambda>_ s. balloc_loop bs dev s))"

text \<open>The values of \<^verbatim>\<open>b\<close> in the outer loop: the multiples of \<open>BPB\<close> below the size of the disk.\<close>

definition balloc :: "u32 \<Rightarrow> 'z fsstate_scheme \<Rightarrow> (u32, 'z fsstate_scheme) outcome" where
  "balloc dev s = balloc_loop (map (\<lambda>k. k * BPB) [0..<(unat (sb_size (sb s)) + BPB - 1) div BPB]) dev s"

definition bfree :: "u32 \<Rightarrow> u32 \<Rightarrow> 'z fsstate_scheme \<Rightarrow> (unit, 'z fsstate_scheme) outcome" where
  "bfree dev b s =
     bind (bread dev (BBLOCK (unat b) (sb s)) s) (\<lambda>bp s.
       let bi = unat b mod BPB in
       if bdata bp s ! (bi div 8) AND bit_mask bi = 0 then Panic ''freeing free block''
       else bind (log_write bp (set_data bp (clear_bit_at bi (bdata bp s)) s)) (\<lambda>_ s. brelse bp s))"

section \<open>The inode table\<close>

fun iinit_loop :: "nat list \<Rightarrow> 'z slstate_scheme \<Rightarrow> 'z slstate_scheme" where
  "iinit_loop [] s = s"
| "iinit_loop (i # is) s = iinit_loop is (initsleeplock (InodeLock i) ''inode'' s)"

definition iinit :: "'z fsstate_scheme \<Rightarrow> 'z fsstate_scheme" where
  "iinit s = iinit_loop [0..<NINODE] (initlock ItableLock ''itable'' s)"

fun iget_find :: "nat list \<Rightarrow> u32 \<Rightarrow> u32 \<Rightarrow> nat option \<Rightarrow> 'z fsstate_scheme \<Rightarrow> nat option \<times> nat option" where
  "iget_find [] dev inum spare s = (None, spare)"
| "iget_find (ip # ips) dev inum spare s =
     (if i_ref (inodes s ip) > 0 \<and> i_dev (inodes s ip) = dev \<and> i_inum (inodes s ip) = inum then (Some ip, spare)
      else iget_find ips dev inum
        (if spare = None \<and> i_ref (inodes s ip) = 0 then Some ip else spare) s)"

definition iget :: "u32 \<Rightarrow> u32 \<Rightarrow> 'z fsstate_scheme \<Rightarrow> (nat, 'z fsstate_scheme) outcome" where
  "iget dev inum s =
     with_lock ItableLock (\<lambda>s.
       case iget_find [0..<NINODE] dev inum None s of
         (Some ip, _) \<Rightarrow> Ok ip (upd_inode ip (\<lambda>i. i\<lparr>i_ref := i_ref i + 1\<rparr>) s)
       | (None, None) \<Rightarrow> Panic ''iget: no inodes''
       | (None, Some ip) \<Rightarrow>
           Ok ip (upd_inode ip (\<lambda>i. i\<lparr>i_dev := dev, i_inum := inum, i_ref := 1, i_valid := 0\<rparr>) s)) s"

text \<open>Offset of an inode in its block, and its fields there.\<close>

definition dip_off :: "u32 \<Rightarrow> nat" where
  "dip_off inum = unat inum mod IPB * DINODE_SIZE"

fun put_addrs :: "u32 list \<Rightarrow> nat \<Rightarrow> u8 list \<Rightarrow> u8 list" where
  "put_addrs [] off d = d"
| "put_addrs (a # as) off d = put_addrs as (off + 4) (put32 d off a)"

definition put_dinode :: "inode \<Rightarrow> nat \<Rightarrow> u8 list \<Rightarrow> u8 list" where
  "put_dinode i off d =
     (let d = put16 d off (i_type i);
          d = put16 d (off + 2) (i_major i);
          d = put16 d (off + 4) (i_minor i);
          d = put16 d (off + 6) (i_nlink i);
          d = put32 d (off + 8) (i_size i)
      in put_addrs (i_addrs i) (off + 12) d)"

definition get_dinode :: "u8 list \<Rightarrow> nat \<Rightarrow> inode \<Rightarrow> inode" where
  "get_dinode d off i = i\<lparr>i_type := get16 d off, i_major := get16 d (off + 2), i_minor := get16 d (off + 4),
     i_nlink := get16 d (off + 6), i_size := get32 d (off + 8),
     i_addrs := map (\<lambda>k. get32 d (off + 12 + 4 * k)) [0..<NDIRECT + 1]\<rparr>"

fun ialloc_loop :: "nat list \<Rightarrow> u32 \<Rightarrow> u16 \<Rightarrow> 'z fsstate_scheme \<Rightarrow> (nat option, 'z fsstate_scheme) outcome" where
  "ialloc_loop [] dev type s = bind (printfk ''ialloc: no inodes\<newline>'' [] s) (\<lambda>_ s. Ok None s)"
| "ialloc_loop (inum # inums) dev type s =
     bind (bread dev (IBLOCK (of_nat inum) (sb s)) s) (\<lambda>bp s.
       let off = dip_off (of_nat inum) in
       if get16 (bdata bp s) off = 0 then
         let s = set_data bp (put16 (put_at (bdata bp s) off (replicate DINODE_SIZE 0)) off type) s in
         bind (log_write bp s) (\<lambda>_ s.
         bind (brelse bp s) (\<lambda>_ s.
         bind (iget dev (of_nat inum) s) (\<lambda>ip s. Ok (Some ip) s)))
       else bind (brelse bp s) (\<lambda>_ s. ialloc_loop inums dev type s))"

definition ialloc :: "u32 \<Rightarrow> u16 \<Rightarrow> 'z fsstate_scheme \<Rightarrow> (nat option, 'z fsstate_scheme) outcome" where
  "ialloc dev type s = ialloc_loop [1..<unat (sb_ninodes (sb s))] dev type s"

definition iupdate :: "nat \<Rightarrow> 'z fsstate_scheme \<Rightarrow> (unit, 'z fsstate_scheme) outcome" where
  "iupdate ip s =
     bind (bread (i_dev (inodes s ip)) (IBLOCK (i_inum (inodes s ip)) (sb s)) s) (\<lambda>bp s.
       let i = inodes s ip in
       bind (log_write bp (set_data bp (put_dinode i (dip_off (i_inum i)) (bdata bp s)) s)) (\<lambda>_ s.
       brelse bp s))"

definition idup :: "nat \<Rightarrow> 'z fsstate_scheme \<Rightarrow> (nat, 'z fsstate_scheme) outcome" where
  "idup ip s = with_lock ItableLock (\<lambda>s. Ok ip (upd_inode ip (\<lambda>i. i\<lparr>i_ref := i_ref i + 1\<rparr>) s)) s"

definition ilock :: "nat \<Rightarrow> 'z fsstate_scheme \<Rightarrow> (unit, 'z fsstate_scheme) outcome" where
  "ilock ip s =
     (if i_ref (inodes s ip) < 1 then Panic ''ilock''
      else bind (acquiresleep (InodeLock ip) s) (\<lambda>_ s.
        if i_valid (inodes s ip) = 0 then
          bind (bread (i_dev (inodes s ip)) (IBLOCK (i_inum (inodes s ip)) (sb s)) s) (\<lambda>bp s.
          bind (brelse bp (upd_inode ip (get_dinode (bdata bp s) (dip_off (i_inum (inodes s ip)))) s)) (\<lambda>_ s.
          let s = upd_inode ip (i_valid_update (\<lambda>_. 1)) s in
          if i_type (inodes s ip) = 0 then Panic ''ilock: no type'' else Ok () s))
        else Ok () s))"

definition iunlock :: "nat \<Rightarrow> 'z fsstate_scheme \<Rightarrow> (unit, 'z fsstate_scheme) outcome" where
  "iunlock ip s =
     bind (holdingsleep (InodeLock ip) s) (\<lambda>h s.
       if \<not> h \<or> i_ref (inodes s ip) < 1 then Panic ''iunlock''
       else releasesleep (InodeLock ip) s)"

section \<open>Truncation and release\<close>

fun itrunc_direct :: "nat list \<Rightarrow> nat \<Rightarrow> 'z fsstate_scheme \<Rightarrow> (unit, 'z fsstate_scheme) outcome" where
  "itrunc_direct [] ip s = Ok () s"
| "itrunc_direct (i # is) ip s =
     (if i_addrs (inodes s ip) ! i \<noteq> 0 then
        bind (bfree (i_dev (inodes s ip)) (i_addrs (inodes s ip) ! i) s) (\<lambda>_ s.
        itrunc_direct is ip (upd_inode ip (\<lambda>q. q\<lparr>i_addrs := (i_addrs q)[i := 0]\<rparr>) s))
      else itrunc_direct is ip s)"

fun itrunc_indirect :: "nat list \<Rightarrow> nat \<Rightarrow> nat \<Rightarrow> 'z fsstate_scheme \<Rightarrow> (unit, 'z fsstate_scheme) outcome" where
  "itrunc_indirect [] bp ip s = Ok () s"
| "itrunc_indirect (j # js) bp ip s =
     (let a = get32 (bdata bp s) (4 * j) in
      if a \<noteq> 0 then bind (bfree (i_dev (inodes s ip)) a s) (\<lambda>_ s. itrunc_indirect js bp ip s)
      else itrunc_indirect js bp ip s)"

definition itrunc :: "nat \<Rightarrow> 'z fsstate_scheme \<Rightarrow> (unit, 'z fsstate_scheme) outcome" where
  "itrunc ip s =
     bind (itrunc_direct [0..<NDIRECT] ip s) (\<lambda>_ s.
     bind
       (if i_addrs (inodes s ip) ! NDIRECT \<noteq> 0 then
          bind (bread (i_dev (inodes s ip)) (i_addrs (inodes s ip) ! NDIRECT) s) (\<lambda>bp s.
          bind (itrunc_indirect [0..<NINDIRECT] bp ip s) (\<lambda>_ s.
          bind (brelse bp s) (\<lambda>_ s.
          bind (bfree (i_dev (inodes s ip)) (i_addrs (inodes s ip) ! NDIRECT) s) (\<lambda>_ s.
          Ok () (upd_inode ip (\<lambda>q. q\<lparr>i_addrs := (i_addrs q)[NDIRECT := 0]\<rparr>) s)))))
        else Ok () s) (\<lambda>_ s.
     iupdate ip (upd_inode ip (i_size_update (\<lambda>_. 0)) s)))"

definition iput :: "nat \<Rightarrow> 'z fsstate_scheme \<Rightarrow> (unit, 'z fsstate_scheme) outcome" where
  "iput ip s =
     bind (acquire ItableLock s) (\<lambda>_ s.
     bind
       (if i_ref (inodes s ip) = 1 \<and> i_valid (inodes s ip) \<noteq> 0 \<and> i_nlink (inodes s ip) = 0 then
          bind (acquiresleep (InodeLock ip) s) (\<lambda>_ s.
          bind (release ItableLock s) (\<lambda>_ s.
          bind (itrunc ip s) (\<lambda>_ s.
          bind (iupdate ip (upd_inode ip (i_type_update (\<lambda>_. 0)) s)) (\<lambda>_ s.
          bind (releasesleep (InodeLock ip) (upd_inode ip (i_valid_update (\<lambda>_. 0)) s)) (\<lambda>_ s.
          acquire ItableLock s)))))
        else Ok () s) (\<lambda>_ s.
     release ItableLock (upd_inode ip (\<lambda>i. i\<lparr>i_ref := i_ref i - 1\<rparr>) s)))"

definition iunlockput :: "nat \<Rightarrow> 'z fsstate_scheme \<Rightarrow> (unit, 'z fsstate_scheme) outcome" where
  "iunlockput ip s = bind (iunlock ip s) (\<lambda>_ s. iput ip s)"

end
