(* ===== verification/FsData.thy ===== *)
theory FsData
  imports Fs Cstring
begin

text \<open>
  File contents, directories and paths (the second half of \<^verbatim>\<open>kernel/fs.c\<close>). Offsets and counts inside
  the loops are natural numbers: the checks at the entry of \<^verbatim>\<open>readi\<close> and \<^verbatim>\<open>writei\<close> exclude that
  \<^verbatim>\<open>off + n\<close> wraps around. A path is the list of its bytes without the final NUL.
\<close>

section \<open>File contents\<close>

definition bmap :: "nat \<Rightarrow> nat \<Rightarrow> 'z fsstate_scheme \<Rightarrow> (u32, 'z fsstate_scheme) outcome" where
  "bmap ip bn s =
     (if bn < NDIRECT then
        (if i_addrs (inodes s ip) ! bn = 0 then
           bind (balloc (i_dev (inodes s ip)) s) (\<lambda>addr s.
             if addr = 0 then Ok 0 s
             else Ok addr (upd_inode ip (\<lambda>q. q\<lparr>i_addrs := (i_addrs q)[bn := addr]\<rparr>) s))
         else Ok (i_addrs (inodes s ip) ! bn) s)
      else if bn - NDIRECT < NINDIRECT then
        bind
          (if i_addrs (inodes s ip) ! NDIRECT = 0 then
             bind (balloc (i_dev (inodes s ip)) s) (\<lambda>addr s.
               if addr = 0 then Ok 0 s
               else Ok addr (upd_inode ip (\<lambda>q. q\<lparr>i_addrs := (i_addrs q)[NDIRECT := addr]\<rparr>) s))
           else Ok (i_addrs (inodes s ip) ! NDIRECT) s) (\<lambda>addr s.
        if addr = 0 then Ok 0 s
        else bind (bread (i_dev (inodes s ip)) addr s) (\<lambda>bp s.
          let addr = get32 (bdata bp s) (4 * (bn - NDIRECT)) in
          bind
            (if addr = 0 then
               bind (balloc (i_dev (inodes s ip)) s) (\<lambda>addr s.
                 if addr \<noteq> 0 then
                   bind (log_write bp (set_data bp (put32 (bdata bp s) (4 * (bn - NDIRECT)) addr) s)) (\<lambda>_ s. Ok addr s)
                 else Ok addr s)
             else Ok addr s) (\<lambda>addr s.
          bind (brelse bp s) (\<lambda>_ s. Ok addr s))))
      else Panic ''bmap: out of range'')"

record stat =
  st_dev :: int
  st_ino :: u32
  st_type :: u16
  st_nlink :: u16
  st_size :: u64

definition stati :: "nat \<Rightarrow> 'z fsstate_scheme \<Rightarrow> stat" where
  "stati ip s = \<lparr>st_dev = sint (i_dev (inodes s ip)), st_ino = i_inum (inodes s ip),
     st_type = i_type (inodes s ip), st_nlink = i_nlink (inodes s ip), st_size = ucast (i_size (inodes s ip))\<rparr>"

definition stat_bytes :: "stat \<Rightarrow> u8 list \<Rightarrow> u8 list" where
  "stat_bytes st pad = bytes_of 4 (of_int (st_dev st) :: u32) @ bytes_of 4 (st_ino st) @
     bytes_of 2 (st_type st) @ bytes_of 2 (st_nlink st) @ take 4 pad @ bytes_of 8 (st_size st)"

text \<open>\<^verbatim>\<open>uint\<close> converted to \<^verbatim>\<open>int\<close>, as by the \<^verbatim>\<open>return\<close> statements.\<close>

definition to_int :: "nat \<Rightarrow> int" where
  "to_int n = sint (of_nat n :: u32)"

lemma chunk_pos: "tot < n \<Longrightarrow> 0 < min (n - tot) (BSIZE - off mod BSIZE)"
  by (simp add: BSIZE_def)

text \<open>With a kernel destination the bytes read are returned.\<close>

function readi_loop :: "nat \<Rightarrow> nat \<Rightarrow> nat \<Rightarrow> dst \<Rightarrow> nat \<Rightarrow> u8 list \<Rightarrow> 'z fsstate_scheme \<Rightarrow>
    (int \<times> u8 list, 'z fsstate_scheme) outcome" where
  "readi_loop ip n tot dst off out s =
     (if tot < n then
        bind (bmap ip (off div BSIZE) s) (\<lambda>addr s.
          if addr = 0 then Ok (to_int tot, out) s
          else bind (bread (i_dev (inodes s ip)) addr s) (\<lambda>bp s.
            let m = min (n - tot) (BSIZE - off mod BSIZE) in
            bind (either_copyout dst (take m (drop (off mod BSIZE) (bdata bp s))) s) (\<lambda>(r, bs) s.
              if r = -1 then bind (brelse bp s) (\<lambda>_ s. Ok (-1, out) s)
              else bind (brelse bp s) (\<lambda>_ s.
                readi_loop ip n (tot + m) (dst_add dst m) (off + m) (out @ bs) s))))
      else Ok (to_int tot, out) s)"
  by pat_completeness auto
termination
proof (relation "measure (\<lambda>(ip, n, tot, _). n - tot)", goal_cases)
  case (2 ip n tot dst off out s addr s1 bp s2 m rbs s3 r bs u s4)
  then show ?case using chunk_pos[of tot n off] by simp
qed simp

declare readi_loop.simps [simp del]

definition readi :: "nat \<Rightarrow> dst \<Rightarrow> u32 \<Rightarrow> u32 \<Rightarrow> 'z fsstate_scheme \<Rightarrow> (int \<times> u8 list, 'z fsstate_scheme) outcome" where
  "readi ip dst off n s =
     (if off > i_size (inodes s ip) \<or> off + n < off then Ok (0, []) s
      else let n = (if off + n > i_size (inodes s ip) then i_size (inodes s ip) - off else n) in
        readi_loop ip (unat n) 0 dst (unat off) [] s)"

text \<open>The result of the loop is \<^verbatim>\<open>tot\<close> and the final value of \<^verbatim>\<open>off\<close>.\<close>

function writei_loop :: "nat \<Rightarrow> nat \<Rightarrow> nat \<Rightarrow> src \<Rightarrow> nat \<Rightarrow> 'z fsstate_scheme \<Rightarrow>
    (nat \<times> nat, 'z fsstate_scheme) outcome" where
  "writei_loop ip n tot src off s =
     (if tot < n then
        bind (bmap ip (off div BSIZE) s) (\<lambda>addr s.
          if addr = 0 then Ok (tot, off) s
          else bind (bread (i_dev (inodes s ip)) addr s) (\<lambda>bp s.
            let m = min (n - tot) (BSIZE - off mod BSIZE) in
            bind (either_copyin src m s) (\<lambda>(r, bs) s.
              let s = set_data bp (put_at (bdata bp s) (off mod BSIZE) bs) s in
              if r = -1 then bind (brelse bp s) (\<lambda>_ s. Ok (tot, off) s)
              else bind (log_write bp s) (\<lambda>_ s.
                bind (brelse bp s) (\<lambda>_ s.
                writei_loop ip n (tot + m) (src_add src m) (off + m) s)))))
      else Ok (tot, off) s)"
  by pat_completeness auto
termination
proof (relation "measure (\<lambda>(ip, n, tot, _). n - tot)", goal_cases)
  case (2 ip n tot src off s)
  then show ?case using chunk_pos[of tot n off] by simp
qed simp

declare writei_loop.simps [simp del]

definition writei :: "nat \<Rightarrow> src \<Rightarrow> u32 \<Rightarrow> u32 \<Rightarrow> 'z fsstate_scheme \<Rightarrow> (int, 'z fsstate_scheme) outcome" where
  "writei ip src off n s =
     (if off > i_size (inodes s ip) \<or> off + n < off then Ok (-1) s
      else if off + n > of_nat (MAXFILE * BSIZE) then Ok (-1) s
      else bind (writei_loop ip (unat n) 0 src (unat off) s) (\<lambda>(tot, off) s.
        let s = (if of_nat off > i_size (inodes s ip) then upd_inode ip (i_size_update (\<lambda>_. of_nat off)) s else s) in
        bind (iupdate ip s) (\<lambda>_ s. Ok (to_int tot) s)))"

section \<open>Directories\<close>

definition rd :: "u8 list \<Rightarrow> reader" where
  "rd bs = (\<lambda>i. if i < length bs then bs ! i else 0)"

definition namecmp :: "u8 list \<Rightarrow> u8 list \<Rightarrow> int" where
  "namecmp a b = strncmp (rd a) (rd b) DIRSIZ"

definition de_inum :: "u8 list \<Rightarrow> u16" where "de_inum de = get16 de 0"
definition de_name :: "u8 list \<Rightarrow> u8 list" where "de_name de = take DIRSIZ (drop 2 de)"

fun dirlookup_loop :: "nat \<Rightarrow> nat \<Rightarrow> u8 list \<Rightarrow> nat \<Rightarrow> 'z fsstate_scheme \<Rightarrow>
    ((nat \<times> u32) option, 'z fsstate_scheme) outcome" where
  "dirlookup_loop fuel dp name off s =
     (if off < unat (i_size (inodes s dp)) then
        (case fuel of 0 \<Rightarrow> NoFuel
         | Suc fuel \<Rightarrow>
             bind (readi dp KernDst (of_nat off) (of_nat DIRENT_SIZE) s) (\<lambda>(r, de) s.
               if r \<noteq> int DIRENT_SIZE then Panic ''dirlookup read''
               else if de_inum de = 0 then dirlookup_loop fuel dp name (off + DIRENT_SIZE) s
               else if namecmp name (de_name de) = 0 then
                 bind (iget (i_dev (inodes s dp)) (ucast (de_inum de)) s) (\<lambda>ip s. Ok (Some (ip, of_nat off)) s)
               else dirlookup_loop fuel dp name (off + DIRENT_SIZE) s))
      else Ok None s)"

declare dirlookup_loop.simps [simp del]

definition dirents :: "nat \<Rightarrow> 'z fsstate_scheme \<Rightarrow> nat" where
  "dirents dp s = (unat (i_size (inodes s dp)) + DIRENT_SIZE - 1) div DIRENT_SIZE"

text \<open>The result is the inode and the value stored in \<^verbatim>\<open>*poff\<close>.\<close>

definition dirlookup :: "nat \<Rightarrow> u8 list \<Rightarrow> 'z fsstate_scheme \<Rightarrow> ((nat \<times> u32) option, 'z fsstate_scheme) outcome" where
  "dirlookup dp name s =
     (if i_type (inodes s dp) \<noteq> T_DIR then Panic ''dirlookup not DIR''
      else dirlookup_loop (dirents dp s) dp name 0 s)"

fun dirlink_find :: "nat \<Rightarrow> nat \<Rightarrow> nat \<Rightarrow> 'z fsstate_scheme \<Rightarrow> (nat, 'z fsstate_scheme) outcome" where
  "dirlink_find fuel dp off s =
     (if off < unat (i_size (inodes s dp)) then
        (case fuel of 0 \<Rightarrow> NoFuel
         | Suc fuel \<Rightarrow>
             bind (readi dp KernDst (of_nat off) (of_nat DIRENT_SIZE) s) (\<lambda>(r, de) s.
               if r \<noteq> int DIRENT_SIZE then Panic ''dirlink read''
               else if de_inum de = 0 then Ok off s
               else dirlink_find fuel dp (off + DIRENT_SIZE) s))
      else Ok off s)"

declare dirlink_find.simps [simp del]

definition dirlink :: "nat \<Rightarrow> u8 list \<Rightarrow> u32 \<Rightarrow> 'z fsstate_scheme \<Rightarrow> (int, 'z fsstate_scheme) outcome" where
  "dirlink dp name inum s =
     bind (dirlookup dp name s) (\<lambda>r s.
       case r of Some (ip, _) \<Rightarrow> bind (iput ip s) (\<lambda>_ s. Ok (-1) s)
       | None \<Rightarrow>
           bind (dirlink_find (dirents dp s) dp 0 s) (\<lambda>off s.
             let de = bytes_of 2 (ucast inum :: u16) @ strncpy (rd name) DIRSIZ in
             bind (writei dp (KernSrc de) (of_nat off) (of_nat DIRENT_SIZE) s) (\<lambda>r s.
               if r \<noteq> int DIRENT_SIZE then Ok (-1) s else Ok 0 s)))"

section \<open>Paths\<close>

text \<open>\<open>skipelem path name\<close> is the rest of the path and the new contents of the buffer \<^verbatim>\<open>name\<close>.\<close>

definition skipelem :: "u8 list \<Rightarrow> u8 list \<Rightarrow> (u8 list \<times> u8 list) option" where
  "skipelem path name =
     (let path = dropWhile (\<lambda>c. c = 47) path in
      if path = [] then None
      else let elem = takeWhile (\<lambda>c. c \<noteq> 47) path;
               path = dropWhile (\<lambda>c. c \<noteq> 47) path;
               name = (if length elem \<ge> DIRSIZ then put_at name 0 (take DIRSIZ elem) else put_at name 0 (elem @ [0]))
           in Some (dropWhile (\<lambda>c. c = 47) path, name))"

lemma length_dropWhile_less: "xs \<noteq> [] \<Longrightarrow> P (hd xs) \<Longrightarrow> length (dropWhile P xs) < length xs"
  by (cases xs) (auto simp: le_imp_less_Suc length_dropWhile_le)

lemma skipelem_shorter:
  assumes "skipelem path name = Some (rest, name')"
  shows "length rest < length path"
proof -
  define p where "p = dropWhile (\<lambda>c. c = 47) path"
  have ne: "p \<noteq> []" and rest: "rest = dropWhile (\<lambda>c. c = 47) (dropWhile (\<lambda>c. c \<noteq> 47) p)"
    using assms by (auto simp: skipelem_def p_def Let_def split: if_splits)
  have "length rest \<le> length (dropWhile (\<lambda>c. c \<noteq> 47) p)" by (simp add: rest length_dropWhile_le)
  also have "\<dots> < length p"
    using hd_dropWhile[of "\<lambda>c. c = 47" path] ne by (intro length_dropWhile_less) (auto simp: p_def)
  also have "\<dots> \<le> length path" by (simp add: p_def length_dropWhile_le)
  finally show ?thesis .
qed

text \<open>\<open>None\<close> is the null pointer; the second component is the buffer \<^verbatim>\<open>name\<close>.\<close>

function namex_loop :: "u8 list \<Rightarrow> bool \<Rightarrow> u8 list \<Rightarrow> nat \<Rightarrow> 'z fsstate_scheme \<Rightarrow>
    (nat option \<times> u8 list, 'z fsstate_scheme) outcome" where
  "namex_loop path parent name ip s =
     (case skipelem path name of
        None \<Rightarrow>
          if parent then bind (iput ip s) (\<lambda>_ s. Ok (None, name) s) else Ok (Some ip, name) s
      | Some (path, name) \<Rightarrow>
          bind (ilock ip s) (\<lambda>_ s.
            if i_type (inodes s ip) \<noteq> T_DIR then bind (iunlockput ip s) (\<lambda>_ s. Ok (None, name) s)
            else if parent \<and> path = [] then bind (iunlock ip s) (\<lambda>_ s. Ok (Some ip, name) s)
            else bind (dirlookup ip name s) (\<lambda>r s.
              case r of None \<Rightarrow> bind (iunlockput ip s) (\<lambda>_ s. Ok (None, name) s)
              | Some (nxt, _) \<Rightarrow> bind (iunlockput ip s) (\<lambda>_ s. namex_loop path parent name nxt s))))"
  by pat_completeness auto
termination
  by (relation "measure (\<lambda>(path, _). length path)") (auto dest: skipelem_shorter)

declare namex_loop.simps [simp del]

definition namex :: "u8 list \<Rightarrow> bool \<Rightarrow> u8 list \<Rightarrow> 'z fsstate_scheme \<Rightarrow>
    (nat option \<times> u8 list, 'z fsstate_scheme) outcome" where
  "namex path parent name s =
     bind
       (if path \<noteq> [] \<and> hd path = 47 then iget ROOTDEV ROOTINO s
        else bind (curproc s) (\<lambda>p s.
          case p_cwd (procs s p) of None \<Rightarrow> Panic ''kerneltrap'' | Some cwd \<Rightarrow> idup cwd s))
       (\<lambda>ip s. namex_loop path parent name ip s)"

text \<open>The local buffer of \<^verbatim>\<open>namei\<close> is indeterminate and never read before it is written.\<close>

definition namei :: "u8 list \<Rightarrow> 'z fsstate_scheme \<Rightarrow> (nat option, 'z fsstate_scheme) outcome" where
  "namei path s = bind (namex path False (replicate DIRSIZ 0) s) (\<lambda>(ip, _) s. Ok ip s)"

definition nameiparent :: "u8 list \<Rightarrow> u8 list \<Rightarrow> 'z fsstate_scheme \<Rightarrow>
    (nat option \<times> u8 list, 'z fsstate_scheme) outcome" where
  "nameiparent path name s = namex path True name s"

end
