(* ===== verification/File.thy ===== *)
theory File
  imports FsData
begin

text \<open>
  The table of open files (\<^verbatim>\<open>kernel/file.c\<close>) and \<^verbatim>\<open>pipealloc\<close> of \<^verbatim>\<open>kernel/pipe.c\<close>. A file pointer is an
  index into \<^verbatim>\<open>ftable.file\<close>.
\<close>

section \<open>State\<close>

datatype fdtype = FD_NONE | FD_PIPE | FD_INODE | FD_DEVICE

record kfile =
  f_type :: fdtype
  f_ref :: int
  readable :: bool
  writable :: bool
  f_pipe :: u64
  f_ip :: nat
  f_off :: u32
  f_major :: u16

record ftstate = fsstate +
  files :: "nat \<Rightarrow> kfile"

text \<open>These fields are no part of the locking state.\<close>

lemma files_frame [simp]:
  "grab lk (files_update g s) = files_update g (grab lk s)" "norm (files_update g s) = files_update g (norm s)"
  "hart_ok (files_update g s) = hart_ok s" "lock_free lk (files_update g s) = lock_free lk s"
  "files (grab lk s) = files s" "files (norm s) = files s"
  "files_update (\<lambda>_. files s) (grab lk s) = grab lk s" "files_update (\<lambda>_. files s) (norm s) = norm s"
  by (simp_all add: grab_def norm_def hart_ok_def lock_free_def spinlock_defs Let_def)

definition upd_file :: "nat \<Rightarrow> (kfile \<Rightarrow> kfile) \<Rightarrow> 'z ftstate_scheme \<Rightarrow> 'z ftstate_scheme" where
  "upd_file f g s = s\<lparr>files := (files s)(f := g (files s f))\<rparr>"

definition fileinit :: "'z ftstate_scheme \<Rightarrow> 'z ftstate_scheme" where
  "fileinit s = initlock FtableLock ''ftable'' s"

section \<open>References\<close>

fun filealloc_find :: "nat list \<Rightarrow> 'z ftstate_scheme \<Rightarrow> nat option" where
  "filealloc_find [] s = None"
| "filealloc_find (f # fs) s = (if f_ref (files s f) = 0 then Some f else filealloc_find fs s)"

definition filealloc :: "'z ftstate_scheme \<Rightarrow> (nat option, 'z ftstate_scheme) outcome" where
  "filealloc s =
     with_lock FtableLock (\<lambda>s.
       case filealloc_find [0..<NFILE] s of
         None \<Rightarrow> Ok None s
       | Some f \<Rightarrow> Ok (Some f) (upd_file f (f_ref_update (\<lambda>_. 1)) s)) s"

definition filedup :: "nat \<Rightarrow> 'z ftstate_scheme \<Rightarrow> (nat, 'z ftstate_scheme) outcome" where
  "filedup f s =
     with_lock FtableLock (\<lambda>s.
       if f_ref (files s f) < 1 then Panic ''filedup''
       else Ok f (upd_file f (\<lambda>q. q\<lparr>f_ref := f_ref q + 1\<rparr>) s)) s"

definition fileclose :: "nat \<Rightarrow> 'z ftstate_scheme \<Rightarrow> (unit, 'z ftstate_scheme) outcome" where
  "fileclose f s =
     bind (acquire FtableLock s) (\<lambda>_ s.
       if f_ref (files s f) < 1 then Panic ''fileclose''
       else let s = upd_file f (\<lambda>q. q\<lparr>f_ref := f_ref q - 1\<rparr>) s in
         if f_ref (files s f) > 0 then release FtableLock s
         else let ff = files s f; s = upd_file f (\<lambda>q. q\<lparr>f_ref := 0, f_type := FD_NONE\<rparr>) s in
           bind (release FtableLock s) (\<lambda>_ s.
             if f_type ff = FD_PIPE then pipeclose (f_pipe ff) (writable ff) s
             else if f_type ff = FD_INODE \<or> f_type ff = FD_DEVICE then
               bind (begin_op s) (\<lambda>_ s. bind (iput (f_ip ff) s) (\<lambda>_ s. end_op s))
             else Ok () s))"

text \<open>
  The fresh pipe is the allocated page: its data bytes are whatever the page holds there (the lock
  takes the first 24 bytes).
\<close>

definition pipealloc :: "'z ftstate_scheme \<Rightarrow> ((nat \<times> nat) option, 'z ftstate_scheme) outcome" where
  "pipealloc s =
     bind (filealloc s) (\<lambda>f0 s.
       case f0 of None \<Rightarrow> Ok None s
       | Some f0 \<Rightarrow> bind (filealloc s) (\<lambda>f1 s.
           case f1 of None \<Rightarrow> bind (fileclose f0 s) (\<lambda>_ s. Ok None s)
           | Some f1 \<Rightarrow> bind (kalloc s) (\<lambda>pi s.
               if pi = 0 then bind (fileclose f0 s) (\<lambda>_ s. bind (fileclose f1 s) (\<lambda>_ s. Ok None s))
               else let
                 s = upd_pipe pi (\<lambda>_. \<lparr>pp_data = load_bytes (mem s) (pi + 24) PIPESIZE, nread = 0, nwrite = 0,
                   readopen = 1, writeopen = 1\<rparr>) s;
                 s = initlock (PipeLock pi) ''pipe'' s;
                 s = upd_file f0 (\<lambda>q. q\<lparr>f_type := FD_PIPE, readable := True, writable := False, f_pipe := pi\<rparr>) s;
                 s = upd_file f1 (\<lambda>q. q\<lparr>f_type := FD_PIPE, readable := False, writable := True, f_pipe := pi\<rparr>) s
               in Ok (Some (f0, f1)) s)))"

section \<open>Operations on open files\<close>

definition filestat :: "nat \<Rightarrow> u64 \<Rightarrow> 'z ftstate_scheme \<Rightarrow> (int, 'z ftstate_scheme) outcome" where
  "filestat f addr s =
     bind (curproc s) (\<lambda>p s.
       if f_type (files s f) = FD_INODE \<or> f_type (files s f) = FD_DEVICE then
         bind (ilock (f_ip (files s f)) s) (\<lambda>_ s.
         let st = stati (f_ip (files s f)) s in
         bind (iunlock (f_ip (files s f)) s) (\<lambda>_ s.
         bind (copyout (p_pagetable (procs s p)) addr (stat_bytes st (stat_pad s)) s) (\<lambda>r s.
         if r < 0 then Ok (-1) s else Ok 0 s)))
       else Ok (-1) s)"

definition dev_read :: "devread \<Rightarrow> u64 \<Rightarrow> int \<Rightarrow> 'z cnstate_scheme \<Rightarrow> (int, 'z cnstate_scheme) outcome" where
  "dev_read d addr n s = (case d of Consoleread \<Rightarrow> bind (consoleread (UserDst addr) n s) (\<lambda>(r, _) s. Ok r s))"

definition dev_write :: "devwrite \<Rightarrow> u64 \<Rightarrow> int \<Rightarrow> 'z cnstate_scheme \<Rightarrow> (int, 'z cnstate_scheme) outcome" where
  "dev_write d addr n s = (case d of Consolewrite \<Rightarrow> consolewrite (UserSrc addr) n s)"

definition bad_major :: "u16 \<Rightarrow> bool" where
  "bad_major m \<longleftrightarrow> sint m < 0 \<or> sint m \<ge> int NDEV"

definition fileread :: "nat \<Rightarrow> u64 \<Rightarrow> int \<Rightarrow> 'z ftstate_scheme \<Rightarrow> (int, 'z ftstate_scheme) outcome" where
  "fileread f addr n s =
     (if \<not> readable (files s f) then Ok (-1) s
      else case f_type (files s f) of
        FD_PIPE \<Rightarrow> piperead (f_pipe (files s f)) addr n s
      | FD_DEVICE \<Rightarrow>
          (if bad_major (f_major (files s f)) then Ok (-1) s
           else case devsw_read s (unat (f_major (files s f))) of
             None \<Rightarrow> Ok (-1) s | Some d \<Rightarrow> dev_read d addr n s)
      | FD_INODE \<Rightarrow>
          bind (ilock (f_ip (files s f)) s) (\<lambda>_ s.
          bind (readi (f_ip (files s f)) (UserDst addr) (f_off (files s f)) (of_int n) s) (\<lambda>(r, _) s.
          let s = (if r > 0 then upd_file f (\<lambda>q. q\<lparr>f_off := f_off q + of_int r\<rparr>) s else s) in
          bind (iunlock (f_ip (files s f)) s) (\<lambda>_ s. Ok r s)))
      | FD_NONE \<Rightarrow> Panic ''fileread'')"

text \<open>Most bytes written in one transaction, and the loop over transactions; the result is \<^verbatim>\<open>i\<close>.\<close>

definition filewrite_max :: int where
  "filewrite_max = (int MAXOPBLOCKS - 1 - 1 - 2) div 2 * int BSIZE"

function filewrite_loop :: "nat \<Rightarrow> u64 \<Rightarrow> int \<Rightarrow> int \<Rightarrow> 'z ftstate_scheme \<Rightarrow> (int, 'z ftstate_scheme) outcome" where
  "filewrite_loop f addr n i s =
     (if i < n then
        let remaining = min (n - i) filewrite_max in
        bind (begin_op s) (\<lambda>_ s.
        bind (ilock (f_ip (files s f)) s) (\<lambda>_ s.
        bind (writei (f_ip (files s f)) (UserSrc (addr + of_int i)) (f_off (files s f)) (of_int remaining) s) (\<lambda>r s.
        let s = (if r > 0 then upd_file f (\<lambda>q. q\<lparr>f_off := f_off q + of_int r\<rparr>) s else s) in
        bind (iunlock (f_ip (files s f)) s) (\<lambda>_ s.
        bind (end_op s) (\<lambda>_ s.
        if r \<noteq> remaining then Ok i s else filewrite_loop f addr n (i + remaining) s)))))
      else Ok i s)"
  by pat_completeness auto
termination
  by (relation "measure (\<lambda>(_, _, n, i, _). nat (n - i))")
    (auto simp: filewrite_max_def MAXOPBLOCKS_def BSIZE_def)

declare filewrite_loop.simps [simp del]

definition filewrite :: "nat \<Rightarrow> u64 \<Rightarrow> int \<Rightarrow> 'z ftstate_scheme \<Rightarrow> (int, 'z ftstate_scheme) outcome" where
  "filewrite f addr n s =
     (if \<not> writable (files s f) then Ok (-1) s
      else case f_type (files s f) of
        FD_PIPE \<Rightarrow> pipewrite (f_pipe (files s f)) addr n s
      | FD_DEVICE \<Rightarrow>
          (if bad_major (f_major (files s f)) then Ok (-1) s
           else case devsw_write s (unat (f_major (files s f))) of
             None \<Rightarrow> Ok (-1) s | Some d \<Rightarrow> dev_write d addr n s)
      | FD_INODE \<Rightarrow> bind (filewrite_loop f addr n 0 s) (\<lambda>i s. Ok (if i = n then n else -1) s)
      | FD_NONE \<Rightarrow> Panic ''filewrite'')"

end
