(* ===== verification/ProcLife.thy ===== *)
theory ProcLife
  imports File
begin

text \<open>
  The life cycle of processes (the rest of \<^verbatim>\<open>kernel/proc.c\<close>): the first process, \<^verbatim>\<open>fork\<close>, \<^verbatim>\<open>exit\<close> and
  \<^verbatim>\<open>wait\<close>.
\<close>

definition initcode :: "u8 list" where
  "initcode = [0x17, 0x05, 0x00, 0x00, 0x13, 0x05, 0x45, 0x02, 0x97,
     0x05, 0x00, 0x00, 0x93, 0x85, 0x35, 0x02, 0x93, 0x08,
     0x70, 0x00, 0x73, 0x00, 0x00, 0x00, 0x93, 0x08, 0x20,
     0x00, 0x73, 0x00, 0x00, 0x00, 0xef, 0xf0, 0x9f, 0xff,
     0x2f, 0x69, 0x6e, 0x69, 0x74, 0x00, 0x00, 0x24, 0x00,
     0x00, 0x00, 0x00, 0x00, 0x00, 0x00, 0x00]"

definition PROC_NAME_SIZE :: nat where "PROC_NAME_SIZE = 16"

text \<open>A store to a field of the trapframe of process \<open>p\<close>, and a load.\<close>

definition tf_put :: "nat \<Rightarrow> u64 \<Rightarrow> u64 \<Rightarrow> 'z pstate_scheme \<Rightarrow> 'z pstate_scheme" where
  "tf_put p field v s = s\<lparr>mem := store64 (mem s) (p_trapframe (procs s p) + field) v\<rparr>"

definition tf_get :: "nat \<Rightarrow> u64 \<Rightarrow> 'z pstate_scheme \<Rightarrow> u64" where
  "tf_get p field s = load64 (mem s) (p_trapframe (procs s p) + field)"

definition set_name :: "nat \<Rightarrow> reader \<Rightarrow> 'z pstate_scheme \<Rightarrow> 'z pstate_scheme" where
  "set_name p t s = upd_proc p (\<lambda>q. q\<lparr>p_name := safestrcpy (p_name q) t (int PROC_NAME_SIZE)\<rparr>) s"

definition userinit :: "'z ftstate_scheme \<Rightarrow> (unit, 'z ftstate_scheme) outcome" where
  "userinit s =
     bind (allocproc s) (\<lambda>p s.
       let s = s\<lparr>initproc := p\<rparr> in
       case p of None \<Rightarrow> Panic ''kerneltrap''
       | Some p \<Rightarrow>
           bind (uvmfirst (p_pagetable (procs s p)) initcode s) (\<lambda>_ s.
           let s = upd_proc p (p_sz_update (\<lambda>_. PGSIZE)) s;
               s = tf_put p TF_epc 0 s;
               s = tf_put p TF_sp PGSIZE s;
               s = set_name p (rd (cbytes ''initcode'')) s in
           bind (namei (cbytes ''/'') s) (\<lambda>cwd s.
           release (ProcLock p) (upd_proc p (\<lambda>q. q\<lparr>p_cwd := cwd, p_state := RUNNABLE\<rparr>) s))))"

section \<open>Fork\<close>

fun fork_files :: "nat list \<Rightarrow> nat \<Rightarrow> nat \<Rightarrow> 'z ftstate_scheme \<Rightarrow> (unit, 'z ftstate_scheme) outcome" where
  "fork_files [] p np s = Ok () s"
| "fork_files (i # is) p np s =
     (case p_ofile (procs s p) i of
        None \<Rightarrow> fork_files is p np s
      | Some f \<Rightarrow>
          bind (filedup f s) (\<lambda>f s.
          fork_files is p np (upd_proc np (\<lambda>q. q\<lparr>p_ofile := (p_ofile q)(i := Some f)\<rparr>) s)))"

definition copy_trapframe :: "nat \<Rightarrow> nat \<Rightarrow> 'z pstate_scheme \<Rightarrow> 'z pstate_scheme" where
  "copy_trapframe np p s = s\<lparr>mem := store_bytes (mem s) (p_trapframe (procs s np))
     (load_bytes (mem s) (p_trapframe (procs s p)) TF_size)\<rparr>"

definition fork :: "'z ftstate_scheme \<Rightarrow> (int, 'z ftstate_scheme) outcome" where
  "fork s =
     bind (curproc s) (\<lambda>p s.
     bind (allocproc s) (\<lambda>np s.
       case np of None \<Rightarrow> Ok (-1) s
       | Some np \<Rightarrow>
           bind (uvmcopy (p_pagetable (procs s p)) (p_pagetable (procs s np)) (p_sz (procs s p)) s) (\<lambda>r s.
             if r < 0 then
               bind (freeproc np s) (\<lambda>_ s. bind (release (ProcLock np) s) (\<lambda>_ s. Ok (-1) s))
             else let
               s = upd_proc np (p_sz_update (\<lambda>_. p_sz (procs s p))) s;
               s = copy_trapframe np p s;
               s = tf_put np TF_a0 0 s in
             bind (fork_files [0..<NOFILE] p np s) (\<lambda>_ s.
             bind (case p_cwd (procs s p) of None \<Rightarrow> Panic ''kerneltrap'' | Some cwd \<Rightarrow> idup cwd s) (\<lambda>cwd s.
             let s = upd_proc np (p_cwd_update (\<lambda>_. Some cwd)) s;
                 s = set_name np (rd (p_name (procs s p))) s;
                 pid = p_pid (procs s np) in
             bind (release (ProcLock np) s) (\<lambda>_ s.
             bind (with_lock WaitLock (\<lambda>s. Ok () (upd_proc np (p_parent_update (\<lambda>_. Some p)) s)) s) (\<lambda>_ s.
             bind (with_lock (ProcLock np) (\<lambda>s. Ok () (upd_proc np (p_state_update (\<lambda>_. RUNNABLE)) s)) s) (\<lambda>_ s.
             Ok pid s))))))))"

section \<open>Exit\<close>

text \<open>The channel \<^verbatim>\<open>wakeup\<close> gets when it is passed a process pointer that may be null.\<close>

definition proc_chan :: "nat option \<Rightarrow> chan option" where
  "proc_chan p = (case p of None \<Rightarrow> None | Some p \<Rightarrow> Some (ChanProc p))"

fun reparent_loop :: "nat list \<Rightarrow> nat \<Rightarrow> 'z pstate_scheme \<Rightarrow> (unit, 'z pstate_scheme) outcome" where
  "reparent_loop [] p s = Ok () s"
| "reparent_loop (pp # pps) p s =
     (if p_parent (procs s pp) = Some p then
        bind (wakeup (proc_chan (initproc s)) (upd_proc pp (p_parent_update (\<lambda>_. initproc s)) s)) (\<lambda>_ s.
        reparent_loop pps p s)
      else reparent_loop pps p s)"

definition reparent :: "nat \<Rightarrow> 'z pstate_scheme \<Rightarrow> (unit, 'z pstate_scheme) outcome" where
  "reparent p s = reparent_loop [0..<NPROC] p s"

fun exit_files :: "nat list \<Rightarrow> nat \<Rightarrow> 'z ftstate_scheme \<Rightarrow> (unit, 'z ftstate_scheme) outcome" where
  "exit_files [] p s = Ok () s"
| "exit_files (fd # fds) p s =
     (case p_ofile (procs s p) fd of
        None \<Rightarrow> exit_files fds p s
      | Some f \<Rightarrow>
          bind (fileclose f s) (\<lambda>_ s.
          exit_files fds p (upd_proc p (\<lambda>q. q\<lparr>p_ofile := (p_ofile q)(fd := None)\<rparr>) s)))"

definition exit :: "int \<Rightarrow> 'z ftstate_scheme \<Rightarrow> ('a, 'z ftstate_scheme) outcome" where
  "exit status s =
     bind (curproc s) (\<lambda>p s.
       if Some p = initproc s then Panic ''init exiting''
       else
         bind (exit_files [0..<NOFILE] p s) (\<lambda>_ s.
         bind (begin_op s) (\<lambda>_ s.
         bind (case p_cwd (procs s p) of None \<Rightarrow> Panic ''kerneltrap'' | Some cwd \<Rightarrow> iput cwd s) (\<lambda>_ s.
         bind (end_op s) (\<lambda>_ s.
         bind (acquire WaitLock (upd_proc p (p_cwd_update (\<lambda>_. None)) s)) (\<lambda>_ s.
         bind (reparent p s) (\<lambda>_ s.
         bind (wakeup (proc_chan (p_parent (procs s p))) s) (\<lambda>_ s.
         bind (acquire (ProcLock p) s) (\<lambda>_ s.
         bind (release WaitLock (upd_proc p (\<lambda>q. q\<lparr>p_xstate := status, p_state := ZOMBIE\<rparr>) s)) (\<lambda>_ s.
         bind (sched s) (\<lambda>_ s. Panic ''zombie exit'')))))))))))"

section \<open>Wait\<close>

text \<open>
  One scan of the table: \<open>Inl r\<close> when \<^verbatim>\<open>wait\<close> returns \<open>r\<close> (with the locks released), \<open>Inr havekids\<close> when the
  scan ends.
\<close>

fun wait_scan :: "nat list \<Rightarrow> nat \<Rightarrow> u64 \<Rightarrow> bool \<Rightarrow> 'z pstate_scheme \<Rightarrow> (int + bool, 'z pstate_scheme) outcome" where
  "wait_scan [] p addr havekids s = Ok (Inr havekids) s"
| "wait_scan (pp # pps) p addr havekids s =
     (if p_parent (procs s pp) = Some p then
        bind (acquire (ProcLock pp) s) (\<lambda>_ s.
          if p_state (procs s pp) = ZOMBIE then
            let pid = p_pid (procs s pp) in
            bind (if addr \<noteq> 0
                  then copyout (p_pagetable (procs s p)) addr (bytes_of 4 (of_int (p_xstate (procs s pp)) :: u32)) s
                  else Ok 0 s) (\<lambda>r s.
              if r < 0 then
                bind (release (ProcLock pp) s) (\<lambda>_ s. bind (release WaitLock s) (\<lambda>_ s. Ok (Inl (-1)) s))
              else
                bind (freeproc pp s) (\<lambda>_ s.
                bind (release (ProcLock pp) s) (\<lambda>_ s.
                bind (release WaitLock s) (\<lambda>_ s. Ok (Inl pid) s))))
          else bind (release (ProcLock pp) s) (\<lambda>_ s. wait_scan pps p addr True s))
      else wait_scan pps p addr havekids s)"

fun wait_loop :: "nat \<Rightarrow> nat \<Rightarrow> u64 \<Rightarrow> 'z pstate_scheme \<Rightarrow> (int, 'z pstate_scheme) outcome" where
  "wait_loop n p addr s =
     bind (wait_scan [0..<NPROC] p addr False s) (\<lambda>r s.
       case r of Inl r \<Rightarrow> Ok r s
       | Inr havekids \<Rightarrow>
           bind (if \<not> havekids then Ok 1 s else killed p s) (\<lambda>k s.
             if k \<noteq> 0 then bind (release WaitLock s) (\<lambda>_ s. Ok (-1) s)
             else (case n of 0 \<Rightarrow> NoFuel
               | Suc n \<Rightarrow> bind (sleep (ChanProc p) WaitLock s) (\<lambda>_ s. wait_loop n p addr s))))"

declare wait_loop.simps [simp del]

definition wait :: "u64 \<Rightarrow> 'z pstate_scheme \<Rightarrow> (int, 'z pstate_scheme) outcome" where
  "wait addr s =
     bind (curproc s) (\<lambda>p s.
     bind (acquire WaitLock s) (\<lambda>_ s. wait_loop (patience s) p addr s))"

end
