(* ===== verification/Sysfile.thy ===== *)
theory Sysfile
  imports ProcLife
begin

text \<open>
  Fetching of system-call arguments (the first half of \<^verbatim>\<open>kernel/syscall.c\<close>) and the system calls on
  files (\<^verbatim>\<open>kernel/sysfile.c\<close>) except \<^verbatim>\<open>exec\<close>. A system call returns an \<^verbatim>\<open>int\<close>; the dispatcher stores it in
  \<^verbatim>\<open>a0\<close>.
\<close>

section \<open>Arguments\<close>

definition get64 :: "u8 list \<Rightarrow> nat \<Rightarrow> u64" where
  "get64 d off = word_of (take 8 (drop off d))"

definition fetchaddr :: "u64 \<Rightarrow> 'z pstate_scheme \<Rightarrow> (int \<times> u64, 'z pstate_scheme) outcome" where
  "fetchaddr addr s =
     bind (curproc s) (\<lambda>p s.
       if addr \<ge> p_sz (procs s p) \<or> addr + 8 > p_sz (procs s p) then Ok (-1, 0) s
       else bind (copyin (p_pagetable (procs s p)) addr 8 s) (\<lambda>(r, bs) s.
         if r \<noteq> 0 then Ok (-1, 0) s else Ok (0, get64 bs 0) s))"

text \<open>
  The result is the return value and the bytes that are now in the buffer; \<open>cstr\<close> is the string there.
\<close>

definition cstr :: "u8 list \<Rightarrow> u8 list" where
  "cstr bs = takeWhile (\<lambda>b. b \<noteq> 0) bs"

definition fetchstr :: "u64 \<Rightarrow> nat \<Rightarrow> 'z pstate_scheme \<Rightarrow> (int \<times> u8 list, 'z pstate_scheme) outcome" where
  "fetchstr addr mx s =
     bind (curproc s) (\<lambda>p s.
     bind (copyinstr (p_pagetable (procs s p)) addr mx s) (\<lambda>(r, bs) s.
       if r < 0 then Ok (-1, bs) s else Ok (int (length (cstr bs)), bs) s))"

definition argraw :: "nat \<Rightarrow> 'z pstate_scheme \<Rightarrow> (u64, 'z pstate_scheme) outcome" where
  "argraw n s =
     bind (curproc s) (\<lambda>p s.
       if n = 0 then Ok (tf_get p TF_a0 s) s
       else if n = 1 then Ok (tf_get p TF_a1 s) s
       else if n = 2 then Ok (tf_get p TF_a2 s) s
       else if n = 3 then Ok (tf_get p TF_a3 s) s
       else if n = 4 then Ok (tf_get p TF_a4 s) s
       else if n = 5 then Ok (tf_get p TF_a5 s) s
       else Panic ''argraw'')"

definition argint :: "nat \<Rightarrow> 'z pstate_scheme \<Rightarrow> (int, 'z pstate_scheme) outcome" where
  "argint n s = bind (argraw n s) (\<lambda>v s. Ok (sint (ucast v :: u32)) s)"

definition argaddr :: "nat \<Rightarrow> 'z pstate_scheme \<Rightarrow> (u64, 'z pstate_scheme) outcome" where
  "argaddr n s = argraw n s"

definition argstr :: "nat \<Rightarrow> nat \<Rightarrow> 'z pstate_scheme \<Rightarrow> (int \<times> u8 list, 'z pstate_scheme) outcome" where
  "argstr n mx s = bind (argaddr n s) (\<lambda>addr s. fetchstr addr mx s)"

text \<open>\<open>argpath n\<close> is \<^verbatim>\<open>argstr(n, buf, MAXPATH)\<close>: the string, or \<open>None\<close> for a negative result.\<close>

definition argpath :: "nat \<Rightarrow> 'z pstate_scheme \<Rightarrow> (u8 list option, 'z pstate_scheme) outcome" where
  "argpath n s =
     bind (argstr n MAXPATH s) (\<lambda>(r, bs) s. Ok (if r < 0 then None else Some (cstr bs)) s)"

section \<open>Descriptors\<close>

definition argfd :: "nat \<Rightarrow> 'z ftstate_scheme \<Rightarrow> ((nat \<times> nat) option, 'z ftstate_scheme) outcome" where
  "argfd n s =
     bind (argint n s) (\<lambda>fd s.
       if fd < 0 \<or> fd \<ge> int NOFILE then Ok None s
       else bind (curproc s) (\<lambda>p s.
         Ok (case p_ofile (procs s p) (nat fd) of None \<Rightarrow> None | Some f \<Rightarrow> Some (nat fd, f)) s))"

fun fdalloc_find :: "nat list \<Rightarrow> (nat \<Rightarrow> nat option) \<Rightarrow> nat option" where
  "fdalloc_find [] ofile = None"
| "fdalloc_find (fd # fds) ofile = (if ofile fd = None then Some fd else fdalloc_find fds ofile)"

definition set_ofile :: "nat \<Rightarrow> nat \<Rightarrow> nat option \<Rightarrow> 'z pstate_scheme \<Rightarrow> 'z pstate_scheme" where
  "set_ofile p fd v s = upd_proc p (\<lambda>q. q\<lparr>p_ofile := (p_ofile q)(fd := v)\<rparr>) s"

definition fdalloc :: "nat \<Rightarrow> 'z ftstate_scheme \<Rightarrow> (int, 'z ftstate_scheme) outcome" where
  "fdalloc f s =
     bind (curproc s) (\<lambda>p s.
       case fdalloc_find [0..<NOFILE] (p_ofile (procs s p)) of
         None \<Rightarrow> Ok (-1) s
       | Some fd \<Rightarrow> Ok (int fd) (set_ofile p fd (Some f) s))"

definition sys_dup :: "'z ftstate_scheme \<Rightarrow> (int, 'z ftstate_scheme) outcome" where
  "sys_dup s =
     bind (argfd 0 s) (\<lambda>r s. case r of None \<Rightarrow> Ok (-1) s
     | Some (_, f) \<Rightarrow> bind (fdalloc f s) (\<lambda>fd s.
         if fd < 0 then Ok (-1) s else bind (filedup f s) (\<lambda>_ s. Ok fd s)))"

definition sys_read :: "'z ftstate_scheme \<Rightarrow> (int, 'z ftstate_scheme) outcome" where
  "sys_read s =
     bind (argaddr 1 s) (\<lambda>p s. bind (argint 2 s) (\<lambda>n s.
     bind (argfd 0 s) (\<lambda>r s. case r of None \<Rightarrow> Ok (-1) s | Some (_, f) \<Rightarrow> fileread f p n s)))"

definition sys_write :: "'z ftstate_scheme \<Rightarrow> (int, 'z ftstate_scheme) outcome" where
  "sys_write s =
     bind (argaddr 1 s) (\<lambda>p s. bind (argint 2 s) (\<lambda>n s.
     bind (argfd 0 s) (\<lambda>r s. case r of None \<Rightarrow> Ok (-1) s | Some (_, f) \<Rightarrow> filewrite f p n s)))"

definition sys_close :: "'z ftstate_scheme \<Rightarrow> (int, 'z ftstate_scheme) outcome" where
  "sys_close s =
     bind (argfd 0 s) (\<lambda>r s. case r of None \<Rightarrow> Ok (-1) s
     | Some (fd, f) \<Rightarrow> bind (curproc s) (\<lambda>p s.
         bind (fileclose f (set_ofile p fd None s)) (\<lambda>_ s. Ok 0 s)))"

definition sys_fstat :: "'z ftstate_scheme \<Rightarrow> (int, 'z ftstate_scheme) outcome" where
  "sys_fstat s =
     bind (argaddr 1 s) (\<lambda>st s.
     bind (argfd 0 s) (\<lambda>r s. case r of None \<Rightarrow> Ok (-1) s | Some (_, f) \<Rightarrow> filestat f st s))"

section \<open>Links and directories\<close>

definition end_op_ret :: "'a \<Rightarrow> 'z lgstate_scheme \<Rightarrow> ('a, 'z lgstate_scheme) outcome" where
  "end_op_ret r s = bind (end_op s) (\<lambda>_ s. Ok r s)"

definition name0 :: "u8 list" where
  "name0 = replicate DIRSIZ 0"

definition sys_link_bad :: "nat \<Rightarrow> 'z fsstate_scheme \<Rightarrow> (int, 'z fsstate_scheme) outcome" where
  "sys_link_bad ip s =
     bind (ilock ip s) (\<lambda>_ s.
     bind (iupdate ip (upd_inode ip (\<lambda>i. i\<lparr>i_nlink := i_nlink i - 1\<rparr>) s)) (\<lambda>_ s.
     bind (iunlockput ip s) (\<lambda>_ s. end_op_ret (-1) s)))"

definition sys_link :: "'z fsstate_scheme \<Rightarrow> (int, 'z fsstate_scheme) outcome" where
  "sys_link s =
     bind (argpath 0 s) (\<lambda>old s. case old of None \<Rightarrow> Ok (-1) s | Some old \<Rightarrow>
     bind (argpath 1 s) (\<lambda>new s. case new of None \<Rightarrow> Ok (-1) s | Some new \<Rightarrow>
     bind (begin_op s) (\<lambda>_ s.
     bind (namei old s) (\<lambda>ip s. case ip of None \<Rightarrow> end_op_ret (-1) s | Some ip \<Rightarrow>
     bind (ilock ip s) (\<lambda>_ s.
       if i_type (inodes s ip) = T_DIR then bind (iunlockput ip s) (\<lambda>_ s. end_op_ret (-1) s)
       else
         bind (iupdate ip (upd_inode ip (\<lambda>i. i\<lparr>i_nlink := i_nlink i + 1\<rparr>) s)) (\<lambda>_ s.
         bind (iunlock ip s) (\<lambda>_ s.
         bind (nameiparent new name0 s) (\<lambda>(dp, name) s. case dp of None \<Rightarrow> sys_link_bad ip s | Some dp \<Rightarrow>
         bind (ilock dp s) (\<lambda>_ s.
         bind (if i_dev (inodes s dp) \<noteq> i_dev (inodes s ip) then Ok (-1) s
               else dirlink dp name (i_inum (inodes s ip)) s) (\<lambda>r s.
         if r < 0 then bind (iunlockput dp s) (\<lambda>_ s. sys_link_bad ip s)
         else bind (iunlockput dp s) (\<lambda>_ s. bind (iput ip s) (\<lambda>_ s. end_op_ret 0 s))))))))))))"

fun isdirempty_loop :: "nat \<Rightarrow> nat \<Rightarrow> nat \<Rightarrow> 'z fsstate_scheme \<Rightarrow> (bool, 'z fsstate_scheme) outcome" where
  "isdirempty_loop fuel dp off s =
     (if off < unat (i_size (inodes s dp)) then
        (case fuel of 0 \<Rightarrow> NoFuel
         | Suc fuel \<Rightarrow>
             bind (readi dp KernDst (of_nat off) (of_nat DIRENT_SIZE) s) (\<lambda>(r, de) s.
               if r \<noteq> int DIRENT_SIZE then Panic ''isdirempty: readi''
               else if de_inum de \<noteq> 0 then Ok False s
               else isdirempty_loop fuel dp (off + DIRENT_SIZE) s))
      else Ok True s)"

declare isdirempty_loop.simps [simp del]

definition isdirempty :: "nat \<Rightarrow> 'z fsstate_scheme \<Rightarrow> (bool, 'z fsstate_scheme) outcome" where
  "isdirempty dp s = isdirempty_loop (dirents dp s) dp (2 * DIRENT_SIZE) s"

definition unlink_bad :: "nat \<Rightarrow> 'z fsstate_scheme \<Rightarrow> (int, 'z fsstate_scheme) outcome" where
  "unlink_bad dp s = bind (iunlockput dp s) (\<lambda>_ s. end_op_ret (-1) s)"

definition sys_unlink :: "'z fsstate_scheme \<Rightarrow> (int, 'z fsstate_scheme) outcome" where
  "sys_unlink s =
     bind (argpath 0 s) (\<lambda>path s. case path of None \<Rightarrow> Ok (-1) s | Some path \<Rightarrow>
     bind (begin_op s) (\<lambda>_ s.
     bind (nameiparent path name0 s) (\<lambda>(dp, name) s. case dp of None \<Rightarrow> end_op_ret (-1) s | Some dp \<Rightarrow>
     bind (ilock dp s) (\<lambda>_ s.
       if namecmp name (cbytes ''.'') = 0 \<or> namecmp name (cbytes ''..'') = 0 then unlink_bad dp s
       else bind (dirlookup dp name s) (\<lambda>r s. case r of None \<Rightarrow> unlink_bad dp s | Some (ip, off) \<Rightarrow>
         bind (ilock ip s) (\<lambda>_ s.
           if sint (i_nlink (inodes s ip)) < 1 then Panic ''unlink: nlink < 1''
           else bind (if i_type (inodes s ip) = T_DIR then isdirempty ip s else Ok True s) (\<lambda>e s.
             if \<not> e then bind (iunlockput ip s) (\<lambda>_ s. unlink_bad dp s)
             else bind (writei dp (KernSrc (replicate DIRENT_SIZE 0)) off (of_nat DIRENT_SIZE) s) (\<lambda>r s.
               if r \<noteq> int DIRENT_SIZE then Panic ''unlink: writei''
               else
                 bind (if i_type (inodes s ip) = T_DIR
                       then iupdate dp (upd_inode dp (\<lambda>i. i\<lparr>i_nlink := i_nlink i - 1\<rparr>) s) else Ok () s) (\<lambda>_ s.
                 bind (iunlockput dp s) (\<lambda>_ s.
                 bind (iupdate ip (upd_inode ip (\<lambda>i. i\<lparr>i_nlink := i_nlink i - 1\<rparr>) s)) (\<lambda>_ s.
                 bind (iunlockput ip s) (\<lambda>_ s. end_op_ret 0 s))))))))))))"

definition create_fail :: "nat \<Rightarrow> nat \<Rightarrow> 'z fsstate_scheme \<Rightarrow> (nat option, 'z fsstate_scheme) outcome" where
  "create_fail ip dp s =
     bind (iupdate ip (upd_inode ip (i_nlink_update (\<lambda>_. 0)) s)) (\<lambda>_ s.
     bind (iunlockput ip s) (\<lambda>_ s.
     bind (iunlockput dp s) (\<lambda>_ s. Ok None s)))"

definition create :: "u8 list \<Rightarrow> u16 \<Rightarrow> u16 \<Rightarrow> u16 \<Rightarrow> 'z fsstate_scheme \<Rightarrow> (nat option, 'z fsstate_scheme) outcome" where
  "create path type major minor s =
     bind (nameiparent path name0 s) (\<lambda>(dp, name) s. case dp of None \<Rightarrow> Ok None s | Some dp \<Rightarrow>
     bind (ilock dp s) (\<lambda>_ s.
     bind (dirlookup dp name s) (\<lambda>r s. case r of
       Some (ip, _) \<Rightarrow>
         bind (iunlockput dp s) (\<lambda>_ s.
         bind (ilock ip s) (\<lambda>_ s.
           if type = T_FILE \<and> (i_type (inodes s ip) = T_FILE \<or> i_type (inodes s ip) = T_DEVICE)
           then Ok (Some ip) s
           else bind (iunlockput ip s) (\<lambda>_ s. Ok None s)))
     | None \<Rightarrow>
         bind (ialloc (i_dev (inodes s dp)) type s) (\<lambda>ip s. case ip of
           None \<Rightarrow> bind (iunlockput dp s) (\<lambda>_ s. Ok None s)
         | Some ip \<Rightarrow>
             bind (ilock ip s) (\<lambda>_ s.
             bind (iupdate ip (upd_inode ip (\<lambda>i. i\<lparr>i_major := major, i_minor := minor, i_nlink := 1\<rparr>) s)) (\<lambda>_ s.
             bind (if type = T_DIR then
                 bind (dirlink ip (cbytes ''.'') (i_inum (inodes s ip)) s) (\<lambda>r s.
                   if r < 0 then Ok r s else dirlink ip (cbytes ''..'') (i_inum (inodes s dp)) s)
               else Ok 0 s) (\<lambda>r s.
             if r < 0 then create_fail ip dp s
             else bind (dirlink dp name (i_inum (inodes s ip)) s) (\<lambda>r s.
               if r < 0 then create_fail ip dp s
               else
                 bind (if type = T_DIR then iupdate dp (upd_inode dp (\<lambda>i. i\<lparr>i_nlink := i_nlink i + 1\<rparr>) s)
                       else Ok () s) (\<lambda>_ s.
                 bind (iunlockput dp s) (\<lambda>_ s. Ok (Some ip) s))))))))))"

section \<open>Opening and the rest\<close>

definition O_RDONLY :: u32 where "O_RDONLY = 0x000"
definition O_WRONLY :: u32 where "O_WRONLY = 0x001"
definition O_RDWR :: u32 where "O_RDWR = 0x002"
definition O_CREATE :: u32 where "O_CREATE = 0x200"
definition O_TRUNC :: u32 where "O_TRUNC = 0x400"

text \<open>The part of \<^verbatim>\<open>sys_open\<close> that finds or creates the inode and locks it.\<close>

definition open_inode :: "u8 list \<Rightarrow> u32 \<Rightarrow> 'z fsstate_scheme \<Rightarrow> (nat option, 'z fsstate_scheme) outcome" where
  "open_inode path omode s =
     (if omode AND O_CREATE \<noteq> 0 then
        bind (create path T_FILE 0 0 s) (\<lambda>ip s. case ip of None \<Rightarrow> end_op_ret None s | Some ip \<Rightarrow> Ok (Some ip) s)
      else
        bind (namei path s) (\<lambda>ip s. case ip of None \<Rightarrow> end_op_ret None s | Some ip \<Rightarrow>
        bind (ilock ip s) (\<lambda>_ s.
          if i_type (inodes s ip) = T_DIR \<and> omode \<noteq> O_RDONLY
          then bind (iunlockput ip s) (\<lambda>_ s. end_op_ret None s)
          else Ok (Some ip) s)))"

definition open_fail :: "nat \<Rightarrow> 'z fsstate_scheme \<Rightarrow> (int, 'z fsstate_scheme) outcome" where
  "open_fail ip s = bind (iunlockput ip s) (\<lambda>_ s. end_op_ret (-1) s)"

definition open_file :: "inode \<Rightarrow> nat \<Rightarrow> u32 \<Rightarrow> kfile \<Rightarrow> kfile" where
  "open_file i ip omode f =
     (let f = (if i_type i = T_DEVICE then f\<lparr>f_type := FD_DEVICE, f_major := i_major i\<rparr>
               else f\<lparr>f_type := FD_INODE, f_off := 0\<rparr>)
      in f\<lparr>f_ip := ip, readable := \<not> (omode AND O_WRONLY \<noteq> 0),
           writable := (omode AND O_WRONLY \<noteq> 0 \<or> omode AND O_RDWR \<noteq> 0)\<rparr>)"

definition sys_open :: "'z ftstate_scheme \<Rightarrow> (int, 'z ftstate_scheme) outcome" where
  "sys_open s =
     bind (argint 1 s) (\<lambda>om s.
     let omode = of_int om :: u32 in
     bind (argpath 0 s) (\<lambda>path s. case path of None \<Rightarrow> Ok (-1) s | Some path \<Rightarrow>
     bind (begin_op s) (\<lambda>_ s.
     bind (open_inode path omode s) (\<lambda>ip s. case ip of None \<Rightarrow> Ok (-1) s | Some ip \<Rightarrow>
       if i_type (inodes s ip) = T_DEVICE \<and> bad_major (i_major (inodes s ip)) then open_fail ip s
       else bind (filealloc s) (\<lambda>f s. case f of None \<Rightarrow> open_fail ip s | Some f \<Rightarrow>
         bind (fdalloc f s) (\<lambda>fd s.
           if fd < 0 then bind (fileclose f s) (\<lambda>_ s. open_fail ip s)
           else
             let s = upd_file f (open_file (inodes s ip) ip omode) s in
             bind (if omode AND O_TRUNC \<noteq> 0 \<and> i_type (inodes s ip) = T_FILE then itrunc ip s else Ok () s) (\<lambda>_ s.
             bind (iunlock ip s) (\<lambda>_ s. end_op_ret fd s))))))))"

definition sys_mkdir :: "'z fsstate_scheme \<Rightarrow> (int, 'z fsstate_scheme) outcome" where
  "sys_mkdir s =
     bind (begin_op s) (\<lambda>_ s.
     bind (argpath 0 s) (\<lambda>path s. case path of None \<Rightarrow> end_op_ret (-1) s | Some path \<Rightarrow>
     bind (create path T_DIR 0 0 s) (\<lambda>ip s. case ip of None \<Rightarrow> end_op_ret (-1) s | Some ip \<Rightarrow>
     bind (iunlockput ip s) (\<lambda>_ s. end_op_ret 0 s))))"

definition sys_mknod :: "'z fsstate_scheme \<Rightarrow> (int, 'z fsstate_scheme) outcome" where
  "sys_mknod s =
     bind (begin_op s) (\<lambda>_ s.
     bind (argint 1 s) (\<lambda>major s. bind (argint 2 s) (\<lambda>minor s.
     bind (argpath 0 s) (\<lambda>path s. case path of None \<Rightarrow> end_op_ret (-1) s | Some path \<Rightarrow>
     bind (create path T_DEVICE (of_int major) (of_int minor) s) (\<lambda>ip s. case ip of None \<Rightarrow> end_op_ret (-1) s | Some ip \<Rightarrow>
     bind (iunlockput ip s) (\<lambda>_ s. end_op_ret 0 s))))))"

definition sys_chdir :: "'z fsstate_scheme \<Rightarrow> (int, 'z fsstate_scheme) outcome" where
  "sys_chdir s =
     bind (curproc s) (\<lambda>p s.
     bind (begin_op s) (\<lambda>_ s.
     bind (argpath 0 s) (\<lambda>path s. case path of None \<Rightarrow> end_op_ret (-1) s | Some path \<Rightarrow>
     bind (namei path s) (\<lambda>ip s. case ip of None \<Rightarrow> end_op_ret (-1) s | Some ip \<Rightarrow>
     bind (ilock ip s) (\<lambda>_ s.
       if i_type (inodes s ip) \<noteq> T_DIR then bind (iunlockput ip s) (\<lambda>_ s. end_op_ret (-1) s)
       else
         bind (iunlock ip s) (\<lambda>_ s.
         bind (case p_cwd (procs s p) of None \<Rightarrow> Panic ''kerneltrap'' | Some cwd \<Rightarrow> iput cwd s) (\<lambda>_ s.
         bind (end_op s) (\<lambda>_ s.
         Ok 0 (upd_proc p (p_cwd_update (\<lambda>_. Some ip)) s)))))))))"

definition sys_pipe_fail :: "nat \<Rightarrow> nat \<Rightarrow> 'z ftstate_scheme \<Rightarrow> (int, 'z ftstate_scheme) outcome" where
  "sys_pipe_fail rfl wfl s = bind (fileclose rfl s) (\<lambda>_ s. bind (fileclose wfl s) (\<lambda>_ s. Ok (-1) s))"

definition sys_pipe :: "'z ftstate_scheme \<Rightarrow> (int, 'z ftstate_scheme) outcome" where
  "sys_pipe s =
     bind (curproc s) (\<lambda>p s.
     bind (argaddr 0 s) (\<lambda>fdarray s.
     bind (pipealloc s) (\<lambda>r s. case r of None \<Rightarrow> Ok (-1) s | Some (rfl, wfl) \<Rightarrow>
     bind (fdalloc rfl s) (\<lambda>fd0 s.
       if fd0 < 0 then sys_pipe_fail rfl wfl s
       else bind (fdalloc wfl s) (\<lambda>fd1 s.
         if fd1 < 0 then sys_pipe_fail rfl wfl (set_ofile p (nat fd0) None s)
         else
           bind (copyout (p_pagetable (procs s p)) fdarray (bytes_of 4 (of_int fd0 :: u32)) s) (\<lambda>r s.
           bind (if r < 0 then Ok r s
                 else copyout (p_pagetable (procs s p)) (fdarray + 4) (bytes_of 4 (of_int fd1 :: u32)) s) (\<lambda>r s.
             if r < 0 then sys_pipe_fail rfl wfl (set_ofile p (nat fd1) None (set_ofile p (nat fd0) None s))
             else Ok 0 s)))))))"

end
