(* ===== verification/Exec.thy ===== *)
theory Exec
  imports Sysfile
begin

text \<open>
  Program loading (\<^verbatim>\<open>kernel/exec.c\<close>, \<^verbatim>\<open>kernel/elf.h\<close>) and \<^verbatim>\<open>sys_exec\<close>. The argument strings are in pages
  the kernel has allocated for them; \<^verbatim>\<open>argv\<close> is the list of their addresses up to the null pointer.
\<close>

section \<open>File format\<close>

definition ELF_MAGIC :: u32 where "ELF_MAGIC = 0x464C457F"
definition ELF_PROG_LOAD :: u32 where "ELF_PROG_LOAD = 1"
definition ELFHDR_SIZE :: nat where "ELFHDR_SIZE = 64"
definition PROGHDR_SIZE :: nat where "PROGHDR_SIZE = 56"

record elfhdr =
  e_magic :: u32
  e_entry :: u64
  e_phoff :: u64
  e_phnum :: u16

record proghdr =
  ph_type :: u32
  ph_flags :: u32
  ph_off :: u64
  ph_vaddr :: u64
  ph_filesz :: u64
  ph_memsz :: u64

definition elfhdr_of :: "u8 list \<Rightarrow> elfhdr" where
  "elfhdr_of d = \<lparr>e_magic = get32 d 0, e_entry = get64 d 24, e_phoff = get64 d 32, e_phnum = get16 d 56\<rparr>"

definition proghdr_of :: "u8 list \<Rightarrow> proghdr" where
  "proghdr_of d = \<lparr>ph_type = get32 d 0, ph_flags = get32 d 4, ph_off = get64 d 8, ph_vaddr = get64 d 16,
     ph_filesz = get64 d 32, ph_memsz = get64 d 40\<rparr>"

definition flags2perm :: "u32 \<Rightarrow> u64" where
  "flags2perm flags =
     (let perm = (if flags AND 1 \<noteq> 0 then PTE_X else 0)
      in if flags AND 2 \<noteq> 0 then perm OR PTE_W else perm)"

section \<open>Loading\<close>

text \<open>The bytes \<^verbatim>\<open>readi\<close> delivers go to physical memory at \<^verbatim>\<open>pa\<close>. \<open>i\<close> steps through the segment page by page.\<close>

function loadseg_loop :: "u64 \<Rightarrow> u64 \<Rightarrow> nat \<Rightarrow> u32 \<Rightarrow> nat \<Rightarrow> nat \<Rightarrow> 'z fsstate_scheme \<Rightarrow> (int, 'z fsstate_scheme) outcome" where
  "loadseg_loop pagetable va ip offset sz i s =
     (if i < sz then
        bind (walkaddr pagetable (va + of_nat i) s) (\<lambda>pa s.
          if pa = 0 then Panic ''loadseg: address should exist''
          else let n = (if sz - i < 4096 then sz - i else 4096) in
            bind (readi ip KernDst (offset + of_nat i) (of_nat n) s) (\<lambda>(r, bs) s.
              let s = s\<lparr>mem := store_bytes (mem s) pa bs\<rparr> in
              if r \<noteq> int n then Ok (-1) s
              else loadseg_loop pagetable va ip offset sz (i + 4096) s))
      else Ok 0 s)"
  by pat_completeness auto
termination
  by (relation "measure (\<lambda>(_, _, _, _, sz, i, _). sz - i)") auto

declare loadseg_loop.simps [simp del]

definition loadseg :: "u64 \<Rightarrow> u64 \<Rightarrow> nat \<Rightarrow> u32 \<Rightarrow> u32 \<Rightarrow> 'z fsstate_scheme \<Rightarrow> (int, 'z fsstate_scheme) outcome" where
  "loadseg pagetable va ip offset sz s = loadseg_loop pagetable va ip offset (unat sz) 0 s"

text \<open>The loop over program headers; the flag is \<open>False\<close> for \<^verbatim>\<open>goto bad\<close>, with the size reached.\<close>

fun exec_load :: "nat \<Rightarrow> u64 \<Rightarrow> nat \<Rightarrow> u32 \<Rightarrow> u64 \<Rightarrow> 'z fsstate_scheme \<Rightarrow> (bool \<times> u64, 'z fsstate_scheme) outcome" where
  "exec_load 0 pagetable ip off sz s = Ok (True, sz) s"
| "exec_load (Suc k) pagetable ip off sz s =
     bind (readi ip KernDst off (of_nat PROGHDR_SIZE) s) (\<lambda>(r, bs) s.
       if r \<noteq> int PROGHDR_SIZE then Ok (False, sz) s
       else let ph = proghdr_of bs in
         if ph_type ph \<noteq> ELF_PROG_LOAD then exec_load k pagetable ip (off + of_nat PROGHDR_SIZE) sz s
         else if ph_memsz ph < ph_filesz ph then Ok (False, sz) s
         else if ph_vaddr ph + ph_memsz ph < ph_vaddr ph then Ok (False, sz) s
         else if ph_vaddr ph mod PGSIZE \<noteq> 0 then Ok (False, sz) s
         else bind (uvmalloc pagetable sz (ph_vaddr ph + ph_memsz ph) (flags2perm (ph_flags ph)) s) (\<lambda>sz1 s.
           if sz1 = 0 then Ok (False, sz) s
           else bind (loadseg pagetable (ph_vaddr ph) ip (ucast (ph_off ph)) (ucast (ph_filesz ph)) s) (\<lambda>r s.
             if r < 0 then Ok (False, sz1) s
             else exec_load k pagetable ip (off + of_nat PROGHDR_SIZE) sz1 s)))"

text \<open>
  Pushing the argument strings: \<open>None\<close> for \<^verbatim>\<open>goto bad\<close>, otherwise the stack pointer and \<^verbatim>\<open>ustack\<close>.
\<close>

fun exec_args :: "u64 list \<Rightarrow> nat \<Rightarrow> u64 \<Rightarrow> u64 \<Rightarrow> u64 \<Rightarrow> u64 list \<Rightarrow> 'z kmem_scheme \<Rightarrow>
    ((u64 \<times> u64 list) option, 'z kmem_scheme) outcome" where
  "exec_args [] argc pagetable sp stackbase ustack s = Ok (Some (sp, ustack)) s"
| "exec_args (a # argv) argc pagetable sp stackbase ustack s =
     (if argc \<ge> MAXARG then Ok None s
      else case strlen (at_mem (mem s) a) of None \<Rightarrow> Stuck
        | Some l \<Rightarrow>
            let sp = sp - (of_nat l + 1); sp = sp - sp mod 16 in
            if sp < stackbase then Ok None s
            else bind (copyout pagetable sp (load_bytes (mem s) a (l + 1)) s) (\<lambda>r s.
              if r < 0 then Ok None s
              else exec_args argv (argc + 1) pagetable sp stackbase (ustack @ [sp]) s))"

fun last_elem :: "u8 list \<Rightarrow> u8 list \<Rightarrow> u8 list" where
  "last_elem [] lst = lst"
| "last_elem (c # cs) lst = last_elem cs (if c = 47 then cs else lst)"

section \<open>Exec\<close>

text \<open>\<^verbatim>\<open>bad\<close> before and after the inode has been released.\<close>

definition exec_bad :: "u64 \<Rightarrow> u64 \<Rightarrow> nat option \<Rightarrow> 'z fsstate_scheme \<Rightarrow> (int, 'z fsstate_scheme) outcome" where
  "exec_bad pagetable sz ip s =
     bind (if pagetable \<noteq> 0 then proc_freepagetable pagetable sz s else Ok () s) (\<lambda>_ s.
       case ip of None \<Rightarrow> Ok (-1) s
       | Some ip \<Rightarrow> bind (iunlockput ip s) (\<lambda>_ s. end_op_ret (-1) s))"

text \<open>From \<^verbatim>\<open>p = myproc()\<close> on: the stack, the arguments, and the switch to the new image.\<close>

definition exec_commit :: "u8 list \<Rightarrow> nat \<Rightarrow> u64 \<Rightarrow> u64 \<Rightarrow> u64 \<Rightarrow> u64 \<Rightarrow> 'z pstate_scheme \<Rightarrow> (unit, 'z pstate_scheme) outcome" where
  "exec_commit path p pagetable sz epc sp s =
     (let s = tf_put p TF_a1 sp s;
          s = set_name p (rd (last_elem path path)) s;
          oldpagetable = p_pagetable (procs s p);
          oldsz = p_sz (procs s p);
          s = upd_proc p (\<lambda>q. q\<lparr>p_pagetable := pagetable, p_sz := sz\<rparr>) s;
          s = tf_put p TF_epc epc s;
          s = tf_put p TF_sp sp s
      in proc_freepagetable oldpagetable oldsz s)"

definition exec_stack :: "u8 list \<Rightarrow> u64 list \<Rightarrow> u64 \<Rightarrow> u64 \<Rightarrow> u64 \<Rightarrow> 'z fsstate_scheme \<Rightarrow> (int, 'z fsstate_scheme) outcome" where
  "exec_stack path argv pagetable sz epc s =
     bind (curproc s) (\<lambda>p s.
     let sz = PGROUNDUP sz in
     bind (uvmalloc pagetable sz (sz + 2 * PGSIZE) PTE_W s) (\<lambda>sz1 s.
       if sz1 = 0 then exec_bad pagetable sz None s
       else
         bind (uvmclear pagetable (sz1 - 2 * PGSIZE) s) (\<lambda>_ s.
         let stackbase = sz1 - PGSIZE in
         bind (exec_args argv 0 pagetable sz1 stackbase [] s) (\<lambda>r s.
           case r of None \<Rightarrow> exec_bad pagetable sz1 None s
           | Some (sp, ustack) \<Rightarrow>
               let argc = length argv;
                   sp = sp - of_nat ((argc + 1) * 8);
                   sp = sp - sp mod 16 in
               if sp < stackbase then exec_bad pagetable sz1 None s
               else bind (copyout pagetable sp (concat (map (bytes_of 8) (ustack @ [0]))) s) (\<lambda>r s.
                 if r < 0 then exec_bad pagetable sz1 None s
                 else bind (exec_commit path p pagetable sz1 epc sp s) (\<lambda>_ s. Ok (int argc) s))))))"

definition exec :: "u8 list \<Rightarrow> u64 list \<Rightarrow> 'z fsstate_scheme \<Rightarrow> (int, 'z fsstate_scheme) outcome" where
  "exec path argv s =
     bind (curproc s) (\<lambda>p s.
     bind (begin_op s) (\<lambda>_ s.
     bind (namei path s) (\<lambda>ip s. case ip of None \<Rightarrow> end_op_ret (-1) s | Some ip \<Rightarrow>
     bind (ilock ip s) (\<lambda>_ s.
     bind (readi ip KernDst 0 (of_nat ELFHDR_SIZE) s) (\<lambda>(r, bs) s.
       if r \<noteq> int ELFHDR_SIZE then exec_bad 0 0 (Some ip) s
       else let elf = elfhdr_of bs in
         if e_magic elf \<noteq> ELF_MAGIC then exec_bad 0 0 (Some ip) s
         else bind (proc_pagetable p s) (\<lambda>pagetable s.
           if pagetable = 0 then exec_bad 0 0 (Some ip) s
           else bind (exec_load (unat (e_phnum elf)) pagetable ip (ucast (e_phoff elf)) 0 s) (\<lambda>(ok, sz) s.
             if \<not> ok then exec_bad pagetable sz (Some ip) s
             else bind (iunlockput ip s) (\<lambda>_ s.
               bind (end_op s) (\<lambda>_ s. exec_stack path argv pagetable sz (e_entry elf) s)))))))))"

text \<open>
  Fetching the argument vector; \<open>False\<close> for \<^verbatim>\<open>goto bad\<close>. The strings are copied to fresh pages, also the part of
  a string that \<^verbatim>\<open>fetchstr\<close> has copied before it fails.
\<close>

fun fetch_argv :: "nat \<Rightarrow> u64 \<Rightarrow> nat \<Rightarrow> u64 list \<Rightarrow> 'z pstate_scheme \<Rightarrow> (bool \<times> u64 list, 'z pstate_scheme) outcome" where
  "fetch_argv 0 uargv i argv s = Ok (False, argv) s"
| "fetch_argv (Suc k) uargv i argv s =
     bind (fetchaddr (uargv + of_nat (8 * i)) s) (\<lambda>(r, uarg) s.
       if r < 0 then Ok (False, argv) s
       else if uarg = 0 then Ok (True, argv) s
       else bind (kalloc s) (\<lambda>pa s.
         if pa = 0 then Ok (False, argv) s
         else bind (fetchstr uarg 4096 s) (\<lambda>(r, bs) s.
           let s = s\<lparr>mem := store_bytes (mem s) pa bs\<rparr> in
           if r < 0 then Ok (False, argv @ [pa]) s
           else fetch_argv k uargv (i + 1) (argv @ [pa]) s)))"

fun free_argv :: "u64 list \<Rightarrow> 'z kmem_scheme \<Rightarrow> (unit, 'z kmem_scheme) outcome" where
  "free_argv [] s = Ok () s"
| "free_argv (a # as) s = bind (kfree a s) (\<lambda>_ s. free_argv as s)"

definition sys_exec :: "'z fsstate_scheme \<Rightarrow> (int, 'z fsstate_scheme) outcome" where
  "sys_exec s =
     bind (argaddr 1 s) (\<lambda>uargv s.
     bind (argpath 0 s) (\<lambda>path s. case path of None \<Rightarrow> Ok (-1) s | Some path \<Rightarrow>
     bind (fetch_argv MAXARG uargv 0 [] s) (\<lambda>(ok, argv) s.
       if \<not> ok then bind (free_argv argv s) (\<lambda>_ s. Ok (-1) s)
       else bind (exec path argv s) (\<lambda>ret s.
         bind (free_argv argv s) (\<lambda>_ s. Ok ret s)))))"

end
