(* ===== verification/Syscall.thy ===== *)
theory Syscall
  imports Exec
begin

text \<open>
  System calls on processes (\<^verbatim>\<open>kernel/sysproc.c\<close>) and the dispatcher (\<^verbatim>\<open>syscall\<close> of \<^verbatim>\<open>kernel/syscall.c\<close>). The
  record is extended with the clock and with the registers of theory \<open>Trap\<close>.
\<close>

section \<open>State\<close>

record csr =
  c_stvec :: u64
  c_sepc :: u64
  c_scause :: u64
  c_stval :: u64
  c_sstatus :: u64
  c_sip :: u64

text \<open>
  \<open>plic\<close> are the words of the interrupt controller, \<open>plic_feed\<close> what successive reads of a claim
  register return. The last fields are addresses of assembly code fixed by the linker.
\<close>

record trstate = ftstate +
  ticks :: u32
  csrs :: "nat \<Rightarrow> csr"
  plic :: "u64 \<Rightarrow> u32"
  plic_feed :: "u32 list"
  started :: bool
  kernelvec :: u64
  usertrap_addr :: u64
  uservec_off :: u64
  userret_off :: u64

text \<open>These fields are no part of the locking state.\<close>

lemma ticks_frame [simp]:
  "grab lk (ticks_update g s) = ticks_update g (grab lk s)" "norm (ticks_update g s) = ticks_update g (norm s)"
  "hart_ok (ticks_update g s) = hart_ok s" "lock_free lk (ticks_update g s) = lock_free lk s"
  "ticks (grab lk s) = ticks s" "ticks (norm s) = ticks s"
  "ticks_update (\<lambda>_. ticks s) (grab lk s) = grab lk s" "ticks_update (\<lambda>_. ticks s) (norm s) = norm s"
  by (simp_all add: grab_def norm_def hart_ok_def lock_free_def spinlock_defs Let_def)

section \<open>Processes and time\<close>

definition sys_exit :: "'z ftstate_scheme \<Rightarrow> (int, 'z ftstate_scheme) outcome" where
  "sys_exit s = bind (argint 0 s) (\<lambda>n s. bind (exit n s) (\<lambda>(_ :: unit) s. Ok 0 s))"

definition sys_getpid :: "'z ftstate_scheme \<Rightarrow> (int, 'z ftstate_scheme) outcome" where
  "sys_getpid s = bind (curproc s) (\<lambda>p s. Ok (p_pid (procs s p)) s)"

definition sys_fork :: "'z ftstate_scheme \<Rightarrow> (int, 'z ftstate_scheme) outcome" where
  "sys_fork s = fork s"

definition sys_wait :: "'z ftstate_scheme \<Rightarrow> (int, 'z ftstate_scheme) outcome" where
  "sys_wait s = bind (argaddr 0 s) (\<lambda>p s. wait p s)"

text \<open>The old size is a 64-bit value; \<^verbatim>\<open>sys_sbrk\<close> is the one call here whose result is not an \<^verbatim>\<open>int\<close>.\<close>

definition sys_sbrk :: "'z ftstate_scheme \<Rightarrow> (u64, 'z ftstate_scheme) outcome" where
  "sys_sbrk s =
     bind (argint 0 s) (\<lambda>n s.
     bind (curproc s) (\<lambda>p s.
     let addr = p_sz (procs s p) in
     bind (growproc n s) (\<lambda>r s. if r < 0 then Ok (-1) s else Ok addr s)))"

text \<open>The comparison \<^verbatim>\<open>ticks - ticks0 < n\<close> is unsigned.\<close>

fun sys_sleep_loop :: "nat \<Rightarrow> u32 \<Rightarrow> int \<Rightarrow> 'z trstate_scheme \<Rightarrow> (int, 'z trstate_scheme) outcome" where
  "sys_sleep_loop fuel ticks0 n s =
     (if ticks s - ticks0 < of_int n then
        (case fuel of 0 \<Rightarrow> NoFuel
         | Suc fuel \<Rightarrow>
             bind (curproc s) (\<lambda>p s. bind (killed p s) (\<lambda>k s.
               if k \<noteq> 0 then bind (release TicksLock s) (\<lambda>_ s. Ok (-1) s)
               else bind (sleep ChanTicks TicksLock s) (\<lambda>_ s. sys_sleep_loop fuel ticks0 n s))))
      else bind (release TicksLock s) (\<lambda>_ s. Ok 0 s))"

declare sys_sleep_loop.simps [simp del]

definition sys_sleep :: "'z trstate_scheme \<Rightarrow> (int, 'z trstate_scheme) outcome" where
  "sys_sleep s =
     bind (argint 0 s) (\<lambda>n s.
     bind (acquire TicksLock s) (\<lambda>_ s. sys_sleep_loop (patience s) (ticks s) n s))"

definition sys_kill :: "'z ftstate_scheme \<Rightarrow> (int, 'z ftstate_scheme) outcome" where
  "sys_kill s = bind (argint 0 s) (\<lambda>pid s. kill pid s)"

definition sys_uptime :: "'z trstate_scheme \<Rightarrow> (u32, 'z trstate_scheme) outcome" where
  "sys_uptime s = with_lock TicksLock (\<lambda>s. Ok (ticks s) s) s"

section \<open>Dispatch\<close>

datatype sysno =
    SYS_fork | SYS_exit | SYS_wait | SYS_pipe | SYS_read | SYS_kill | SYS_exec
  | SYS_fstat | SYS_chdir | SYS_dup | SYS_getpid | SYS_sbrk | SYS_sleep | SYS_uptime
  | SYS_open | SYS_write | SYS_mknod | SYS_unlink | SYS_link | SYS_mkdir | SYS_close

fun sysnum :: "sysno \<Rightarrow> int" where
  "sysnum SYS_fork = 1"
| "sysnum SYS_exit = 2"
| "sysnum SYS_wait = 3"
| "sysnum SYS_pipe = 4"
| "sysnum SYS_read = 5"
| "sysnum SYS_kill = 6"
| "sysnum SYS_exec = 7"
| "sysnum SYS_fstat = 8"
| "sysnum SYS_chdir = 9"
| "sysnum SYS_dup = 10"
| "sysnum SYS_getpid = 11"
| "sysnum SYS_sbrk = 12"
| "sysnum SYS_sleep = 13"
| "sysnum SYS_uptime = 14"
| "sysnum SYS_open = 15"
| "sysnum SYS_write = 16"
| "sysnum SYS_mknod = 17"
| "sysnum SYS_unlink = 18"
| "sysnum SYS_link = 19"
| "sysnum SYS_mkdir = 20"
| "sysnum SYS_close = 21"

text \<open>An \<^verbatim>\<open>int\<close> result is sign-extended when it is returned as \<^verbatim>\<open>uint64\<close>.\<close>

definition ret64 :: "(int, 's) outcome \<Rightarrow> (u64, 's) outcome" where
  "ret64 m = bind m (\<lambda>r s. Ok (of_int r) s)"

definition syscalls :: "int \<Rightarrow> ('z trstate_scheme \<Rightarrow> (u64, 'z trstate_scheme) outcome) option" where
  "syscalls num =
     (if num = sysnum SYS_fork then Some (\<lambda>s. ret64 (sys_fork s))
      else if num = sysnum SYS_exit then Some (\<lambda>s. ret64 (sys_exit s))
      else if num = sysnum SYS_wait then Some (\<lambda>s. ret64 (sys_wait s))
      else if num = sysnum SYS_pipe then Some (\<lambda>s. ret64 (sys_pipe s))
      else if num = sysnum SYS_read then Some (\<lambda>s. ret64 (sys_read s))
      else if num = sysnum SYS_kill then Some (\<lambda>s. ret64 (sys_kill s))
      else if num = sysnum SYS_exec then Some (\<lambda>s. ret64 (sys_exec s))
      else if num = sysnum SYS_fstat then Some (\<lambda>s. ret64 (sys_fstat s))
      else if num = sysnum SYS_chdir then Some (\<lambda>s. ret64 (sys_chdir s))
      else if num = sysnum SYS_dup then Some (\<lambda>s. ret64 (sys_dup s))
      else if num = sysnum SYS_getpid then Some (\<lambda>s. ret64 (sys_getpid s))
      else if num = sysnum SYS_sbrk then Some sys_sbrk
      else if num = sysnum SYS_sleep then Some (\<lambda>s. ret64 (sys_sleep s))
      else if num = sysnum SYS_uptime then Some (\<lambda>s. bind (sys_uptime s) (\<lambda>t s. Ok (ucast t) s))
      else if num = sysnum SYS_open then Some (\<lambda>s. ret64 (sys_open s))
      else if num = sysnum SYS_write then Some (\<lambda>s. ret64 (sys_write s))
      else if num = sysnum SYS_mknod then Some (\<lambda>s. ret64 (sys_mknod s))
      else if num = sysnum SYS_unlink then Some (\<lambda>s. ret64 (sys_unlink s))
      else if num = sysnum SYS_link then Some (\<lambda>s. ret64 (sys_link s))
      else if num = sysnum SYS_mkdir then Some (\<lambda>s. ret64 (sys_mkdir s))
      else if num = sysnum SYS_close then Some (\<lambda>s. ret64 (sys_close s))
      else None)"

definition syscall :: "'z trstate_scheme \<Rightarrow> (unit, 'z trstate_scheme) outcome" where
  "syscall s =
     bind (curproc s) (\<lambda>p s.
       let num = sint (ucast (tf_get p TF_a7 s) :: u32) in
       case syscalls num of
         Some f \<Rightarrow> bind (f s) (\<lambda>r s. Ok () (tf_put p TF_a0 r s))
       | None \<Rightarrow>
           bind (printfk ''%d %s: unknown sys call %d\<newline>''
             [ArgInt (p_pid (procs s p)), ArgStr (Some (p_name (procs s p))), ArgInt num] s) (\<lambda>_ s.
           Ok () (tf_put p TF_a0 (-1) s)))"

end
