(* ===== verification/Trap.thy ===== *)
theory Trap
  imports Syscall
begin

text \<open>
  Traps and boot: \<^verbatim>\<open>kernel/trap.c\<close>, \<^verbatim>\<open>kernel/plic.c\<close>, \<^verbatim>\<open>forkret\<close> of \<^verbatim>\<open>kernel/proc.c\<close>, \<^verbatim>\<open>kernel/main.c\<close> and
  \<^verbatim>\<open>kernel/start.c\<close>. The supervisor registers of each hart are a record; the SIE bit of \<^verbatim>\<open>sstatus\<close> is the
  field \<open>sie\<close> of theory \<open>Machine\<close>. Leaving the kernel through the trampoline is a normal return whose
  value is the argument of \<^verbatim>\<open>userret\<close>.
\<close>

section \<open>Registers\<close>

definition SSTATUS_SPP :: u64 where "SSTATUS_SPP = push_bit 8 1"
definition SSTATUS_SPIE :: u64 where "SSTATUS_SPIE = push_bit 5 1"
definition SSTATUS_SIE :: u64 where "SSTATUS_SIE = push_bit 1 1"

definition UART0_IRQ :: nat where "UART0_IRQ = 10"
definition VIRTIO0_IRQ :: nat where "VIRTIO0_IRQ = 1"
definition PLIC_SENABLE :: "nat \<Rightarrow> u64" where "PLIC_SENABLE hart = PLIC + 0x2080 + of_nat hart * 0x100"
definition PLIC_SPRIORITY :: "nat \<Rightarrow> u64" where "PLIC_SPRIORITY hart = PLIC + 0x201000 + of_nat hart * 0x2000"
definition PLIC_SCLAIM :: "nat \<Rightarrow> u64" where "PLIC_SCLAIM hart = PLIC + 0x201004 + of_nat hart * 0x2000"

definition mycsr :: "'z trstate_scheme \<Rightarrow> csr" where
  "mycsr s = csrs s (tp s)"

definition upd_csr :: "(csr \<Rightarrow> csr) \<Rightarrow> 'z trstate_scheme \<Rightarrow> 'z trstate_scheme" where
  "upd_csr f s = s\<lparr>csrs := (csrs s)(tp s := f (csrs s (tp s)))\<rparr>"

definition r_sstatus :: "'z trstate_scheme \<Rightarrow> u64" where
  "r_sstatus s =
     (if intr_get s then c_sstatus (mycsr s) OR SSTATUS_SIE else c_sstatus (mycsr s) AND NOT SSTATUS_SIE)"

definition w_sstatus :: "u64 \<Rightarrow> 'z trstate_scheme \<Rightarrow> 'z trstate_scheme" where
  "w_sstatus x s =
     (let s = upd_csr (\<lambda>c. c\<lparr>c_sstatus := x\<rparr>) s in if x AND SSTATUS_SIE \<noteq> 0 then intr_on s else intr_off s)"

definition w_stvec :: "u64 \<Rightarrow> 'z trstate_scheme \<Rightarrow> 'z trstate_scheme" where
  "w_stvec x s = upd_csr (\<lambda>c. c\<lparr>c_stvec := x\<rparr>) s"

definition w_sepc :: "u64 \<Rightarrow> 'z trstate_scheme \<Rightarrow> 'z trstate_scheme" where
  "w_sepc x s = upd_csr (\<lambda>c. c\<lparr>c_sepc := x\<rparr>) s"

definition w_sip :: "u64 \<Rightarrow> 'z trstate_scheme \<Rightarrow> 'z trstate_scheme" where
  "w_sip x s = upd_csr (\<lambda>c. c\<lparr>c_sip := x\<rparr>) s"

section \<open>The interrupt controller\<close>

definition plic_store :: "u64 \<Rightarrow> u32 \<Rightarrow> 'z trstate_scheme \<Rightarrow> 'z trstate_scheme" where
  "plic_store a v s = s\<lparr>plic := (plic s)(a := v)\<rparr>"

definition plicinit :: "'z trstate_scheme \<Rightarrow> 'z trstate_scheme" where
  "plicinit s = plic_store (PLIC + of_nat (VIRTIO0_IRQ * 4)) 1 (plic_store (PLIC + of_nat (UART0_IRQ * 4)) 1 s)"

definition plicinithart :: "'z trstate_scheme \<Rightarrow> 'z trstate_scheme" where
  "plicinithart s =
     (let hart = cpuid s;
          s = plic_store (PLIC_SENABLE hart) (push_bit UART0_IRQ 1 OR push_bit VIRTIO0_IRQ 1) s
      in plic_store (PLIC_SPRIORITY hart) 0 s)"

definition plic_claim :: "'z trstate_scheme \<Rightarrow> int \<times> 'z trstate_scheme" where
  "plic_claim s = (case plic_feed s of [] \<Rightarrow> (0, s) | i # is \<Rightarrow> (sint i, s\<lparr>plic_feed := is\<rparr>))"

definition plic_complete :: "int \<Rightarrow> 'z trstate_scheme \<Rightarrow> 'z trstate_scheme" where
  "plic_complete irq s = plic_store (PLIC_SCLAIM (cpuid s)) (of_int irq) s"

section \<open>Traps\<close>

definition trapinit :: "'z trstate_scheme \<Rightarrow> 'z trstate_scheme" where
  "trapinit s = initlock TicksLock ''time'' s"

definition trapinithart :: "'z trstate_scheme \<Rightarrow> 'z trstate_scheme" where
  "trapinithart s = w_stvec (kernelvec s) s"

definition clockintr :: "'z trstate_scheme \<Rightarrow> (unit, 'z trstate_scheme) outcome" where
  "clockintr s =
     bind (acquire TicksLock s) (\<lambda>_ s.
     bind (wakeup (Some ChanTicks) (s\<lparr>ticks := ticks s + 1\<rparr>)) (\<lambda>_ s.
     release TicksLock s))"

definition devintr :: "'z trstate_scheme \<Rightarrow> (int, 'z trstate_scheme) outcome" where
  "devintr s =
     (let scause = c_scause (mycsr s) in
      if scause AND 0x8000000000000000 \<noteq> 0 \<and> scause AND 0xff = 9 then
        (case plic_claim s of (irq, s) \<Rightarrow>
           bind
             (if irq = int UART0_IRQ then uartintr s
              else if irq = int VIRTIO0_IRQ then virtio_disk_intr s
              else if irq \<noteq> 0 then printfk ''unexpected interrupt irq=%d\<newline>'' [ArgInt irq] s
              else Ok () s) (\<lambda>_ s.
           Ok 1 (if irq \<noteq> 0 then plic_complete irq s else s)))
      else if scause = 0x8000000000000001 then
        bind (if cpuid s = 0 then clockintr s else Ok () s) (\<lambda>_ s.
        Ok 2 (w_sip (c_sip (mycsr s) AND NOT 2) s))
      else Ok 0 s)"

definition usertrapret :: "'z trstate_scheme \<Rightarrow> (u64, 'z trstate_scheme) outcome" where
  "usertrapret s =
     bind (curproc s) (\<lambda>p s.
       let s = intr_off s;
           s = w_stvec (TRAMPOLINE + uservec_off s) s;
           s = tf_put p TF_kernel_satp (satp s (tp s)) s;
           s = tf_put p TF_kernel_sp (p_kstack (procs s p) + PGSIZE) s;
           s = tf_put p TF_kernel_trap (usertrap_addr s) s;
           s = tf_put p TF_kernel_hartid (of_nat (tp s)) s;
           x = (r_sstatus s AND NOT SSTATUS_SPP) OR SSTATUS_SPIE;
           s = w_sstatus x s;
           s = w_sepc (tf_get p TF_epc s) s
       in Ok (MAKE_SATP (p_pagetable (procs s p))) s)"

definition usertrap :: "'z trstate_scheme \<Rightarrow> (u64, 'z trstate_scheme) outcome" where
  "usertrap s =
     (if r_sstatus s AND SSTATUS_SPP \<noteq> 0 then Panic ''usertrap: not from user mode''
      else
        bind (curproc (w_stvec (kernelvec s) s)) (\<lambda>p s.
        let s = tf_put p TF_epc (c_sepc (mycsr s)) s in
        bind
          (if c_scause (mycsr s) = 8 then
             bind (killed p s) (\<lambda>k s.
             bind (if k \<noteq> 0 then exit (-1) s else Ok () s) (\<lambda>_ s.
             bind (syscall (intr_on (tf_put p TF_epc (tf_get p TF_epc s + 4) s))) (\<lambda>_ s. Ok 0 s)))
           else bind (devintr s) (\<lambda>which s.
             if which \<noteq> 0 then Ok which s
             else
               bind (printfk ''usertrap(): unexpected scause %p pid=%d\<newline>''
                 [ArgPtr (c_scause (mycsr s)), ArgInt (p_pid (procs s p))] s) (\<lambda>_ s.
               bind (printfk ''            sepc=%p stval=%p\<newline>''
                 [ArgPtr (c_sepc (mycsr s)), ArgPtr (c_stval (mycsr s))] s) (\<lambda>_ s.
               bind (setkilled p s) (\<lambda>_ s. Ok 0 s))))) (\<lambda>which_dev s.
        bind (killed p s) (\<lambda>k s.
        bind (if k \<noteq> 0 then exit (-1) s else Ok () s) (\<lambda>_ s.
        bind (if which_dev = 2 then yield s else Ok () s) (\<lambda>_ s.
        usertrapret s))))))"

definition kerneltrap :: "'z trstate_scheme \<Rightarrow> (unit, 'z trstate_scheme) outcome" where
  "kerneltrap s =
     (let sepc = c_sepc (mycsr s); sstatus = r_sstatus s; scause = c_scause (mycsr s) in
      if sstatus AND SSTATUS_SPP = 0 then Panic ''kerneltrap: not from supervisor mode''
      else if intr_get s then Panic ''kerneltrap: interrupts enabled''
      else bind (devintr s) (\<lambda>which_dev s.
        if which_dev = 0 then
          bind (printfk ''scause %p\<newline>'' [ArgPtr scause] s) (\<lambda>_ s.
          bind (printfk ''sepc=%p stval=%p\<newline>'' [ArgPtr (c_sepc (mycsr s)), ArgPtr (c_stval (mycsr s))] s) (\<lambda>_ s.
          Panic ''kerneltrap''))
        else
          bind (if which_dev \<noteq> 2 then Ok () s
                else bind (myproc s) (\<lambda>p s. case p of None \<Rightarrow> Ok () s
                  | Some _ \<Rightarrow> bind (curproc s) (\<lambda>p s. if p_state (procs s p) = RUNNING then yield s else Ok () s))) (\<lambda>_ s.
          Ok () (w_sstatus sstatus (w_sepc sepc s)))))"

definition forkret :: "'z trstate_scheme \<Rightarrow> (u64, 'z trstate_scheme) outcome" where
  "forkret s =
     bind (curproc s) (\<lambda>p s.
     bind (release (ProcLock p) s) (\<lambda>_ s.
     bind (if first s then fsinit (uint ROOTDEV) (s\<lparr>first := False\<rparr>) else Ok () s) (\<lambda>_ s.
     usertrapret s)))"

section \<open>Boot\<close>

text \<open>
  \<^verbatim>\<open>main\<close> on one hart up to the call of \<^verbatim>\<open>scheduler\<close>; a hart other than 0 spins until \<^verbatim>\<open>started\<close> is set.
\<close>

definition main_hart0 :: "react \<Rightarrow> 'z trstate_scheme \<Rightarrow> (unit, 'z trstate_scheme) outcome" where
  "main_hart0 react s =
     (let s = printfkinit (consoleinit s) in
      bind (printfk ''\<newline>'' [] s) (\<lambda>_ s.
      bind (printfk ''xv6 kernel is booting\<newline>'' [] s) (\<lambda>_ s.
      bind (printfk ''\<newline>'' [] s) (\<lambda>_ s.
      bind (kinit s) (\<lambda>_ s.
      bind (kvminit s) (\<lambda>_ s.
      let s = kvminithart s;
          s = procinit s;
          s = trapinit s;
          s = trapinithart s;
          s = plicinit s;
          s = plicinithart s;
          s = binit s;
          s = iinit s;
          s = fileinit s in
      bind (virtio_disk_init react s) (\<lambda>_ s.
      bind (userinit s) (\<lambda>_ s.
      Ok () (s\<lparr>started := True\<rparr>)))))))))"

definition main :: "react \<Rightarrow> nat \<Rightarrow> 'z trstate_scheme \<Rightarrow> (unit, 'z trstate_scheme) outcome" where
  "main react fuel s =
     bind
       (if cpuid s = 0 then main_hart0 react s
        else if \<not> started s then Stuck
        else bind (printfk ''hart %d starting\<newline>'' [ArgInt (int (cpuid s))] s) (\<lambda>_ s.
          Ok () (plicinithart (trapinithart (kvminithart s)))))
       (\<lambda>_ s. scheduler fuel s)"

text \<open>Machine mode: \<^verbatim>\<open>start\<close> sets up one hart and falls into \<^verbatim>\<open>main\<close> with \<^verbatim>\<open>mret\<close>.\<close>

definition MSTATUS_MPP_MASK :: u64 where "MSTATUS_MPP_MASK = push_bit 11 3"
definition MSTATUS_MPP_S :: u64 where "MSTATUS_MPP_S = push_bit 11 1"
definition MSTATUS_MIE :: u64 where "MSTATUS_MIE = push_bit 3 1"
definition SIE_SEIE :: u64 where "SIE_SEIE = push_bit 9 1"
definition SIE_STIE :: u64 where "SIE_STIE = push_bit 5 1"
definition SIE_SSIE :: u64 where "SIE_SSIE = push_bit 1 1"
definition MIE_MTIE :: u64 where "MIE_MTIE = push_bit 7 1"
definition CLINT :: u64 where "CLINT = 0x2000000"
definition CLINT_MTIMECMP :: "u64 \<Rightarrow> u64" where "CLINT_MTIMECMP hartid = CLINT + 0x4000 + 8 * hartid"
definition CLINT_MTIME :: u64 where "CLINT_MTIME = CLINT + 0xBFF8"

record mregs =
  mhartid :: u64
  mstatus :: u64
  mepc :: u64
  m_satp :: u64
  medeleg :: u64
  mideleg :: u64
  m_sie :: u64
  pmpaddr0 :: u64
  pmpcfg0 :: u64
  mscratch :: u64
  mtvec :: u64
  mie :: u64
  m_tp :: u64
  clint :: "u64 \<Rightarrow> u64"
  timer_scratch :: "nat \<Rightarrow> nat \<Rightarrow> u64"

text \<open>\<open>scratch\<close> is the address of \<^verbatim>\<open>timer_scratch[0]\<close>; a row is five 64-bit words.\<close>

definition timerinit :: "u64 \<Rightarrow> u64 \<Rightarrow> mregs \<Rightarrow> mregs" where
  "timerinit scratch timervec m =
     (let id = mhartid m;
          interval = 1000000;
          m = m\<lparr>clint := (clint m)(CLINT_MTIMECMP id := clint m CLINT_MTIME + interval)\<rparr>;
          m = m\<lparr>timer_scratch := (timer_scratch m)(unat id := (timer_scratch m (unat id))(3 := CLINT_MTIMECMP id, 4 := interval))\<rparr>;
          m = m\<lparr>mscratch := scratch + id * 40\<rparr>;
          m = m\<lparr>mtvec := timervec\<rparr>;
          m = m\<lparr>mstatus := mstatus m OR MSTATUS_MIE\<rparr>
      in m\<lparr>mie := mie m OR MIE_MTIE\<rparr>)"

definition start :: "u64 \<Rightarrow> u64 \<Rightarrow> u64 \<Rightarrow> mregs \<Rightarrow> mregs" where
  "start main_addr scratch timervec m =
     (let x = (mstatus m AND NOT MSTATUS_MPP_MASK) OR MSTATUS_MPP_S;
          m = m\<lparr>mstatus := x\<rparr>;
          m = m\<lparr>mepc := main_addr\<rparr>;
          m = m\<lparr>m_satp := 0\<rparr>;
          m = m\<lparr>medeleg := 0xffff\<rparr>;
          m = m\<lparr>mideleg := 0xffff\<rparr>;
          m = m\<lparr>m_sie := m_sie m OR SIE_SEIE OR SIE_STIE OR SIE_SSIE\<rparr>;
          m = m\<lparr>pmpaddr0 := 0x3fffffffffffff\<rparr>;
          m = m\<lparr>pmpcfg0 := 0xf\<rparr>;
          m = timerinit scratch timervec m
      in m\<lparr>m_tp := mhartid m\<rparr>)"

end
