(* ===== verification/ProcFacts.thy ===== *)
theory ProcFacts
  imports Virtio
begin

text \<open>
  Behaviour of the process operations of theory \<open>Proc\<close>: what \<^verbatim>\<open>wakeup\<close>, \<^verbatim>\<open>kill\<close> and their relatives do to the
  process table when the locks they take are free, the contract of \<^verbatim>\<open>sleep\<close>, and the scheduler.
\<close>

section \<open>Current process and short critical sections\<close>

definition curp :: "'z machine_scheme \<Rightarrow> nat option" where
  "curp s = cpu_proc (cpus s (tp s))"

lemma curp_simps [simp]:
  "curp (norm s) = curp s" "curp (grab lk s) = curp s" "curp (mem_update f s) = curp s"
  by (simp_all add: curp_def)

lemma curp_frame [simp]:
  "curp (procs_update f s) = curp s" "curp (nextpid_update g s) = curp s"
  by (simp_all add: curp_def)

lemma myproc_eq: "hart_ok s \<Longrightarrow> myproc s = Ok (curp s) (norm s)"
  by (simp add: myproc_def pop_push curp_def)
    (simp add: spinlock_defs Let_def)

lemma curproc_eq: "hart_ok s \<Longrightarrow> curp s = Some p \<Longrightarrow> curproc s = Ok p (norm s)"
  by (simp add: curproc_def myproc_eq)

text \<open>The locks of all processes but the current one are free.\<close>

definition plocks_free :: "'z machine_scheme \<Rightarrow> bool" where
  "plocks_free s \<longleftrightarrow> (\<forall>p < NPROC. lock_free (ProcLock p) s)"

lemma plocks_free_simps [simp]:
  "plocks_free (norm s) = plocks_free s" "plocks_free (procs_update f s) = plocks_free s"
  by (simp_all add: plocks_free_def)

lemma plocks_free_grab [simp]: "(\<And>p. lk \<noteq> ProcLock p) \<Longrightarrow> plocks_free (grab lk s) = plocks_free s"
  by (auto simp: plocks_free_def)

lemma plocks_freeD: "plocks_free s \<Longrightarrow> p < NPROC \<Longrightarrow> lock_free (ProcLock p) s"
  by (simp add: plocks_free_def)

lemma killed_eq:
  "hart_ok s \<Longrightarrow> lock_free (ProcLock p) s \<Longrightarrow> killed p s = Ok (p_killed (procs s p)) (norm s)"
  unfolding killed_def by (rule with_lock_pure) auto

lemma setkilled_eq:
  "hart_ok s \<Longrightarrow> lock_free (ProcLock p) s \<Longrightarrow>
     setkilled p s = Ok () (norm (upd_proc p (p_killed_update (\<lambda>_. 1)) s))"
  unfolding setkilled_def by (rule with_lock_pure) (auto simp: upd_proc_def)

section \<open>Wakeup\<close>

definition wake_proc :: "chan option \<Rightarrow> proc \<Rightarrow> proc" where
  "wake_proc ch q = (if p_state q = SLEEPING \<and> p_chan q = ch then q\<lparr>p_state := RUNNABLE\<rparr> else q)"

definition woken :: "nat set \<Rightarrow> chan option \<Rightarrow> 'z pstate_scheme \<Rightarrow> 'z pstate_scheme" where
  "woken P ch s = s\<lparr>procs := (\<lambda>p. if p \<in> P \<and> curp s \<noteq> Some p then wake_proc ch (procs s p) else procs s p)\<rparr>"

lemma wakeup_one:
  assumes "hart_ok s" "lock_free (ProcLock p) s"
  shows "bind (acquire (ProcLock p) s) (\<lambda>_ s. release (ProcLock p)
      (if p_state (procs s p) = SLEEPING \<and> p_chan (procs s p) = ch
       then upd_proc p (p_state_update (\<lambda>_. RUNNABLE)) s else s))
    = Ok () (norm (upd_proc p (wake_proc ch) s))"
  using assms release_grab[of "upd_proc p (wake_proc ch) s" "ProcLock p"]
  by (auto simp: acquire_lock_free upd_proc_def wake_proc_def)

lemma woken_insert:
  assumes "p \<notin> set ps"
  shows "woken (insert p (set ps)) ch s =
    woken (set ps) ch (if curp s \<noteq> Some p then upd_proc p (wake_proc ch) s else s)"
  using assms by (auto simp: woken_def upd_proc_def fun_eq_iff intro!: pstate.fold_congs)

lemma norm_woken: "norm (woken P ch s) = woken P ch (norm s)"
  by (simp add: woken_def cong: if_cong)

lemma woken_empty [simp]: "woken {} ch s = s"
  by (simp add: woken_def)

lemma wakeup_loop_eq:
  assumes "hart_ok s" "\<forall>p \<in> set ps. lock_free (ProcLock p) s" "distinct ps" "ps \<noteq> []"
  shows "wakeup_loop ps ch s = Ok () (norm (woken (set ps) ch s))"
  using assms
proof (induction ps arbitrary: s)
  case (Cons p ps)
  define t where "t = (if curp s \<noteq> Some p then upd_proc p (wake_proc ch) s else s)"
  have ok: "hart_ok t" "\<forall>q \<in> set (p # ps). lock_free (ProcLock q) t"
    using Cons.prems by (auto simp: t_def upd_proc_def)
  have step: "wakeup_loop (p # ps) ch s = wakeup_loop ps ch (norm t)"
    using Cons.prems by (auto simp: myproc_eq wakeup_one t_def upd_proc_def)
  have w: "woken (set (p # ps)) ch s = woken (set ps) ch t"
    using Cons.prems(3) by (simp add: t_def woken_insert)
  show ?case
  proof (cases "ps = []")
    case True
    then show ?thesis using step w by simp
  next
    case False
    have "wakeup_loop ps ch (norm t) = Ok () (norm (woken (set ps) ch (norm t)))"
      using ok Cons.prems(3) False by (intro Cons.IH) auto
    then show ?thesis using step w by (simp add: norm_woken)
  qed
qed simp

lemma wakeup_eq:
  assumes "hart_ok s" "plocks_free s"
  shows "wakeup ch s = Ok () (norm (woken {..<NPROC} ch s))"
  unfolding wakeup_def
  using wakeup_loop_eq[of s "[0..<NPROC]" ch] assms
  by (simp add: plocks_free_def lessThan_atLeast0 NPROC_def)

lemma woken_grab: "woken P ch (grab lk s) = grab lk (woken P ch s)"
  by (simp add: woken_def cong: if_cong)

lemma woken_frame: "hart_ok (woken P ch s) = hart_ok s" "lock_free lk (woken P ch s) = lock_free lk s"
  "mem (woken P ch s) = mem s"
  by (simp_all add: woken_def)

text \<open>A wakeup inside a critical section.\<close>

lemma wakeup_in_section:
  assumes "hart_ok s" "plocks_free s" "\<And>p. lk \<noteq> ProcLock p"
  shows "wakeup ch (grab lk s) = Ok () (grab lk (woken {..<NPROC} ch s))"
  using assms by (simp add: wakeup_eq hart_ok_grab woken_grab woken_frame)

section \<open>Kill\<close>

definition kill_proc :: "proc \<Rightarrow> proc" where
  "kill_proc q = q\<lparr>p_killed := 1, p_state := (if p_state q = SLEEPING then RUNNABLE else p_state q)\<rparr>"

lemma kill_loop_eq:
  assumes "hart_ok s" "\<forall>p \<in> set ps. lock_free (ProcLock p) s"
  shows "kill_loop ps pid (norm s) =
    (case find (\<lambda>p. p_pid (procs s p) = pid) ps of
       None \<Rightarrow> Ok (-1) (norm s) | Some p \<Rightarrow> Ok 0 (norm (upd_proc p kill_proc s)))"
  using assms
proof (induction ps)
  case (Cons p ps)
  note rel = release_grab[of s "ProcLock p"] release_grab[of "upd_proc p kill_proc s" "ProcLock p"]
  show ?case
  proof (cases "p_pid (procs s p) = pid")
    case True
    then show ?thesis using Cons.prems rel
      by (auto simp: acquire_lock_free upd_proc_def kill_proc_def Let_def)
  next
    case False
    then show ?thesis using Cons rel by (simp add: acquire_lock_free)
  qed
qed simp

lemma kill_eq:
  assumes "hart_ok s" "plocks_free s"
  shows "kill pid s =
    (case find (\<lambda>p. p_pid (procs s p) = pid) [0..<NPROC] of
       None \<Rightarrow> Ok (-1) (norm s) | Some p \<Rightarrow> Ok 0 (norm (upd_proc p kill_proc s)))"
proof -
  have u: "[0..<NPROC] = 0 # [1..<NPROC]" by (simp add: NPROC_def upt_conv_Cons)
  have "kill_loop [0..<NPROC] pid s = kill_loop [0..<NPROC] pid (norm s)"
    unfolding u by simp
  then show ?thesis
    using kill_loop_eq[of s "[0..<NPROC]" pid] assms by (simp add: kill_def plocks_free_def)
qed

section \<open>Sleep\<close>

text \<open>Releasing the outer of two locks leaves the state in which only the inner one was taken.\<close>

lemma release_outer:
  assumes "hart_ok t" "lock_free lk t" "lk \<noteq> lk2"
  shows "release lk (grab lk2 (grab lk t)) = Ok () (grab lk2 t)"
proof -
  have r: "release lk (grab lk2 (grab lk t)) = Ok () (ungrab lk (grab lk2 (grab lk t)))"
    using assms by (intro release_ungrab) (auto simp: holding_def mycpu_def cpuid_def hart_ok_def intr_get_def)
  have "ungrab lk (grab lk2 (grab lk t)) = grab lk2 t"
    using assms
    by (auto simp: ungrab_def grab_def spinlock_defs Let_def hart_ok_def lock_free_def fun_eq_iff fun_upd_twist)
  then show ?thesis using r by simp
qed

definition sleeping_on :: "nat \<Rightarrow> chan \<Rightarrow> 'z pstate_scheme \<Rightarrow> 'z pstate_scheme" where
  "sleeping_on p ch s = upd_proc p (\<lambda>q. q\<lparr>p_chan := Some ch, p_state := SLEEPING\<rparr>) s"

definition awake :: "nat \<Rightarrow> 'z pstate_scheme \<Rightarrow> 'z pstate_scheme" where
  "awake p s = upd_proc p (p_chan_update (\<lambda>_. None)) s"

lemma sched_eq:
  assumes "hart_ok t" "noff (mycpu t) = 0" "curp t = Some p" "p_state (procs t p) \<noteq> RUNNING"
  shows "sched (grab (ProcLock p) t) = Swtch (grab (ProcLock p) t)
    (\<lambda>s'. Ok () (set_mycpu ((mycpu s')\<lparr>intena := sie t (tp t)\<rparr>) s'))"
  using assms
  by (simp add: sched_def curproc_eq hart_ok_grab swtch_def)
    (simp add: mycpu_def cpuid_def intr_get_def intena_grab)

text \<open>
  \<^verbatim>\<open>sleep\<close> entered with \<open>lk\<close> as the only lock: the process is switched out with \<open>lk\<close> free and its own lock
  held.
\<close>

lemma sleep_eq:
  assumes "hart_ok t" "noff (mycpu t) = 0" "curp t = Some p" "lock_free lk t" "lock_free (ProcLock p) t" "lk \<noteq> ProcLock p"
  shows "sleep ch lk (grab lk t) = Swtch (grab (ProcLock p) (sleeping_on p ch t))
    (\<lambda>s'. bind (release (ProcLock p) (awake p (set_mycpu ((mycpu s')\<lparr>intena := sie t (tp t)\<rparr>) s'))) (\<lambda>_ s. acquire lk s))"
proof -
  have s: "sched (grab (ProcLock p) (sleeping_on p ch t)) = Swtch (grab (ProcLock p) (sleeping_on p ch t))
      (\<lambda>s'. Ok () (set_mycpu ((mycpu s')\<lparr>intena := sie t (tp t)\<rparr>) s'))"
    using sched_eq[of "sleeping_on p ch t" p] assms
    by (simp add: sleeping_on_def upd_proc_def mycpu_def cpuid_def)
  have c: "upd_proc p (\<lambda>q. q\<lparr>p_chan := Some ch, p_state := SLEEPING\<rparr>) (grab (ProcLock p) t)
      = grab (ProcLock p) (sleeping_on p ch t)"
    by (simp add: sleeping_on_def upd_proc_def)
  show ?thesis
    using assms s
    by (simp add: sleep_def curproc_eq hart_ok_grab acquire_lock_free release_outer c awake_def)
qed

text \<open>How a switched-out process comes back: on some hart, with its own lock as the only one held.\<close>

definition resumed :: "nat \<Rightarrow> 'z machine_scheme \<Rightarrow> bool" where
  "resumed p s \<longleftrightarrow> holding (ProcLock p) s \<and> locked (locks s (ProcLock p)) = 1 \<and> noff (mycpu s) = 1 \<and>
     \<not> intr_get s \<and> curp s = Some p"

text \<open>The state in which the lock held in \<open>s\<close> has not been taken, with interrupts as \<open>ie\<close> says.\<close>

definition before_lock :: "lockid \<Rightarrow> bool \<Rightarrow> 'z machine_scheme \<Rightarrow> 'z machine_scheme" where
  "before_lock lk ie s = s\<lparr>locks := (locks s)(lk := (locks s lk)\<lparr>locked := 0, lkcpu := None\<rparr>),
     cpus := (cpus s)(tp s := (cpus s (tp s))\<lparr>noff := noff (cpus s (tp s)) - 1, intena := ie\<rparr>),
     sie := (sie s)(tp s := ie)\<rparr>"

lemma grab_before_lock:
  assumes "resumed p s"
  shows "set_mycpu ((mycpu s)\<lparr>intena := ie\<rparr>) s = grab (ProcLock p) (before_lock (ProcLock p) ie s)"
proof -
  have "sie s = (sie s)(tp s := False)" "locks s (ProcLock p) = (locks s (ProcLock p))\<lparr>locked := 1, lkcpu := Some (tp s)\<rparr>"
    using assms by (auto simp: resumed_def intr_get_def holding_def cpuid_def fun_eq_iff)
  then have "locks s = (locks s)(ProcLock p := (locks s (ProcLock p))\<lparr>locked := 1, lkcpu := Some (tp s)\<rparr>)"
    by (simp add: fun_upd_idem_iff)
  moreover have n: "(cpus s (tp s))\<lparr>intena := ie, noff := 1\<rparr> = (cpus s (tp s))\<lparr>intena := ie\<rparr>"
    using assms by (cases "cpus s (tp s)") (simp add: resumed_def spinlock_defs)
  ultimately show ?thesis
    using assms \<open>sie s = (sie s)(tp s := False)\<close>
    by (simp add: grab_def before_lock_def spinlock_defs Let_def resumed_def n)
qed

lemma before_lock_simps:
  "resumed p s \<Longrightarrow> hart_ok (before_lock (ProcLock p) ie s)"
  "resumed p s \<Longrightarrow> noff (mycpu (before_lock (ProcLock p) ie s)) = 0"
  "lock_free (ProcLock p) (before_lock (ProcLock p) ie s)"
  "lk \<noteq> ProcLock p \<Longrightarrow> lock_free lk (before_lock (ProcLock p) ie s) = lock_free lk s"
  "curp (before_lock lk ie s) = curp s" "tp (before_lock lk ie s) = tp s"
  "sie (before_lock lk ie s) (tp s) = ie"
  by (simp_all add: resumed_def before_lock_def hart_ok_def mycpu_def cpuid_def intr_get_def lock_free_def curp_def)

lemma before_lock_procs [simp]: "procs (before_lock lk ie s) = procs s"
  "before_lock lk ie (procs_update f s) = procs_update f (before_lock lk ie s)"
  by (simp_all add: before_lock_def)

lemma awake_resume:
  assumes "resumed p s'"
  shows "bind (release (ProcLock p) (awake p (set_mycpu ((mycpu s')\<lparr>intena := ie\<rparr>) s'))) (\<lambda>_ s. acquire lk s)
    = acquire lk (awake p (before_lock (ProcLock p) ie s'))"
proof -
  define u where "u = before_lock (ProcLock p) ie s'"
  have u: "hart_ok u" "lock_free (ProcLock p) u" using assms by (simp_all add: u_def before_lock_simps)
  have "awake p (set_mycpu ((mycpu s')\<lparr>intena := ie\<rparr>) s') = grab (ProcLock p) (awake p u)"
    unfolding grab_before_lock[OF assms] by (simp add: awake_def upd_proc_def u_def)
  moreover have "release (ProcLock p) (grab (ProcLock p) (awake p u)) = Ok () (norm (awake p u))"
    by (rule release_grab) (use u in \<open>simp_all add: awake_def upd_proc_def\<close>)
  ultimately show ?thesis by (simp add: u_def[symmetric])
qed

section \<open>The scheduler\<close>

text \<open>
  \<open>inevitably R P m\<close>: however the routine \<open>m\<close> is resumed, as long as it is in accordance with \<open>R\<close>, it is at some
  point switched out in a state with \<open>P\<close>.
\<close>

primrec inevitably :: "('s \<Rightarrow> 's \<Rightarrow> bool) \<Rightarrow> ('s \<Rightarrow> bool) \<Rightarrow> ('a, 's) outcome \<Rightarrow> bool" where
  "inevitably R P (Ok v s) \<longleftrightarrow> False"
| "inevitably R P (Panic m) \<longleftrightarrow> False"
| "inevitably R P (Swtch s k) \<longleftrightarrow> P s \<or> (\<exists>s'. R s s') \<and> (\<forall>s'. R s s' \<longrightarrow> inevitably R P (k s'))"
| "inevitably R P Stuck \<longleftrightarrow> False"
| "inevitably R P NoFuel \<longleftrightarrow> False"

lemma inevitably_bind1: "inevitably R P m \<Longrightarrow> inevitably R P (bind m k)"
  by (induction m) auto

lemma inevitably_bind2: "post R (\<lambda>v s. inevitably R P (k v s)) m \<Longrightarrow> inevitably R P (bind m k)"
  by (induction m) auto

text \<open>
  What a process does for the scheduler of hart \<open>c\<close> that switched to it in \<open>s\<close>: it comes back through \<^verbatim>\<open>sched\<close>
  on that hart, holding its own lock and no other, and runnable processes stay runnable meanwhile.
\<close>

definition gives_back :: "nat \<Rightarrow> 'z pstate_scheme \<Rightarrow> 'z pstate_scheme \<Rightarrow> bool" where
  "gives_back c s s' \<longleftrightarrow> (\<exists>q. curp s = Some q \<and> resumed q s' \<and> tp s' = c \<and>
     (\<forall>r < NPROC. r \<noteq> q \<longrightarrow> lock_free (ProcLock r) s' \<and>
        (p_state (procs s r) = RUNNABLE \<longrightarrow> p_state (procs s' r) = RUNNABLE)))"

definition sched_idle :: "nat \<Rightarrow> 'z pstate_scheme \<Rightarrow> bool" where
  "sched_idle c s \<longleftrightarrow> hart_ok s \<and> tp s = c \<and> noff (mycpu s) = 0 \<and> plocks_free s"

definition clear_proc :: "nat \<Rightarrow> 'z machine_scheme \<Rightarrow> 'z machine_scheme" where
  "clear_proc c s = s\<lparr>cpus := (cpus s)(c := (cpus s c)\<lparr>cpu_proc := None\<rparr>)\<rparr>"

lemma schedule_one_skip:
  assumes "sched_idle c s" "p < NPROC" "p_state (procs s p) \<noteq> RUNNABLE"
  shows "schedule_one c p s = Ok () (norm s)"
  using assms release_grab[of s "ProcLock p"]
  by (simp add: schedule_one_def sched_idle_def plocks_freeD acquire_lock_free)

lemma schedule_one_run:
  assumes "sched_idle c s" "p < NPROC" "p_state (procs s p) = RUNNABLE"
  shows "\<exists>s1. schedule_one c p s = Swtch s1 (\<lambda>s'. release (ProcLock p) (clear_proc c s')) \<and>
    curp s1 = Some p \<and> procs s1 = (procs s)(p := (procs s p)\<lparr>p_state := RUNNING\<rparr>) \<and> gives_back c s1 s1"
  using assms
  by (auto simp: schedule_one_def sched_idle_def plocks_freeD acquire_lock_free swtch_def clear_proc_def upd_proc_def
      curp_def Let_def gives_back_def resumed_def holding_def mycpu_def cpuid_def intr_get_def lock_free_def plocks_free_def hart_ok_def)

lemma release_clear:
  assumes "resumed p s'" "tp s' = c" "\<forall>r < NPROC. r \<noteq> p \<longrightarrow> lock_free (ProcLock r) s'"
  shows "\<exists>s2. release (ProcLock p) (clear_proc c s') = Ok () s2 \<and> sched_idle c s2 \<and> procs s2 = procs s'"
proof -
  have "release (ProcLock p) (clear_proc c s') = Ok () (ungrab (ProcLock p) (clear_proc c s'))"
    using assms
    by (intro release_ungrab) (simp_all add: resumed_def clear_proc_def holding_def mycpu_def cpuid_def intr_get_def)
  moreover have "sched_idle c (ungrab (ProcLock p) (clear_proc c s'))"
    using assms
    by (auto simp: sched_idle_def resumed_def clear_proc_def hart_ok_def mycpu_def cpuid_def intr_get_def
        plocks_free_def lock_free_def)
  moreover have "procs (ungrab (ProcLock p) (clear_proc c s')) = procs s'"
    by (simp add: ungrab_def clear_proc_def intr_on_def Let_def)
  ultimately show ?thesis by blast
qed

text \<open>One entry of the table: afterwards the scheduler is idle again, and other processes are still runnable.\<close>

lemma schedule_one_post:
  assumes "sched_idle c s" "p < NPROC"
  shows "post (gives_back c) (\<lambda>_ s'. sched_idle c s' \<and>
    (\<forall>r < NPROC. r \<noteq> p \<longrightarrow> p_state (procs s r) = RUNNABLE \<longrightarrow> p_state (procs s' r) = RUNNABLE)) (schedule_one c p s)"
proof (cases "p_state (procs s p) = RUNNABLE")
  case False
  have "sched_idle c (norm s)" using assms by (auto simp: sched_idle_def mycpu_def cpuid_def)
  then show ?thesis using schedule_one_skip[OF assms False] by simp
next
  case True
  obtain s1 where s1: "schedule_one c p s = Swtch s1 (\<lambda>s'. release (ProcLock p) (clear_proc c s'))"
    "curp s1 = Some p" "procs s1 = (procs s)(p := (procs s p)\<lparr>p_state := RUNNING\<rparr>)" "gives_back c s1 s1"
    using schedule_one_run[OF assms True] by blast
  show ?thesis
    unfolding s1(1) safe.simps
  proof (intro conjI allI impI)
    show "\<exists>s'. gives_back c s1 s'" using s1(4) by blast
    fix s' assume "gives_back c s1 s'"
    then have r: "resumed p s'" "tp s' = c" "\<forall>r < NPROC. r \<noteq> p \<longrightarrow> lock_free (ProcLock r) s'"
      and keep: "\<forall>r < NPROC. r \<noteq> p \<longrightarrow> p_state (procs s r) = RUNNABLE \<longrightarrow> p_state (procs s' r) = RUNNABLE"
      using s1(2,3) by (auto simp: gives_back_def)
    then show "post (gives_back c) (\<lambda>_ s'. sched_idle c s' \<and> (\<forall>r < NPROC. r \<noteq> p \<longrightarrow>
        p_state (procs s r) = RUNNABLE \<longrightarrow> p_state (procs s' r) = RUNNABLE)) (release (ProcLock p) (clear_proc c s'))"
      using release_clear[OF r] by auto
  qed simp_all
qed

lemma schedule_round_runs:
  assumes "sched_idle c s" "p \<in> set ps" "set ps \<subseteq> {..<NPROC}" "p_state (procs s p) = RUNNABLE"
  shows "inevitably (gives_back c) (\<lambda>s'. curp s' = Some p \<and> p_state (procs s' p) = RUNNING) (schedule_round c ps s)"
  using assms
proof (induction ps arbitrary: s)
  case (Cons q ps)
  show ?case
  proof (cases "p = q")
    case True
    then obtain s1 k where "schedule_one c q s = Swtch s1 k" "curp s1 = Some p" "p_state (procs s1 p) = RUNNING"
      using schedule_one_run[of c s q] Cons.prems by auto
    then have "inevitably (gives_back c) (\<lambda>s'. curp s' = Some p \<and> p_state (procs s' p) = RUNNING) (schedule_one c q s)"
      by simp
    then show ?thesis unfolding schedule_round.simps by (rule inevitably_bind1)
  next
    case False
    have "post (gives_back c) (\<lambda>_ s'. sched_idle c s' \<and> p_state (procs s' p) = RUNNABLE) (schedule_one c q s)"
      using False Cons.prems by (intro safe_mono[OF schedule_one_post[of c s q]]) auto
    then have "post (gives_back c) (\<lambda>_ s'. inevitably (gives_back c)
        (\<lambda>s'. curp s' = Some p \<and> p_state (procs s' p) = RUNNING) (schedule_round c ps s')) (schedule_one c q s)"
      by (rule safe_mono) (use Cons False in auto)
    then show ?thesis unfolding schedule_round.simps by (rule inevitably_bind2)
  qed
qed simp

section \<open>Properties\<close>

text \<open>A machine with one hart on which process 0 runs, process 1 sleeps until the next tick and process 2 is ready.\<close>

definition demo_proc :: "procstate \<Rightarrow> chan option \<Rightarrow> int \<Rightarrow> proc" where
  "demo_proc st ch pid = \<lparr>p_state = st, p_chan = ch, p_killed = 0, p_xstate = 0, p_pid = pid, p_parent = None,
     p_kstack = 0, p_sz = 0, p_pagetable = 0, p_trapframe = 0,
     p_context = \<lparr>ctx_ra = KNull, ctx_sp = 0, ctx_s = []\<rparr>, p_ofile = (\<lambda>_. None), p_cwd = None, p_name = replicate 16 0\<rparr>"

definition demo_machine :: "nat option \<Rightarrow> pstate" where
  "demo_machine cur = \<lparr>tp = 0, sie = (\<lambda>_. True), cpus = (\<lambda>h. \<lparr>cpu_proc = (if h = 0 then cur else None), noff = 0, intena = False\<rparr>),
     locks = (\<lambda>_. \<lparr>locked = 0, lkname = [], lkcpu = None\<rparr>), mem = (\<lambda>_. 0),
     kend = 0, freelist = 0, hart_freelist = (\<lambda>_. 0), etext = 0, trampoline = 0, kernel_pagetable = 0, satp = (\<lambda>_. 0),
     procs = (\<lambda>p. if p = 0 then demo_proc RUNNING None 1 else if p = 1 then demo_proc SLEEPING (Some ChanTicks) 2
       else if p = 2 then demo_proc RUNNABLE None 3 else demo_proc UNUSED None 0),
     initproc = Some 0, nextpid = 4, first = False, patience = 1\<rparr>"

lemma demo_machine_ok: "hart_ok (demo_machine c)" "plocks_free (demo_machine c)" "lock_free lk (demo_machine c)"
  "curp (demo_machine c) = c" "noff (mycpu (demo_machine c)) = 0" "tp (demo_machine c) = 0"
  by (simp_all add: demo_machine_def hart_ok_def plocks_free_def lock_free_def curp_def mycpu_def cpuid_def intr_get_def)

text \<open>
  C12: \<^verbatim>\<open>wakeup(chan)\<close> always returns when the process locks are free; it makes exactly the processes that
  sleep on \<^verbatim>\<open>chan\<close>, other than the caller, runnable, and changes nothing else: no other process, no lock, no
  interrupt state, no memory.
\<close>

theorem wakeup_wakes_exactly:
  assumes "hart_ok s" "plocks_free s"
  shows "\<exists>s'. wakeup ch s = Ok () s' \<and> lkview s' = lkview s \<and> mem s' = mem s \<and>
    (\<forall>p. procs s' p =
      (if p < NPROC \<and> curp s \<noteq> Some p \<and> p_state (procs s p) = SLEEPING \<and> p_chan (procs s p) = ch
       then (procs s p)\<lparr>p_state := RUNNABLE\<rparr> else procs s p))"
proof -
  have "lkview (norm (woken {..<NPROC} ch s)) = lkview s"
    by (simp add: norm_view) (simp add: woken_def lkview_def)
  moreover have "mem (norm (woken {..<NPROC} ch s)) = mem s" by (simp add: woken_def)
  moreover have "procs (norm (woken {..<NPROC} ch s)) p =
      (if p < NPROC \<and> curp s \<noteq> Some p \<and> p_state (procs s p) = SLEEPING \<and> p_chan (procs s p) = ch
       then (procs s p)\<lparr>p_state := RUNNABLE\<rparr> else procs s p)" for p
    by (simp add: woken_def wake_proc_def)
  ultimately show ?thesis using wakeup_eq[OF assms] by blast
qed

theorem wakeup_wakes_exactly_witness:
  "\<exists>s'. wakeup (Some ChanTicks) (demo_machine (Some 0)) = Ok () s' \<and> p_state (procs s' 1) = RUNNABLE"
proof -
  have "p_state (procs (demo_machine (Some 0)) 1) = SLEEPING" "p_chan (procs (demo_machine (Some 0)) 1) = Some ChanTicks"
    by (simp_all add: demo_machine_def demo_proc_def)
  then show ?thesis
    using wakeup_wakes_exactly[of "demo_machine (Some 0)" "Some ChanTicks"] by (auto simp: demo_machine_ok NPROC_def)
qed

text \<open>
  C13: \<^verbatim>\<open>kill(pid)\<close> returns -1 and changes no process when no table entry has that pid; otherwise it returns 0 and
  changes exactly the first entry with that pid, which becomes killed and, if it was asleep, runnable.
\<close>

theorem kill_marks_first_match:
  assumes "hart_ok s" "plocks_free s"
  shows "\<exists>r s'. kill pid s = Ok r s' \<and> lkview s' = lkview s \<and>
    (if \<forall>p < NPROC. p_pid (procs s p) \<noteq> pid then r = -1 \<and> procs s' = procs s
     else r = 0 \<and> (\<exists>p < NPROC. p_pid (procs s p) = pid \<and> (\<forall>q < p. p_pid (procs s q) \<noteq> pid) \<and>
       procs s' = (procs s)(p := (procs s p)\<lparr>p_killed := 1,
         p_state := (if p_state (procs s p) = SLEEPING then RUNNABLE else p_state (procs s p))\<rparr>)))"
proof (cases "find (\<lambda>p. p_pid (procs s p) = pid) [0..<NPROC]")
  case None
  then have "\<forall>p < NPROC. p_pid (procs s p) \<noteq> pid" by (auto simp: find_None_iff)
  then show ?thesis using kill_eq[OF assms, of pid] None by (auto simp: norm_view)
next
  case (Some p)
  then have p: "p < NPROC" "p_pid (procs s p) = pid" "\<forall>q < p. p_pid (procs s q) \<noteq> pid"
    by (auto simp: find_Some_iff)
  have "lkview (norm (upd_proc p kill_proc s)) = lkview s"
    by (simp add: norm_view) (simp add: upd_proc_def lkview_def)
  moreover have "procs (norm (upd_proc p kill_proc s)) = (procs s)(p := (procs s p)\<lparr>p_killed := 1,
      p_state := (if p_state (procs s p) = SLEEPING then RUNNABLE else p_state (procs s p))\<rparr>)"
    by (simp add: upd_proc_def kill_proc_def)
  ultimately show ?thesis using kill_eq[OF assms, of pid] Some p by auto
qed

theorem kill_marks_first_match_witness:
  "(\<exists>s'. kill 2 (demo_machine (Some 0)) = Ok 0 s') \<and> (\<exists>s'. kill 7 (demo_machine (Some 0)) = Ok (-1) s')"
proof
  have "p_pid (procs (demo_machine (Some 0)) 1) = 2" by (simp add: demo_machine_def demo_proc_def)
  moreover have "(1::nat) < NPROC" by (simp add: NPROC_def)
  ultimately have "\<not> (\<forall>p < NPROC. p_pid (procs (demo_machine (Some 0)) p) \<noteq> 2)" by blast
  then show "\<exists>s'. kill 2 (demo_machine (Some 0)) = Ok 0 s'"
    using kill_marks_first_match[OF demo_machine_ok(1)[of "Some 0"] demo_machine_ok(2)[of "Some 0"], of 2] by (auto split: if_split_asm)
  have "\<forall>p < NPROC. p_pid (procs (demo_machine (Some 0)) p) \<noteq> 7"
    by (simp add: demo_machine_def demo_proc_def)
  then show "\<exists>s'. kill 7 (demo_machine (Some 0)) = Ok (-1) s'"
    using kill_marks_first_match[OF demo_machine_ok(1)[of "Some 0"] demo_machine_ok(2)[of "Some 0"], of 7] by (auto split: if_split_asm)
qed



text \<open>
  C15: The scheduler starves no process: if process \<open>p\<close> is runnable when the scheduler of a hart starts a round, and
  the processes it switches to give the hart back, then it inevitably switches to \<open>p\<close> in that round,
  whatever the other processes do to their own states in between.
\<close>

theorem scheduler_runs_every_runnable:
  assumes "hart_ok s" "tp s = c" "noff (mycpu s) = 0" "plocks_free s" "p < NPROC" "p_state (procs s p) = RUNNABLE"
  shows "inevitably (gives_back c) (\<lambda>s'. curp s' = Some p \<and> p_state (procs s' p) = RUNNING) (scheduler (Suc n) s)"
proof -
  define s1 where "s1 = intr_on (clear_proc c s)"
  have "sched_idle c s1"
    using assms by (auto simp: s1_def sched_idle_def clear_proc_def hart_ok_def mycpu_def cpuid_def intr_on_def intr_get_def
        plocks_free_def lock_free_def)
  moreover have "p_state (procs s1 p) = RUNNABLE" using assms by (simp add: s1_def clear_proc_def intr_on_def)
  ultimately have "inevitably (gives_back c) (\<lambda>s'. curp s' = Some p \<and> p_state (procs s' p) = RUNNING)
      (schedule_round c [0..<NPROC] s1)"
    using assms(5) by (intro schedule_round_runs) auto
  then have "inevitably (gives_back c) (\<lambda>s'. curp s' = Some p \<and> p_state (procs s' p) = RUNNING)
      (scheduler_loop (Suc n) c (clear_proc c s))"
    by (simp add: s1_def inevitably_bind1)
  then show ?thesis using assms(2) by (simp only: scheduler_def clear_proc_def cpuid_def Let_def)
qed

theorem scheduler_runs_every_runnable_witness:
  "inevitably (gives_back 0) (\<lambda>s'. curp s' = Some 2 \<and> p_state (procs s' 2) = RUNNING) (scheduler (Suc 0) (demo_machine None))"
proof (rule scheduler_runs_every_runnable)
  show "p_state (procs (demo_machine None) 2) = RUNNABLE" by (simp add: demo_machine_def demo_proc_def)
qed (simp_all add: demo_machine_ok NPROC_def)

end
