(* ===== verification/PipeFacts.thy ===== *)
theory PipeFacts
  imports ProcFacts
begin

text \<open>
  Pipes deliver bytes in order: \<^verbatim>\<open>pipewrite\<close> appends the bytes of user memory to the queue a pipe's ring
  represents, \<^verbatim>\<open>piperead\<close> takes bytes from its front. The queue is the one of locale \<open>ring\<close>, interpreted on
  \<open>pipe_put\<close> and \<open>pipe_get\<close>.
\<close>

abbreviation queue :: "pipe \<Rightarrow> u8 list" where "queue \<equiv> pq.contents"
abbreviation pipe_ok :: "pipe \<Rightarrow> bool" where "pipe_ok \<equiv> pq.ring_ok"

lemma curp_pipes [simp]: "curp (pipes_update f s) = curp s" "plocks_free (pipes_update f s) = plocks_free s"
  by (simp_all add: curp_def plocks_free_def lock_free_def)

lemma copyin_one:
  assumes "tree_ok (mem s) 2 pt" "umapped (mem s) pt va"
  shows "copyin pt va 1 s = Ok (0, [ubyte (mem s) pt va]) s"
proof -
  obtain k where k: "k \<le> 1" "copyin pt va 1 s = Ok (if k = 1 then 0 else -1, ubytes (mem s) pt va k) s"
    "k < 1 \<longrightarrow> \<not> umapped (mem s) pt (va + of_nat k)"
    using copyin_spec[OF assms(1), of 1 va] by blast
  then have "k = 1" using assms(2) by (cases "k = 0") auto
  with k show ?thesis by (simp add: ubytes_def)
qed

section \<open>Writing\<close>

lemma pipe_put_open [simp]: "readopen (pipe_put c q) = readopen q" "writeopen (pipe_put c q) = writeopen q"
  by (simp_all add: pipe_put_def)

lemma fold_put_open [simp]:
  "readopen (fold pipe_put bs q) = readopen q" "writeopen (fold pipe_put bs q) = writeopen q"
  by (induction bs arbitrary: q) simp_all

definition set_pipe :: "u64 \<Rightarrow> pipe \<Rightarrow> 'z ppstate_scheme \<Rightarrow> 'z ppstate_scheme" where
  "set_pipe pi q s = s\<lparr>pipes := (pipes s)(pi := q)\<rparr>"

lemma set_pipe_simps [simp]:
  "pipes (set_pipe pi q s) pi = q" "procs (set_pipe pi q s) = procs s" "mem (set_pipe pi q s) = mem s"
  "hart_ok (set_pipe pi q s) = hart_ok s" "lock_free lk (set_pipe pi q s) = lock_free lk s"
  "plocks_free (set_pipe pi q s) = plocks_free s" "curp (set_pipe pi q s) = curp s"
  "set_pipe pi q (grab lk s) = grab lk (set_pipe pi q s)" "norm (set_pipe pi q s) = set_pipe pi q (norm s)"
  "set_pipe pi q (set_pipe pi q' s) = set_pipe pi q s" "set_pipe pi (pipes s pi) s = s"
  by (simp_all add: set_pipe_def)

lemma upd_pipe_set: "upd_pipe pi f s = set_pipe pi (f (pipes s pi)) s"
  by (simp add: upd_pipe_def set_pipe_def)

lemma pipewrite_loop_room:
  assumes "hart_ok t" "lock_free (ProcLock pr) t" "tree_ok (mem t) 2 (p_pagetable (procs t pr))"
    "readopen (pipes t pi) \<noteq> 0" "p_killed (procs t pr) = 0"
    "pipe_ok (pipes t pi)" "length (queue (pipes t pi)) + k \<le> PIPESIZE" "k \<le> fuel"
    "\<forall>j < k. umapped (mem t) (p_pagetable (procs t pr)) (addr + of_int i + of_nat j)"
  shows "pipewrite_loop fuel pi pr addr (i + int k) i (grab (PipeLock pi) t) =
    Ok (Some (i + int k)) (grab (PipeLock pi)
      (set_pipe pi (fold pipe_put (ubytes (mem t) (p_pagetable (procs t pr)) (addr + of_int i) k) (pipes t pi)) t))"
  using assms
proof (induction k arbitrary: t fuel i)
  case 0
  then show ?case by (simp add: pipewrite_loop.simps ubytes_def)
next
  case (Suc k)
  obtain f where f: "fuel = Suc f" using Suc.prems(8) by (cases fuel) auto
  define pt where "pt = p_pagetable (procs t pr)"
  define b where "b = ubyte (mem t) pt (addr + of_int i)"
  define t' where "t' = set_pipe pi (pipe_put b (pipes t pi)) t"
  have um: "umapped (mem t) pt (addr + of_int i)" using Suc.prems(9) by (auto simp: pt_def dest: spec[of _ 0])
  have room: "length (queue (pipes t pi)) < PIPESIZE" using Suc.prems(7) by simp
  have nf: "nwrite (pipes t pi) \<noteq> nread (pipes t pi) + of_nat PIPESIZE"
    using room pq.full_iff[of "pipes t pi"] by auto
  have cp: "copyin pt (addr + of_int i) 1 (grab (PipeLock pi) t) = Ok (0, [b]) (grab (PipeLock pi) t)"
    using copyin_one[of "grab (PipeLock pi) t" pt] Suc.prems(3) um by (simp add: pt_def b_def)
  have step: "pipewrite_loop fuel pi pr addr (i + int (Suc k)) i (grab (PipeLock pi) t) =
      pipewrite_loop f pi pr addr ((i + 1) + int k) (i + 1) (grab (PipeLock pi) t')"
    using Suc.prems(1,2,4,5) nf cp
    by (subst pipewrite_loop.simps)
      (simp add: f killed_eq hart_ok_grab pt_def[symmetric] upd_pipe_set t'_def add.commute add.left_commute)
  note put = pq.put_contents[OF Suc.prems(6) room, of b]
  have um': "\<forall>j < k. umapped (mem t') (p_pagetable (procs t' pr)) (addr + of_int (i + 1) + of_nat j)"
  proof (intro allI impI)
    fix j assume "j < k"
    then have "umapped (mem t) pt (addr + of_int i + of_nat (Suc j))" using Suc.prems(9) by (simp only: pt_def Suc_less_eq)
    then show "umapped (mem t') (p_pagetable (procs t' pr)) (addr + of_int (i + 1) + of_nat j)"
      by (simp add: t'_def pt_def algebra_simps)
  qed
  have bs: "ubytes (mem t) pt (addr + of_int i) (Suc k) = b # ubytes (mem t) pt (addr + of_int (i + 1)) k"
    by (simp add: ubytes_def b_def upt_conv_Cons map_Suc_upt[symmetric] algebra_simps del: upt_Suc)
  have "pipewrite_loop f pi pr addr ((i + 1) + int k) (i + 1) (grab (PipeLock pi) t') =
      Ok (Some ((i + 1) + int k)) (grab (PipeLock pi) (set_pipe pi
        (fold pipe_put (ubytes (mem t') (p_pagetable (procs t' pr)) (addr + of_int (i + 1)) k) (pipes t' pi)) t'))"
    using Suc.prems f put um' by (intro Suc.IH) (simp_all add: t'_def)
  then show ?case using step bs by (simp add: t'_def pt_def add.commute add.left_commute)
qed

text \<open>A process that is about to use pipe \<open>pi\<close>: no lock is held, and it has not been killed.\<close>

definition pipe_user :: "nat \<Rightarrow> u64 \<Rightarrow> 'z ppstate_scheme \<Rightarrow> bool" where
  "pipe_user pr pi s \<longleftrightarrow> hart_ok s \<and> curp s = Some pr \<and> pr < NPROC \<and> plocks_free s \<and> lock_free (PipeLock pi) s \<and>
     p_killed (procs s pr) = 0 \<and> tree_ok (mem s) 2 (p_pagetable (procs s pr)) \<and> pipe_ok (pipes s pi)"

lemma pipewrite_eq:
  assumes "pipe_user pr pi s" "readopen (pipes s pi) \<noteq> 0" "length (queue (pipes s pi)) + n \<le> PIPESIZE"
    "\<forall>j < n. umapped (mem s) (p_pagetable (procs s pr)) (addr + of_nat j)"
  shows "pipewrite pi addr (int n) s = Ok (int n) (norm (woken {..<NPROC} (Some (ChanNread pi))
    (set_pipe pi (fold pipe_put (ubytes (mem s) (p_pagetable (procs s pr)) addr n) (pipes s pi)) s)))"
proof -
  define t where "t = set_pipe pi (fold pipe_put (ubytes (mem s) (p_pagetable (procs s pr)) addr n) (pipes s pi)) s"
  have u: "hart_ok s" "curp s = Some pr" "plocks_free s" "lock_free (PipeLock pi) s" "lock_free (ProcLock pr) s"
    using assms(1) by (auto simp: pipe_user_def plocks_free_def)
  have "pipewrite_loop (n + patience s) pi pr addr (0 + int n) 0 (grab (PipeLock pi) s) =
      Ok (Some (0 + int n)) (grab (PipeLock pi) t)"
    using pipewrite_loop_room[of s pr pi n "n + patience s" addr 0] assms u by (simp add: pipe_user_def t_def)
  then have l: "pipewrite_loop (n + patience s) pi pr addr (int n) 0 (grab (PipeLock pi) s) =
      Ok (Some (int n)) (grab (PipeLock pi) t)" by simp
  have t: "hart_ok t" "plocks_free t" "lock_free (PipeLock pi) t" using u by (simp_all add: t_def)
  have w: "wakeup (Some (ChanNread pi)) (grab (PipeLock pi) t) =
      Ok () (grab (PipeLock pi) (woken {..<NPROC} (Some (ChanNread pi)) t))"
    using t by (intro wakeup_in_section) simp_all
  have r: "release (PipeLock pi) (grab (PipeLock pi) (woken {..<NPROC} (Some (ChanNread pi)) t)) =
      Ok () (norm (woken {..<NPROC} (Some (ChanNread pi)) t))"
    using t by (intro release_grab) (simp_all add: woken_frame)
  show ?thesis
    using u l w r by (simp add: pipewrite_def curproc_eq acquire_lock_free t_def[symmetric])
qed

section \<open>Reading\<close>

lemma copyout_one:
  assumes "tree_ok (mem s) 2 pt" "user_ok (mem s) pt" "umapped (mem s) pt va"
  shows "\<exists>m'. copyout pt va [c] s = Ok 0 (s\<lparr>mem := m'\<rparr>) \<and> uwrites (mem s) m' pt va [c]"
proof -
  obtain k m' where k: "k \<le> 1" "copyout pt va [c] s = Ok (if k = 1 then 0 else -1) (s\<lparr>mem := m'\<rparr>)"
    "uwrites (mem s) m' pt va (take k [c])" "k < 1 \<longrightarrow> \<not> umapped (mem s) pt (va + of_nat k)"
    using copyout_spec[OF assms(1,2), of "[c]" va] by auto
  then have "k = 1" using assms(3) by (cases "k = 0") auto
  with k show ?thesis by auto
qed

lemma pipe_get_open [simp]: "readopen (snd (pipe_get q)) = readopen q" "writeopen (snd (pipe_get q)) = writeopen q"
  by (simp_all add: pipe_get_def)

definition set_pipe_mem :: "u64 \<Rightarrow> pipe \<Rightarrow> memory \<Rightarrow> 'z ppstate_scheme \<Rightarrow> 'z ppstate_scheme" where
  "set_pipe_mem pi q m s = (set_pipe pi q s)\<lparr>mem := m\<rparr>"

lemma set_pipe_mem_simps [simp]:
  "pipes (set_pipe_mem pi q m s) pi = q" "procs (set_pipe_mem pi q m s) = procs s" "mem (set_pipe_mem pi q m s) = m"
  "set_pipe_mem pi q m (set_pipe_mem pi q' m' s) = set_pipe_mem pi q m s"
  "set_pipe_mem pi q m (grab lk s) = grab lk (set_pipe_mem pi q m s)"
  "hart_ok (set_pipe_mem pi q m s) = hart_ok s" "lock_free lk (set_pipe_mem pi q m s) = lock_free lk s"
  "plocks_free (set_pipe_mem pi q m s) = plocks_free s"
  "set_pipe_mem pi (pipes s pi) (mem s) s = s"
  by (simp_all add: set_pipe_mem_def set_pipe_def plocks_free_def)

text \<open>\<open>taken k q\<close> is the pipe after \<open>k\<close> bytes have been taken from it.\<close>

primrec taken :: "nat \<Rightarrow> pipe \<Rightarrow> pipe" where
  "taken 0 q = q"
| "taken (Suc k) q = taken k (snd (pipe_get q))"

lemma taken_queue:
  assumes "pipe_ok q" "k \<le> length (queue q)"
  shows "queue (taken k q) = drop k (queue q) \<and> pipe_ok (taken k q)"
  using assms
proof (induction k arbitrary: q)
  case (Suc k)
  then have "queue q \<noteq> []" by auto
  note g = pq.get_contents[OF Suc.prems(1) this]
  then have "drop (Suc k) (queue q) = drop k (queue (snd (pipe_get q)))" by (metis drop_Suc_Cons)
  with Suc g show ?case by simp
qed simp

lemma taken_open [simp]: "writeopen (taken k q) = writeopen q" "readopen (taken k q) = readopen q"
  by (induction k arbitrary: q) simp_all

lemma uwrites_mapped: "uwrites m m' pt va bs \<Longrightarrow> umapped m' pt v = umapped m pt v"
  by (simp add: uwrites_def umapped_def)

lemma piperead_loop_spec:
  assumes "tree_ok (mem s) 2 (p_pagetable (procs s pr))" "user_ok (mem s) (p_pagetable (procs s pr))"
    "pipe_ok (pipes s pi)" "j = min k (length (queue (pipes s pi)))"
    "\<forall>v < j. umapped (mem s) (p_pagetable (procs s pr)) (addr + of_int i + of_nat v)"
  shows "\<exists>m'. piperead_loop k pi pr addr i s = Ok (i + int j) (set_pipe_mem pi (taken j (pipes s pi)) m' s) \<and>
    uwrites (mem s) m' (p_pagetable (procs s pr)) (addr + of_int i) (take j (queue (pipes s pi)))"
  using assms
proof (induction k arbitrary: s i j)
  case 0
  then show ?case by (intro exI[of _ "mem s"]) (simp add: uwrites_Nil)
next
  case (Suc k)
  define pt where "pt = p_pagetable (procs s pr)"
  let ?q = "pipes s pi"
  show ?case
  proof (cases "queue ?q = []")
    case True
    then have "nread ?q = nwrite ?q" by (simp add: pq.empty_iff)
    with Suc.prems True show ?thesis by (intro exI[of _ "mem s"]) (simp add: uwrites_Nil)
  next
    case False
    then have ne: "nread ?q \<noteq> nwrite ?q" by (simp add: pq.empty_iff)
    define c where "c = fst (pipe_get ?q)"
    define q' where "q' = snd (pipe_get ?q)"
    have g: "queue ?q = c # queue q'" "pipe_ok q'"
      using pq.get_contents[OF Suc.prems(3) False] by (simp_all add: c_def q'_def)
    obtain j' where j: "j = Suc j'" "j' = min k (length (queue q'))" using Suc.prems(4) g(1) by auto
    have um0: "umapped (mem s) pt (addr + of_int i)" using Suc.prems(5) j(1) by (auto simp: pt_def dest: spec[of _ 0])
    have um: "\<forall>v < j'. umapped (mem s) pt (addr + of_int (i + 1) + of_nat v)"
    proof (intro allI impI)
      fix v assume "v < j'"
      then have "umapped (mem s) pt (addr + of_int i + of_nat (Suc v))" using Suc.prems(5) j(1) by (simp only: pt_def Suc_less_eq)
      then show "umapped (mem s) pt (addr + of_int (i + 1) + of_nat v)" by (simp add: algebra_simps)
    qed
    obtain m1 where m1: "copyout pt (addr + of_int i) [c] (set_pipe pi q' s) = Ok 0 (set_pipe_mem pi q' m1 s)"
        "uwrites (mem s) m1 pt (addr + of_int i) [c]"
      using copyout_one[of "set_pipe pi q' s" pt "addr + of_int i" c] Suc.prems(1,2) um0
      by (auto simp: pt_def set_pipe_mem_def)
    have "piperead_loop (Suc k) pi pr addr i s = piperead_loop k pi pr addr (i + 1) (set_pipe_mem pi q' m1 s)"
      using ne m1(1) by (simp add: c_def q'_def pt_def upd_pipe_set split_beta)
    moreover obtain m' where "piperead_loop k pi pr addr (i + 1) (set_pipe_mem pi q' m1 s) =
        Ok (i + 1 + int j') (set_pipe_mem pi (taken j' q') m' s)"
        "uwrites m1 m' pt (addr + of_int (i + 1)) (take j' (queue q'))"
      using Suc.IH[of "set_pipe_mem pi q' m1 s" j' "i + 1"] m1(2) g(2) j(2) um
      by (auto simp: pt_def uwrites_mapped) (auto simp: uwrites_def)
    moreover have "unat (addr + of_int i) + length [c] < 2 ^ 64" using umapped_room[OF um0, of 1] by simp
    ultimately show ?thesis
      using uwrites_append[OF m1(2), of m' "take j' (queue q')"] g(1)
      by (auto simp: j(1) pt_def q'_def algebra_simps)
  qed
qed

lemma piperead_eq:
  assumes "pipe_user pr pi s" "user_ok (mem s) (p_pagetable (procs s pr))"
    "queue (pipes s pi) \<noteq> [] \<or> writeopen (pipes s pi) = 0" "j = min n (length (queue (pipes s pi)))"
    "\<forall>v < j. umapped (mem s) (p_pagetable (procs s pr)) (addr + of_nat v)"
  shows "\<exists>m'. piperead pi addr (int n) s = Ok (int j) (norm (woken {..<NPROC} (Some (ChanNwrite pi))
      (set_pipe_mem pi (taken j (pipes s pi)) m' s))) \<and>
    uwrites (mem s) m' (p_pagetable (procs s pr)) addr (take j (queue (pipes s pi)))"
proof -
  have u: "hart_ok s" "curp s = Some pr" "plocks_free s" "lock_free (PipeLock pi) s" "lock_free (ProcLock pr) s"
    using assms(1) by (auto simp: pipe_user_def plocks_free_def)
  have w: "piperead_wait f pi pr (grab (PipeLock pi) s) = Ok True (grab (PipeLock pi) s)" for f
    using assms(3) by (subst piperead_wait.simps) (auto simp: pq.empty_iff)
  obtain m' where m': "piperead_loop n pi pr addr 0 (grab (PipeLock pi) s) =
      Ok (int j) (grab (PipeLock pi) (set_pipe_mem pi (taken j (pipes s pi)) m' s))"
      "uwrites (mem s) m' (p_pagetable (procs s pr)) addr (take j (queue (pipes s pi)))"
    using piperead_loop_spec[of "grab (PipeLock pi) s" pr pi j n addr 0] assms by (auto simp: pipe_user_def)
  define t where "t = set_pipe_mem pi (taken j (pipes s pi)) m' s"
  have t: "hart_ok t" "plocks_free t" "lock_free (PipeLock pi) t" using u by (simp_all add: t_def)
  have k: "wakeup (Some (ChanNwrite pi)) (grab (PipeLock pi) t) =
      Ok () (grab (PipeLock pi) (woken {..<NPROC} (Some (ChanNwrite pi)) t))"
    using t by (intro wakeup_in_section) simp_all
  have r: "release (PipeLock pi) (grab (PipeLock pi) (woken {..<NPROC} (Some (ChanNwrite pi)) t)) =
      Ok () (norm (woken {..<NPROC} (Some (ChanNwrite pi)) t))"
    using t by (intro release_grab) (simp_all add: woken_frame)
  have "piperead pi addr (int n) s = Ok (int j) (norm (woken {..<NPROC} (Some (ChanNwrite pi)) t))"
    using u w m'(1) k r by (simp add: piperead_def curproc_eq acquire_lock_free t_def[symmetric])
  then show ?thesis using m'(2) unfolding t_def by blast
qed

section \<open>Properties\<close>

text \<open>The bounded byte queue a pipe implements, and the steps of both: a step that is not possible does nothing.\<close>

datatype qop = Put u8 | Get

fun queue_step :: "qop \<Rightarrow> u8 list \<Rightarrow> u8 list \<times> u8 list" where
  "queue_step (Put c) xs = ([], if length xs < PIPESIZE then xs @ [c] else xs)"
| "queue_step Get xs = (case xs of [] \<Rightarrow> ([], []) | x # xs \<Rightarrow> ([x], xs))"

fun pipe_step :: "qop \<Rightarrow> pipe \<Rightarrow> u8 list \<times> pipe" where
  "pipe_step (Put c) q = ([], if nwrite q = nread q + of_nat PIPESIZE then q else pipe_put c q)"
| "pipe_step Get q = (if nread q = nwrite q then ([], q) else case pipe_get q of (c, q) \<Rightarrow> ([c], q))"

fun run_steps :: "(qop \<Rightarrow> 's \<Rightarrow> u8 list \<times> 's) \<Rightarrow> qop list \<Rightarrow> 's \<Rightarrow> u8 list \<times> 's" where
  "run_steps f [] s = ([], s)"
| "run_steps f (x # xs) s = (case f x s of (bs, s) \<Rightarrow> case run_steps f xs s of (cs, s) \<Rightarrow> (bs @ cs, s))"

lemma pipe_step_refines:
  assumes "pipe_ok q" "pipe_step x q = (bs, q')"
  shows "queue_step x (queue q) = (bs, queue q') \<and> pipe_ok q'"
proof (cases x)
  case (Put c)
  have "length (queue q) \<le> PIPESIZE" using assms(1) by (simp add: pq.ring_ok_def pq.length_contents)
  then show ?thesis
    using assms Put pq.full_iff[of q] pq.put_contents[of q c] by (auto split: if_splits)
next
  case Get
  show ?thesis
  proof (cases "queue q = []")
    case True
    then show ?thesis using assms Get pq.empty_iff[of q] by auto
  next
    case False
    then show ?thesis
      using assms Get pq.empty_iff[of q] pq.get_contents[OF assms(1) False] by (auto simp: split_beta split: list.splits)
  qed
qed

text \<open>
  C16: The ring of a pipe refines a first-in first-out queue of at most 512 bytes: for every sequence of
  guarded stores and loads, in any order and however often the 32-bit counters wrap around, the pipe and the
  queue deliver the same bytes and end with the same contents.
\<close>

theorem pipe_refines_queue:
  assumes "pipe_ok q" "run_steps pipe_step xs q = (bs, q')"
  shows "run_steps queue_step xs (queue q) = (bs, queue q')"
  using assms
proof (induction xs arbitrary: q bs)
  case (Cons x xs)
  obtain b1 q1 where s1: "pipe_step x q = (b1, q1)" by (cases "pipe_step x q")
  note r = pipe_step_refines[OF Cons.prems(1) s1]
  obtain b2 where "run_steps pipe_step xs q1 = (b2, q')" "bs = b1 @ b2"
    using Cons.prems(2) s1 by (auto split: prod.splits)
  with Cons.IH[of q1 b2] r show ?case by simp
qed simp

text \<open>A pipe whose counters are about to wrap around.\<close>

definition demo_pipe :: pipe where
  "demo_pipe = \<lparr>pp_data = replicate PIPESIZE 0, nread = 0xffffffff, nwrite = 0xffffffff, readopen = 1, writeopen = 1\<rparr>"

lemma demo_pipe_ok: "pipe_ok demo_pipe" "queue demo_pipe = []" "readopen demo_pipe = 1" "writeopen demo_pipe = 1"
  by (simp_all add: demo_pipe_def pq.ring_ok_def pq.fill_def pq.contents_def)

theorem pipe_refines_queue_witness:
  "\<exists>q'. run_steps pipe_step [Put 7, Put 8, Get] demo_pipe = ([7], q') \<and> queue q' = [8] \<and> nwrite q' = 1"
proof -
  obtain bs q' where r: "run_steps pipe_step [Put 7, Put 8, Get] demo_pipe = (bs, q')" by fastforce
  have e: "run_steps queue_step [Put 7, Put 8, Get] [] = ([7], [8])" by (simp add: PIPESIZE_def)
  have "nwrite (snd (run_steps pipe_step [Put 7, Put 8, Get] demo_pipe)) = 1"
    by (simp add: demo_pipe_def pipe_put_def pipe_get_def PIPESIZE_def)
  with r e pipe_refines_queue[OF demo_pipe_ok(1) r] show ?thesis by (simp add: demo_pipe_ok(2))
qed

text \<open>
  C17: A \<^verbatim>\<open>pipewrite\<close> of \<open>n\<close> bytes for which the pipe has room returns \<open>n\<close> without sleeping: it appends exactly the
  \<open>n\<close> bytes of user memory to the queue, wakes exactly the processes that wait for data, leaves every lock and
  the interrupt state as they were, and writes no memory.
\<close>

theorem pipewrite_appends:
  assumes "pipe_user pr pi s" "readopen (pipes s pi) \<noteq> 0" "length (queue (pipes s pi)) + n \<le> PIPESIZE"
    "\<forall>j < n. umapped (mem s) (p_pagetable (procs s pr)) (addr + of_nat j)"
  shows "\<exists>s'. pipewrite pi addr (int n) s = Ok (int n) s' \<and>
    queue (pipes s' pi) = queue (pipes s pi) @ ubytes (mem s) (p_pagetable (procs s pr)) addr n \<and> pipe_ok (pipes s' pi) \<and>
    mem s' = mem s \<and> lkview s' = lkview s \<and>
    (\<forall>p. procs s' p = (if p < NPROC \<and> p \<noteq> pr \<and> p_state (procs s p) = SLEEPING \<and> p_chan (procs s p) = Some (ChanNread pi)
       then (procs s p)\<lparr>p_state := RUNNABLE\<rparr> else procs s p))"
proof -
  let ?bs = "ubytes (mem s) (p_pagetable (procs s pr)) addr n"
  define s' where "s' = norm (woken {..<NPROC} (Some (ChanNread pi)) (set_pipe pi (fold pipe_put ?bs (pipes s pi)) s))"
  have cur: "curp s = Some pr" and ok: "pipe_ok (pipes s pi)" using assms(1) by (simp_all add: pipe_user_def)
  have p: "pipes s' = (pipes s)(pi := fold pipe_put ?bs (pipes s pi))" by (simp add: s'_def woken_def set_pipe_def)
  have "queue (pipes s' pi) = queue (pipes s pi) @ ?bs \<and> pipe_ok (pipes s' pi)"
    using pq.fold_put_contents[OF ok, of ?bs] assms(3) by (simp add: p)
  moreover have "lkview s' = lkview s"
    unfolding s'_def norm_view by (simp add: woken_def set_pipe_def lkview_def)
  moreover have "mem s' = mem s" by (simp add: s'_def woken_def)
  moreover have "procs s' p = (if p < NPROC \<and> p \<noteq> pr \<and> p_state (procs s p) = SLEEPING \<and>
      p_chan (procs s p) = Some (ChanNread pi) then (procs s p)\<lparr>p_state := RUNNABLE\<rparr> else procs s p)" for p
    using cur by (auto simp: s'_def woken_def wake_proc_def)
  ultimately show ?thesis using pipewrite_eq[OF assms] unfolding s'_def by blast
qed


lemma uwrites_ubytes:
  assumes "uwrites m m' pt va bs" "\<And>i. i < length bs \<Longrightarrow> umapped m pt (va + of_nat i)"
  shows "ubytes m' pt va (length bs) = bs"
proof (rule nth_equalityI)
  fix i assume "i < length (ubytes m' pt va (length bs))"
  then have i: "i < length bs" by simp
  have "unat (va + of_nat i) = unat va + i" by (rule mapped_no_wrap[OF assms(2) i])
  then show "ubytes m' pt va (length bs) ! i = bs ! i" using assms(1) assms(2)[OF i] i by (simp add: uwrites_def)
qed simp

text \<open>
  C19: What one process writes to an empty pipe, another process reads from it: after a \<^verbatim>\<open>pipewrite\<close> of \<open>n\<close> bytes,
  whatever else has happened as long as the pipe has not been touched, a \<^verbatim>\<open>piperead\<close> of \<open>n\<close> bytes returns \<open>n\<close> and
  leaves in the reader's memory the bytes that were in the writer's memory.
\<close>

theorem pipe_delivers:
  assumes w: "pipe_user pw pi s" "readopen (pipes s pi) \<noteq> 0" "queue (pipes s pi) = []" "0 < n" "n \<le> PIPESIZE"
      "\<forall>j < n. umapped (mem s) (p_pagetable (procs s pw)) (addr + of_nat j)"
    and s1: "pipewrite pi addr (int n) s = Ok r s1"
    and rd: "pipe_user pr pi s2" "pipes s2 pi = pipes s1 pi" "user_ok (mem s2) (p_pagetable (procs s2 pr))"
      "\<forall>j < n. umapped (mem s2) (p_pagetable (procs s2 pr)) (addr' + of_nat j)"
  shows "\<exists>s3. piperead pi addr' (int n) s2 = Ok (int n) s3 \<and>
    ubytes (mem s3) (p_pagetable (procs s2 pr)) addr' n = ubytes (mem s) (p_pagetable (procs s pw)) addr n"
proof -
  let ?bs = "ubytes (mem s) (p_pagetable (procs s pw)) addr n"
  have "queue (pipes s1 pi) = ?bs"
    using pipewrite_eq[OF w(1,2) _ w(6)] w(3,5) s1 pq.fold_put_contents[of "pipes s pi" ?bs] w(1)
    by (auto simp: pipe_user_def woken_def set_pipe_def)
  then have q: "queue (pipes s2 pi) = ?bs" using rd(2) by simp
  then have ne: "queue (pipes s2 pi) \<noteq> []" and j: "n = min n (length (queue (pipes s2 pi)))"
    using w(4) by (auto simp: ubytes_def)
  obtain m' where m': "piperead pi addr' (int n) s2 = Ok (int n) (norm (woken {..<NPROC} (Some (ChanNwrite pi))
      (set_pipe_mem pi (taken n (pipes s2 pi)) m' s2)))"
    "uwrites (mem s2) m' (p_pagetable (procs s2 pr)) addr' (take n (queue (pipes s2 pi)))"
    using piperead_eq[OF rd(1,3) disjI1[OF ne] j rd(4)] by blast
  have "ubytes m' (p_pagetable (procs s2 pr)) addr' n = ?bs"
    using uwrites_ubytes[OF m'(2)] rd(4) q by simp
  moreover have "mem (norm (woken {..<NPROC} (Some (ChanNwrite pi)) (set_pipe_mem pi (taken n (pipes s2 pi)) m' s2))) = m'"
    by (simp add: woken_def)
  ultimately show ?thesis using m'(1) by metis
qed

lemma PIPESIZE_ge: "2 \<le> PIPESIZE" "0 < PIPESIZE" "Suc 0 \<le> PIPESIZE" "Suc (Suc 0) \<le> PIPESIZE"
  by (simp_all add: PIPESIZE_def)

text \<open>A process with one page of memory and a pipe of its own.\<close>

definition demo_pp :: "pipe \<Rightarrow> ppstate" where
  "demo_pp q = slstate.extend (pstate.extend ((demo_machine (Some 0))\<lparr>mem := demo_mem,
       procs := (\<lambda>p. (procs (demo_machine (Some 0)) p)\<lparr>p_pagetable := 0x87ffe000\<rparr>)\<rparr>)
     (slstate.fields (\<lambda>_. \<lparr>sl_locked = 0, sl_name = [], sl_pid = 0\<rparr>))) (ppstate.fields (\<lambda>_. q))"

lemma demo_pp_user: "pipe_ok q \<Longrightarrow> pipe_user 0 pi (demo_pp q)"
  "pipes (demo_pp q) pi = q" "mem (demo_pp q) = demo_mem" "p_pagetable (procs (demo_pp q) p) = 0x87ffe000"
  by (simp_all add: demo_pp_def pstate.defs slstate.defs ppstate.defs pipe_user_def demo_machine_def hart_ok_def
      plocks_free_def lock_free_def curp_def mycpu_def cpuid_def intr_get_def NPROC_def demo_proc_def demo_mem_ok)

lemma demo_mapped: "n \<le> 4096 \<Longrightarrow> \<forall>j < n. umapped demo_mem 0x87ffe000 (0 + of_nat j)"
  by (simp add: umapped_def demo_uaddr pn_def unat_of_nat64)

theorem pipewrite_appends_witness:
  "\<exists>s'. pipewrite 0 0 (int 2) (demo_pp demo_pipe) = Ok (int 2) s' \<and> length (queue (pipes s' 0)) = 2"
  using pipewrite_appends[OF demo_pp_user(1)[OF demo_pipe_ok(1)], of 0 2 0] demo_mapped[of 2]
  by (auto simp: demo_pp_user demo_pipe_ok PIPESIZE_ge)


theorem pipe_delivers_witness:
  "\<exists>s1 s3. pipewrite 0 0 (int 2) (demo_pp demo_pipe) = Ok (int 2) s1 \<and>
    piperead 0 8 (int 2) (demo_pp (pipes s1 0)) = Ok (int 2) s3 \<and>
    ubytes (mem s3) 0x87ffe000 8 2 = ubytes demo_mem 0x87ffe000 0 2"
proof -
  let ?s = "demo_pp demo_pipe"
  have u: "pipe_user 0 0 ?s" by (rule demo_pp_user(1)[OF demo_pipe_ok(1)])
  have m: "\<forall>j < 2. umapped (mem ?s) (p_pagetable (procs ?s 0)) (0 + of_nat j)"
    using demo_mapped[of 2] by (simp add: demo_pp_user)
  define s1 where "s1 = norm (woken {..<NPROC} (Some (ChanNread 0))
    (set_pipe 0 (fold pipe_put (ubytes (mem ?s) (p_pagetable (procs ?s 0)) 0 2) (pipes ?s 0)) ?s))"
  have e: "pipewrite 0 0 (int 2) ?s = Ok (int 2) s1"
    unfolding s1_def by (rule pipewrite_eq[OF u _ _ m]) (simp_all add: demo_pp_user demo_pipe_ok PIPESIZE_ge)
  have "pipes s1 0 = fold pipe_put (ubytes demo_mem 0x87ffe000 0 2) demo_pipe"
    by (simp add: s1_def woken_def set_pipe_def demo_pp_user)
  then have "pipe_ok (pipes s1 0)"
    using pq.fold_put_contents[OF demo_pipe_ok(1), of "ubytes demo_mem 0x87ffe000 0 2"] by (simp add: demo_pipe_ok PIPESIZE_ge)
  then have u2: "pipe_user 0 0 (demo_pp (pipes s1 0))" by (rule demo_pp_user(1))
  have m2: "\<forall>j < 2. umapped (mem (demo_pp (pipes s1 0))) (p_pagetable (procs (demo_pp (pipes s1 0)) 0)) (8 + of_nat j)"
  proof (intro allI impI)
    have m10: "\<forall>j < 10. umapped demo_mem 0x87ffe000 (0 + of_nat j)" by (rule demo_mapped) simp
    fix j :: nat assume "j < 2"
    then have "8 + j < 10" by simp
    then have "umapped demo_mem 0x87ffe000 (0 + of_nat (8 + j))" using m10 by blast
    then show "umapped (mem (demo_pp (pipes s1 0))) (p_pagetable (procs (demo_pp (pipes s1 0)) 0)) (8 + of_nat j)"
      by (simp add: demo_pp_user)
  qed
  from pipe_delivers[OF u _ _ _ _ m e u2 _ _ m2] e show ?thesis
    by (auto simp: demo_pp_user demo_pipe_ok demo_user_ok PIPESIZE_ge)
qed

end
