(* ===== verification/SleepFacts.thy ===== *)
theory SleepFacts
  imports ProcFacts
begin

text \<open>
  Sleep locks, and the state of a process that runs alone: \<open>quiet p s\<close> says that process \<open>p\<close> is running, that no
  spinlock is held and no disk request is under way.
\<close>

section \<open>A process that runs alone\<close>

definition quiet :: "nat \<Rightarrow> 'z vdstate_scheme \<Rightarrow> bool" where
  "quiet p s \<longleftrightarrow> hart_ok s \<and> noff (mycpu s) = 0 \<and> curp s = Some p \<and> p < NPROC \<and> (\<forall>lk. lock_free lk s) \<and>
     0 < patience s \<and> (\<forall>i < NUM. vd_free (vdisk s) i)"

lemma quietD:
  assumes "quiet p s"
  shows "hart_ok s" "curp s = Some p" "p < NPROC" "lock_free lk s" "plocks_free s" "noff (mycpu s) = 0" "0 < patience s"
    "i < NUM \<Longrightarrow> vd_free (vdisk s) i"
  using assms by (simp_all add: quiet_def plocks_free_def)

lemma mycpu_simps [simp]:
  "noff (mycpu (norm s)) = noff (mycpu s)" "mycpu (procs_update f s) = mycpu s" "mycpu (mem_update g s) = mycpu s"
  "mycpu (sleeplocks_update h s') = mycpu s'" "mycpu (bufs_update k s'') = mycpu s''" "mycpu (vdisk_update l s'') = mycpu s''"
  "mycpu (mmio_update m s'') = mycpu s''"
  by (simp_all add: mycpu_def cpuid_def)

lemma curp_more [simp]:
  "curp (sleeplocks_update h s') = curp s'" "curp (bufs_update k s'') = curp s''" "curp (vdisk_update l s'') = curp s''"
  "curp (mmio_update m s'') = curp s''"
  by (simp_all add: curp_def)

lemma quiet_simps [simp]:
  "quiet p (norm s) = quiet p s" "quiet p (procs_update f s) = quiet p s" "quiet p (sleeplocks_update g s) = quiet p s"
  "quiet p (bufs_update h s) = quiet p s"
  by (auto simp: quiet_def)

text \<open>What nothing in the disk code touches: the identity of the process, and the state of the layers above.\<close>

definition keep :: "nat \<Rightarrow> 'z vdstate_scheme \<Rightarrow> 'z vdstate_scheme \<Rightarrow> bool" where
  "keep p s s' \<longleftrightarrow> p_pid (procs s' p) = p_pid (procs s p) \<and> vdstate.more s' = vdstate.more s \<and> patience s' = patience s"

lemma keep_refl [simp]: "keep p s s"
  by (simp add: keep_def)

lemma keep_trans [trans]: "keep p s s' \<Longrightarrow> keep p s' s'' \<Longrightarrow> keep p s s''"
  by (simp add: keep_def)

lemma more_simps [simp]:
  "vdstate.more (norm s) = vdstate.more s" "vdstate.more (grab lk s) = vdstate.more s"
  by (simp_all add: norm_def grab_def spinlock_defs Let_def)

lemma keep_simps [simp]:
  "keep p s (norm s') = keep p s s'" "keep p s (grab lk s') = keep p s s'"
  "keep p s (sleeplocks_update g s') = keep p s s'" "keep p s (bufs_update h s') = keep p s s'"
  "keep p s (vdisk_update k s') = keep p s s'" "keep p s (mmio_update l s') = keep p s s'" "keep p s (medium_update m s') = keep p s s'"
  by (simp_all add: keep_def)

lemma keep_woken [simp]: "keep p s (woken P ch s') = keep p s s'"
  by (simp add: keep_def woken_def wake_proc_def)

lemma quiet_woken [simp]: "quiet p (woken P ch s) = quiet p s"
  by (simp add: woken_def)

lemma woken_fields [simp]: "sleeplocks (woken P ch s) = sleeplocks s" "bufs (woken P ch s') = bufs s'"
  "medium (woken P ch s') = medium s'" "vdisk (woken P ch s') = vdisk s'"
  by (simp_all add: woken_def)

section \<open>Sleep locks\<close>

lemma acquiresleep_free:
  assumes "quiet p s" "sl_locked (sleeplocks s lk) = 0"
  shows "acquiresleep lk s =
    Ok () (norm (upd_sl lk (\<lambda>l. l\<lparr>sl_locked := 1, sl_pid := p_pid (procs s p)\<rparr>) s))"
proof -
  note q = quietD[OF assms(1)]
  have l: "acquiresleep_loop n lk (grab (SleepLk lk) s) = Ok () (grab (SleepLk lk) s)" for n
    using assms(2) by (subst acquiresleep_loop.simps) simp
  show ?thesis
    using q release_grab[of "upd_sl lk (\<lambda>l. l\<lparr>sl_locked := 1, sl_pid := p_pid (procs s p)\<rparr>) s" "SleepLk lk"]
    by (simp add: acquiresleep_def acquire_lock_free l curproc_eq hart_ok_grab upd_sl_def)
qed

lemma holdingsleep_eq:
  assumes "quiet p s"
  shows "holdingsleep lk s =
    Ok (sl_locked (sleeplocks s lk) \<noteq> 0 \<and> sl_pid (sleeplocks s lk) = p_pid (procs s p)) (norm s)"
  unfolding holdingsleep_def
  by (rule with_lock_pure) (use quietD[OF assms] in \<open>auto simp: curproc_eq hart_ok_grab\<close>)

lemma releasesleep_eq:
  assumes "quiet p s"
  shows "releasesleep lk s = Ok () (norm (woken {..<NPROC} (Some (ChanSleep lk))
    (upd_sl lk (\<lambda>l. l\<lparr>sl_locked := 0, sl_pid := 0\<rparr>) s)))"
proof -
  note q = quietD[OF assms]
  define t where "t = upd_sl lk (\<lambda>l. l\<lparr>sl_locked := 0, sl_pid := 0\<rparr>) s"
  have t: "hart_ok t" "plocks_free t" "lock_free (SleepLk lk) t"
    using q by (simp_all add: t_def upd_sl_def plocks_free_def)
  have "wakeup (Some (ChanSleep lk)) (grab (SleepLk lk) t) =
      Ok () (grab (SleepLk lk) (woken {..<NPROC} (Some (ChanSleep lk)) t))"
    using t by (intro wakeup_in_section) simp_all
  moreover have "release (SleepLk lk) (grab (SleepLk lk) (woken {..<NPROC} (Some (ChanSleep lk)) t)) =
      Ok () (norm (woken {..<NPROC} (Some (ChanSleep lk)) t))"
    using t by (intro release_grab) (simp_all add: woken_def)
  moreover have "upd_sl lk (\<lambda>l. l\<lparr>sl_locked := 0, sl_pid := 0\<rparr>) (grab (SleepLk lk) s) = grab (SleepLk lk) t"
    by (simp add: t_def upd_sl_def)
  ultimately show ?thesis
    using q by (simp add: releasesleep_def acquire_lock_free t_def)
qed

end
