(* ===== verification/VirtioFacts.thy ===== *)
theory VirtioFacts
  imports SleepFacts
begin

text \<open>
  The disk driver as a client sees it. The device follows the descriptor chain the driver has put on the
  available ring, moves the data and raises an interrupt; \<open>disk_rely\<close> describes the state in which a process
  that waits for its request is resumed. Under that assumption \<^verbatim>\<open>virtio_disk_rw\<close> returns, a read delivers the
  block of the disk, a write replaces it and changes no other block, and all descriptors are free again.
\<close>

section \<open>The device\<close>

definition sector_of :: "u32 \<Rightarrow> u64" where
  "sector_of n = ucast (n * of_nat (BSIZE div 512))"

text \<open>A block is two consecutive sectors.\<close>

definition dblock :: "(u64 \<Rightarrow> u8 list) \<Rightarrow> u32 \<Rightarrow> u8 list" where
  "dblock m n = m (sector_of n) @ m (sector_of n + 1)"

definition dput :: "u32 \<Rightarrow> u8 list \<Rightarrow> (u64 \<Rightarrow> u8 list) \<Rightarrow> (u64 \<Rightarrow> u8 list)" where
  "dput n d m = m(sector_of n := take 512 d, sector_of n + 1 := drop 512 d)"

text \<open>The effect of the device on the request at the head of the available ring: three chained descriptors.\<close>

definition device :: "vdisk \<Rightarrow> (nat \<Rightarrow> buf) \<Rightarrow> (u64 \<Rightarrow> u8 list) \<Rightarrow> (nat \<Rightarrow> buf) \<times> (u64 \<Rightarrow> u8 list)" where
  "device d bf m =
     (let d0 = vd_desc d (unat (avail_ring d (unat (avail_idx d - 1) mod NUM)));
          d1 = vd_desc d (unat (d_next d0));
          d2 = vd_desc d (unat (d_next d1))
      in case (d_addr d0, d_addr d1, d_addr d2) of
        (OpsAddr j, DataAddr b, StatusAddr i) \<Rightarrow>
          let r = vd_ops d j; len = unat (d_len d1) in
          if req_type r = VIRTIO_BLK_T_OUT \<and> d_flags d1 AND VRING_DESC_F_WRITE = 0 then
            (bf, m(req_sector r := take 512 (take len (b_data (bf b))),
                   req_sector r + 1 := drop 512 (take len (b_data (bf b)))))
          else if req_type r = VIRTIO_BLK_T_IN \<and> d_flags d1 AND VRING_DESC_F_WRITE \<noteq> 0 then
            (bf(b := (bf b)\<lparr>b_data := take len (m (req_sector r) @ m (req_sector r + 1))\<rparr>), m)
          else (bf, m)
      | _ \<Rightarrow> (bf, m))"

text \<open>
  A process that has slept for its request is resumed after the device has served it and the interrupt handler
  has taken note; nothing else that concerns the process has changed, and no lock but its own is held.
\<close>

definition disk_rely :: "nat \<Rightarrow> 'z vdstate_scheme \<Rightarrow> 'z vdstate_scheme \<Rightarrow> bool" where
  "disk_rely p s s' \<longleftrightarrow> resumed p s' \<and> (\<forall>lk. lk \<noteq> ProcLock p \<longrightarrow> lock_free lk s') \<and> keep p s s' \<and>
     sleeplocks s' = sleeplocks s \<and> medium s' = snd (device (vdisk s) (bufs s) (medium s)) \<and>
     vd_free (vdisk s') = vd_free (vdisk s) \<and> vd_desc (vdisk s') = vd_desc (vdisk s) \<and>
     (\<forall>b. info_b (vdisk s) (unat (avail_ring (vdisk s) (unat (avail_idx (vdisk s) - 1) mod NUM))) = Some b \<longrightarrow>
        (let bf = fst (device (vdisk s) (bufs s) (medium s)) in bufs s' = bf(b := (bf b)\<lparr>b_disk := 0\<rparr>)))"

section \<open>Descriptors\<close>

lemma NUM_upt: "[0..<NUM] = [0, 1, 2, 3, 4, 5, 6, 7]"
  by (simp add: NUM_def upt_rec)

lemma alloc3_desc_eq:
  assumes "\<forall>i < NUM. vd_free (vdisk s) i"
  shows "alloc3_desc s = Ok (Some [0, 1, 2])
    (upd_vd (\<lambda>d. d\<lparr>vd_free := (vd_free d)(0 := False, 1 := False, 2 := False)\<rparr>) s)"
proof -
  have "vd_free (vdisk s) 0" "vd_free (vdisk s) 1" "vd_free (vdisk s) 2" using assms by (simp_all add: NUM_def)
  then show ?thesis
    by (simp add: alloc3_desc_def alloc_desc_def NUM_upt upd_vd_def numeral_3_eq_3)
qed

lemma rw_alloc_loop_eq:
  assumes "\<forall>i < NUM. vd_free (vdisk s) i"
  shows "rw_alloc_loop n s = Ok [0, 1, 2]
    (upd_vd (\<lambda>d. d\<lparr>vd_free := (vd_free d)(0 := False, 1 := False, 2 := False)\<rparr>) s)"
  by (subst rw_alloc_loop.simps) (simp add: alloc3_desc_eq[OF assms])

text \<open>The state in which the driver has handed the request to the device.\<close>

definition issued :: "nat \<Rightarrow> bool \<Rightarrow> 'z vdstate_scheme \<Rightarrow> 'z vdstate_scheme" where
  "issued b w s = (let s = rw_format b w [0, 1, 2]
       (upd_vd (\<lambda>d. d\<lparr>vd_free := (vd_free d)(0 := False, 1 := False, 2 := False)\<rparr>) s)
     in s\<lparr>mmio := (mmio s)(VIRTIO_MMIO_QUEUE_NOTIFY := 0)\<rparr>)"

lemmas rw_defs = issued_def rw_format_def upd_vd_def upd_desc_def upd_buf_def Let_def

lemma issued_simps [simp]:
  "bufs (issued b w s) = (bufs s)(b := (bufs s b)\<lparr>b_disk := 1\<rparr>)" "medium (issued b w s) = medium s"
  "sleeplocks (issued b w s) = sleeplocks s" "hart_ok (issued b w s) = hart_ok s" "lock_free lk (issued b w s) = lock_free lk s"
  "curp (issued b w s) = curp s" "mycpu (issued b w s) = mycpu s" "procs (issued b w s) = procs s"
  "issued b w (grab lk s) = grab lk (issued b w s)" "patience (issued b w s) = patience s"
  "tp (issued b w s) = tp s" "sie (issued b w s) = sie s" "cpus (issued b w s) = cpus s"
  "keep p s' (issued b w s) = keep p s' s"
  by (simp_all add: rw_defs keep_def)

lemma issued_vdisk:
  "vd_free (vdisk (issued b w s)) = (vd_free (vdisk s))(0 := False, 1 := False, 2 := False)"
  "avail_ring (vdisk (issued b w s)) (unat (avail_idx (vdisk (issued b w s)) - 1) mod NUM) = 0"
  "info_b (vdisk (issued b w s)) 0 = Some b"
  "d_flags (vd_desc (vdisk (issued b w s)) 0) = VRING_DESC_F_NEXT" "d_next (vd_desc (vdisk (issued b w s)) 0) = 1"
  "d_flags (vd_desc (vdisk (issued b w s)) 1) = (if w then 0 else VRING_DESC_F_WRITE) OR VRING_DESC_F_NEXT"
  "d_next (vd_desc (vdisk (issued b w s)) 1) = 2"
  "d_flags (vd_desc (vdisk (issued b w s)) 2) = VRING_DESC_F_WRITE"
  by (simp_all add: rw_defs)

lemma device_issued:
  "device (vdisk (issued b w s)) bf m =
     (if w then (bf, dput (b_blockno (bufs s b)) (take BSIZE (b_data (bf b))) m)
      else (bf(b := (bf b)\<lparr>b_data := take BSIZE (dblock m (b_blockno (bufs s b)))\<rparr>), m))"
  by (simp add: device_def dput_def dblock_def sector_of_def rw_defs VIRTIO_BLK_T_OUT_def VIRTIO_BLK_T_IN_def
      VRING_DESC_F_NEXT_def VRING_DESC_F_WRITE_def BSIZE_def)

section \<open>Freeing the chain\<close>

definition freed :: "nat \<Rightarrow> 'z vdstate_scheme \<Rightarrow> 'z vdstate_scheme" where
  "freed i u = woken {..<NPROC} (Some ChanDiskFree) (upd_vd (\<lambda>d. d\<lparr>vd_free := (vd_free d)(i := True)\<rparr>)
     (upd_desc i (\<lambda>_. \<lparr>d_addr = NullAddr, d_len = 0, d_flags = 0, d_next = 0\<rparr>) u))"

lemma freed_simps [simp]:
  "hart_ok (freed i u) = hart_ok u" "lock_free lk (freed i u) = lock_free lk u" "plocks_free (freed i u) = plocks_free u"
  "vd_free (vdisk (freed i u)) = (vd_free (vdisk u))(i := True)" "bufs (freed i u) = bufs u" "medium (freed i u) = medium u"
  "sleeplocks (freed i u) = sleeplocks u" "curp (freed i u) = curp u" "mycpu (freed i u) = mycpu u"
  "keep p s' (freed i u) = keep p s' u" "patience (freed i u) = patience u"
  "j \<noteq> i \<Longrightarrow> vd_desc (vdisk (freed i u)) j = vd_desc (vdisk u) j"
  by (simp_all add: freed_def upd_vd_def upd_desc_def plocks_free_def woken_frame)
    (simp_all add: woken_def)

lemma free_desc_eq:
  assumes "hart_ok u" "plocks_free u" "i < NUM" "\<not> vd_free (vdisk u) i"
  shows "free_desc i (grab VdiskLock u) = Ok () (grab VdiskLock (freed i u))"
proof -
  define v where "v = upd_vd (\<lambda>d. d\<lparr>vd_free := (vd_free d)(i := True)\<rparr>)
    (upd_desc i (\<lambda>_. \<lparr>d_addr = NullAddr, d_len = 0, d_flags = 0, d_next = 0\<rparr>) u)"
  have "wakeup (Some ChanDiskFree) (grab VdiskLock v) = Ok () (grab VdiskLock (woken {..<NPROC} (Some ChanDiskFree) v))"
    using assms(1,2) by (intro wakeup_in_section) (simp_all add: v_def upd_vd_def upd_desc_def plocks_free_def)
  moreover have "upd_vd (\<lambda>d. d\<lparr>vd_free := (vd_free d)(i := True)\<rparr>)
    (upd_desc i (\<lambda>_. \<lparr>d_addr = NullAddr, d_len = 0, d_flags = 0, d_next = 0\<rparr>) (grab VdiskLock u)) = grab VdiskLock v"
    by (simp add: v_def upd_vd_def upd_desc_def)
  ultimately show ?thesis using assms(3,4) by (simp add: free_desc_def freed_def v_def[symmetric])
qed

lemma free_chain_eq:
  assumes "hart_ok u" "plocks_free u" "\<not> vd_free (vdisk u) 0" "\<not> vd_free (vdisk u) 1" "\<not> vd_free (vdisk u) 2"
    "d_flags (vd_desc (vdisk u) 0) AND VRING_DESC_F_NEXT \<noteq> 0" "d_next (vd_desc (vdisk u) 0) = 1"
    "d_flags (vd_desc (vdisk u) 1) AND VRING_DESC_F_NEXT \<noteq> 0" "d_next (vd_desc (vdisk u) 1) = 2"
    "d_flags (vd_desc (vdisk u) 2) AND VRING_DESC_F_NEXT = 0"
  shows "free_chain 0 (grab VdiskLock u) = Ok () (grab VdiskLock (freed 2 (freed 1 (freed 0 u))))"
proof -
  have n: "0 < NUM" "1 < NUM" "2 < NUM" by (simp_all add: NUM_def)
  obtain k where s: "Suc NUM = Suc (Suc (Suc k))" using that[of 6] by (simp add: NUM_def)
  note f = free_desc_eq[OF assms(1,2) n(1) assms(3)] free_desc_eq[of "freed 0 u" 1, OF _ _ n(2)]
    free_desc_eq[of "freed 1 (freed 0 u)" 2, OF _ _ n(3)]
  show ?thesis using assms f by (simp add: free_chain_def s Let_def)
qed

section \<open>Requests\<close>

lemma vdisk_frame2 [simp]: "vdisk (awake p s) = vdisk s" "vdisk (before_lock lk ie s) = vdisk s"
  "bufs (awake p s) = bufs s" "bufs (before_lock lk ie s) = bufs s" "medium (awake p s) = medium s"
  "medium (before_lock lk ie s) = medium s" "sleeplocks (awake p s') = sleeplocks s'"
  "sleeplocks (before_lock lk ie s') = sleeplocks s'"
  by (simp_all add: awake_def upd_proc_def before_lock_def)

lemma keep_awake [simp]: "keep p s (awake q s') = keep p s s'" "keep p s (before_lock lk ie s') = keep p s s'"
  "keep p s (sleeping_on q ch s') = keep p s s'"
  by (simp_all add: keep_def awake_def upd_proc_def before_lock_def sleeping_on_def)

lemma keep_left [simp]: "keep p (grab lk s) s' = keep p s s'" "keep p (sleeping_on q ch s) s' = keep p s s'"
  "keep p (issued b w s) s' = keep p s s'"
  by (simp_all add: keep_def sleeping_on_def upd_proc_def) (simp add: rw_defs)

lemma sleeping_fields [simp]: "vdisk (sleeping_on p ch s) = vdisk s" "bufs (sleeping_on p ch s) = bufs s"
  "medium (sleeping_on p ch s) = medium s" "sleeplocks (sleeping_on p ch s') = sleeplocks s'"
  by (simp_all add: sleeping_on_def upd_proc_def)

text \<open>From the resumption on: the buffer is marked idle, the chain is freed, the lock released.\<close>

lemma rw_finish:
  assumes "hart_ok u" "noff (mycpu u) = 0" "curp u = Some p" "p < NPROC" "\<forall>lk. lock_free lk u" "0 < patience u"
    "d_flags (vd_desc (vdisk u) 0) AND VRING_DESC_F_NEXT \<noteq> 0" "d_next (vd_desc (vdisk u) 0) = 1"
    "d_flags (vd_desc (vdisk u) 1) AND VRING_DESC_F_NEXT \<noteq> 0" "d_next (vd_desc (vdisk u) 1) = 2"
    "d_flags (vd_desc (vdisk u) 2) AND VRING_DESC_F_NEXT = 0"
    "b_disk (bufs u b) \<noteq> 1" "\<forall>i < NUM. vd_free (vdisk u) i \<longleftrightarrow> 2 < i"
  shows "\<exists>s'. bind (rw_wait n b (grab VdiskLock u)) (\<lambda>_ s.
      let s = upd_vd (\<lambda>d. d\<lparr>info_b := (info_b d)(0 := None)\<rparr>) s in
      bind (free_chain 0 s) (\<lambda>_ s. release VdiskLock s)) = Ok () s' \<and>
    quiet p s' \<and> keep p u s' \<and> sleeplocks s' = sleeplocks u \<and> bufs s' = bufs u \<and> medium s' = medium u"
proof -
  define v where "v = upd_vd (\<lambda>d. d\<lparr>info_b := (info_b d)(0 := None)\<rparr>) u"
  define w where "w = freed 2 (freed 1 (freed 0 v))"
  have v: "hart_ok v" "plocks_free v" "\<forall>lk. lock_free lk v" "curp v = Some p" "noff (mycpu v) = 0" "0 < patience v"
    "vd_free (vdisk v) = vd_free (vdisk u)" "vd_desc (vdisk v) = vd_desc (vdisk u)" "keep p u v" "sleeplocks v = sleeplocks u"
    "bufs v = bufs u" "medium v = medium u"
    using assms by (simp_all add: v_def upd_vd_def plocks_free_def)
  have "\<not> vd_free (vdisk u) 0" "\<not> vd_free (vdisk u) 1" "\<not> vd_free (vdisk u) 2" using assms(13) by (auto simp: NUM_def)
  then have fc: "free_chain 0 (grab VdiskLock v) = Ok () (grab VdiskLock w)"
    unfolding w_def using v assms by (intro free_chain_eq) simp_all
  have rel: "release VdiskLock (grab VdiskLock w) = Ok () (norm w)" using v by (intro release_grab) (simp_all add: w_def)
  have wait: "rw_wait n b (grab VdiskLock u) = Ok () (grab VdiskLock u)"
    using assms(12) by (subst rw_wait.simps) simp
  have "quiet p (norm w)"
    using v assms(4,13) by (auto simp: quiet_def w_def NUM_def less_Suc_eq)
  moreover have "keep p u (norm w)" "sleeplocks (norm w) = sleeplocks u" "bufs (norm w) = bufs u" "medium (norm w) = medium u"
    using v by (simp_all add: w_def)
  moreover have "upd_vd (\<lambda>d. d\<lparr>info_b := (info_b d)(0 := None)\<rparr>) (grab VdiskLock u) = grab VdiskLock v"
    by (simp add: v_def upd_vd_def)
  ultimately show ?thesis using wait fc rel by (auto simp: Let_def)
qed

text \<open>What a request does to the buffer and to the disk.\<close>

definition served_buf :: "bool \<Rightarrow> (u64 \<Rightarrow> u8 list) \<Rightarrow> buf \<Rightarrow> buf" where
  "served_buf w m q = (if w then q\<lparr>b_disk := 0\<rparr> else q\<lparr>b_disk := 0, b_data := take BSIZE (dblock m (b_blockno q))\<rparr>)"

definition served_medium :: "bool \<Rightarrow> buf \<Rightarrow> (u64 \<Rightarrow> u8 list) \<Rightarrow> (u64 \<Rightarrow> u8 list)" where
  "served_medium w q m = (if w then dput (b_blockno q) (take BSIZE (b_data q)) m else m)"

lemma virtio_disk_rw_switch:
  assumes "quiet p s"
  shows "virtio_disk_rw b w s = Swtch (grab (ProcLock p) (sleeping_on p (ChanBuf b) (issued b w s)))
    (\<lambda>s'. bind (bind (release (ProcLock p) (awake p (set_mycpu ((mycpu s')\<lparr>intena := sie s (tp s)\<rparr>) s')))
        (\<lambda>_ s. acquire VdiskLock s)) (\<lambda>_ s''.
      bind (rw_wait (patience s - 1) b s'') (\<lambda>_ s.
      let s = upd_vd (\<lambda>d. d\<lparr>info_b := (info_b d)(0 := None)\<rparr>) s in
      bind (free_chain 0 s) (\<lambda>_ s. release VdiskLock s))))"
proof -
  note q = quietD[OF assms]
  have al: "rw_alloc_loop n (grab VdiskLock s) = Ok [0, 1, 2]
      (upd_vd (\<lambda>d. d\<lparr>vd_free := (vd_free d)(0 := False, 1 := False, 2 := False)\<rparr>) (grab VdiskLock s))" for n
    by (rule rw_alloc_loop_eq) (use assms in \<open>simp add: quiet_def\<close>)
  have iss: "(rw_format b w [0, 1, 2] (upd_vd (\<lambda>d. d\<lparr>vd_free := (vd_free d)(0 := False, 1 := False, 2 := False)\<rparr>)
        (grab VdiskLock s)))\<lparr>mmio := (mmio (rw_format b w [0, 1, 2]
        (upd_vd (\<lambda>d. d\<lparr>vd_free := (vd_free d)(0 := False, 1 := False, 2 := False)\<rparr>) (grab VdiskLock s))))
          (VIRTIO_MMIO_QUEUE_NOTIFY := 0)\<rparr> = grab VdiskLock (issued b w s)"
    using issued_simps(9)[of b w VdiskLock s] by (simp only: issued_def Let_def)
  have sl: "sleep (ChanBuf b) VdiskLock (grab VdiskLock (issued b w s)) =
      Swtch (grab (ProcLock p) (sleeping_on p (ChanBuf b) (issued b w s)))
      (\<lambda>s'. bind (release (ProcLock p) (awake p (set_mycpu ((mycpu s')\<lparr>intena := sie s (tp s)\<rparr>) s')))
        (\<lambda>_ s. acquire VdiskLock s))"
    using sleep_eq[of "issued b w s" p VdiskLock "ChanBuf b"] q by simp
  obtain m where m: "patience s = Suc m" using q(7) by (cases "patience s") auto
  have wait: "rw_wait (patience s) b (grab VdiskLock (issued b w s)) =
      bind (sleep (ChanBuf b) VdiskLock (grab VdiskLock (issued b w s))) (\<lambda>_ s. rw_wait m b s)"
    by (subst rw_wait.simps) (simp add: m)
  have p: "patience (grab VdiskLock (issued b w s)) = patience s" by simp
  have "virtio_disk_rw b w s = bind (rw_wait (patience s) b (grab VdiskLock (issued b w s))) (\<lambda>_ s.
      let s = upd_vd (\<lambda>d. d\<lparr>info_b := (info_b d)(0 := None)\<rparr>) s in
      bind (free_chain 0 s) (\<lambda>_ s. release VdiskLock s))"
    by (simp only: virtio_disk_rw_def acquire_lock_free[OF q(4)] bind.simps al Let_def iss p nth_Cons_0)
  also have "\<dots> = bind (bind (sleep (ChanBuf b) VdiskLock (grab VdiskLock (issued b w s))) (\<lambda>_ s. rw_wait m b s)) (\<lambda>_ s.
      let s = upd_vd (\<lambda>d. d\<lparr>info_b := (info_b d)(0 := None)\<rparr>) s in
      bind (free_chain 0 s) (\<lambda>_ s. release VdiskLock s))"
    by (simp only: wait)
  finally show ?thesis by (simp add: sl m kbind_assoc)
qed

text \<open>The device and the interrupt handler can always complete the request.\<close>

lemma disk_rely_possible:
  assumes "quiet p s"
  shows "\<exists>s'. disk_rely p (grab (ProcLock p) (sleeping_on p (ChanBuf b) (issued b w s))) s'"
proof -
  note q = quietD[OF assms]
  let ?s1 = "grab (ProcLock p) (sleeping_on p (ChanBuf b) (issued b w s))"
  let ?d = "device (vdisk ?s1) (bufs ?s1) (medium ?s1)"
  let ?s' = "?s1\<lparr>bufs := (fst ?d)(b := (fst ?d b)\<lparr>b_disk := 0\<rparr>), medium := snd ?d\<rparr>"
  have "resumed p ?s'" using q by (simp add: resumed_def holding_def mycpu_def cpuid_def intr_get_def curp_def sleeping_on_def upd_proc_def)
  moreover have "keep p ?s1 ?s'" by (simp add: keep_def)
  moreover have "lock_free lk (sleeping_on p (ChanBuf b) (issued b w s))" for lk
    using q(4) by (simp add: sleeping_on_def upd_proc_def)
  ultimately have "disk_rely p ?s1 ?s'"
    by (simp add: disk_rely_def issued_vdisk Let_def)
  then show ?thesis by blast
qed

lemma virtio_disk_rw_safe:
  assumes "quiet p s" "C (medium s)" "C (served_medium w (bufs s b) (medium s))"
  shows "safe (disk_rely p) (\<lambda>s. C (medium s)) (\<lambda>_ s'. quiet p s' \<and> keep p s s' \<and> sleeplocks s' = sleeplocks s \<and>
    bufs s' = (bufs s)(b := served_buf w (medium s) (bufs s b)) \<and> medium s' = served_medium w (bufs s b) (medium s))
    (virtio_disk_rw b w s)"
  unfolding virtio_disk_rw_switch[OF assms(1)] safe.simps
proof (intro conjI allI impI)
  note q = quietD[OF assms(1)]
  let ?s1 = "grab (ProcLock p) (sleeping_on p (ChanBuf b) (issued b w s))"
  show "C (medium ?s1)" using assms(2) by simp
  show "\<exists>s'. disk_rely p ?s1 s'" by (rule disk_rely_possible[OF assms(1)])
  fix s' assume r: "disk_rely p ?s1 s'"
  have med: "medium s' = served_medium w (bufs s b) (medium s)"
    and bf: "bufs s' = (bufs s)(b := served_buf w (medium s) (bufs s b))"
    using r by (auto simp: disk_rely_def device_issued issued_vdisk served_medium_def served_buf_def Let_def)
  show "C (medium s')" using assms(3) med by simp
  define u where "u = awake p (before_lock (ProcLock p) (sie s (tp s)) s')"
  have res: "resumed p s'" and fr: "vd_free (vdisk s') = (vd_free (vdisk s))(0 := False, 1 := False, 2 := False)"
      "vd_desc (vdisk s') = vd_desc (vdisk (issued b w s))" "keep p s s'" "sleeplocks s' = sleeplocks s"
      "\<forall>lk. lk \<noteq> ProcLock p \<longrightarrow> lock_free lk s'"
    using r by (simp_all add: disk_rely_def issued_vdisk)
  have lk: "lock_free lk u" for lk
    using fr(5) by (cases "lk = ProcLock p") (auto simp: u_def awake_def upd_proc_def before_lock_simps)
  have u: "hart_ok u" "noff (mycpu u) = 0" "curp u = Some p" "0 < patience u"
    using res q(7) fr(3) by (simp_all add: u_def awake_def upd_proc_def before_lock_simps)
      (simp_all add: before_lock_def resumed_def keep_def)
  have free: "\<forall>i < NUM. vd_free (vdisk u) i \<longleftrightarrow> 2 < i"
    using fr(1) q(8) by (auto simp: u_def NUM_def less_Suc_eq)
  have "\<exists>s''. bind (rw_wait (patience s - 1) b (grab VdiskLock u)) (\<lambda>_ s.
      let s = upd_vd (\<lambda>d. d\<lparr>info_b := (info_b d)(0 := None)\<rparr>) s in
      bind (free_chain 0 s) (\<lambda>_ s. release VdiskLock s)) = Ok () s'' \<and>
    quiet p s'' \<and> keep p u s'' \<and> sleeplocks s'' = sleeplocks u \<and> bufs s'' = bufs u \<and> medium s'' = medium u"
    using u q(3) lk free fr(2) bf
    by (intro rw_finish)
      (auto simp: u_def issued_vdisk issued_vdisk[unfolded One_nat_def] served_buf_def VRING_DESC_F_NEXT_def VRING_DESC_F_WRITE_def)
  then obtain s'' where s'': "bind (rw_wait (patience s - 1) b (grab VdiskLock u)) (\<lambda>_ s.
      let s = upd_vd (\<lambda>d. d\<lparr>info_b := (info_b d)(0 := None)\<rparr>) s in
      bind (free_chain 0 s) (\<lambda>_ s. release VdiskLock s)) = Ok () s''"
    "quiet p s''" "keep p u s''" "sleeplocks s'' = sleeplocks u" "bufs s'' = bufs u" "medium s'' = medium u" by blast
  have "keep p s s''" using fr(3) s''(3) by (auto simp: u_def keep_def awake_def upd_proc_def before_lock_def)
  then show "safe (disk_rely p) (\<lambda>s. C (medium s)) (\<lambda>_ s'. quiet p s' \<and> keep p s s' \<and> sleeplocks s' = sleeplocks s \<and>
      bufs s' = (bufs s)(b := served_buf w (medium s) (bufs s b)) \<and> medium s' = served_medium w (bufs s b) (medium s))
    (bind (bind (release (ProcLock p) (awake p (set_mycpu ((mycpu s')\<lparr>intena := sie s (tp s)\<rparr>) s')))
        (\<lambda>_ s. acquire VdiskLock s)) (\<lambda>_ s''.
      bind (rw_wait (patience s - 1) b s'') (\<lambda>_ s.
      let s = upd_vd (\<lambda>d. d\<lparr>info_b := (info_b d)(0 := None)\<rparr>) s in
      bind (free_chain 0 s) (\<lambda>_ s. release VdiskLock s))))"
    unfolding awake_resume[OF res] u_def[symmetric] acquire_lock_free[OF lk] bind.simps s''(1)
    using s'' bf med fr(4) by (simp add: u_def)
qed

end
