(* ===== verification/LruFacts.thy ===== *)
theory LruFacts
  imports Bio
begin

text \<open>
  The doubly linked list of the buffer cache (\<^verbatim>\<open>bcache.head\<close>). \<open>lru bf L\<close> says that the pointers in \<open>bf\<close> form a
  ring through the header that visits the buffers in the order \<open>L\<close>; the searches of \<^verbatim>\<open>bget\<close> walk along it,
  and \<^verbatim>\<open>brelse\<close> moves a buffer to its front.
\<close>

section \<open>Chains of pointers\<close>

text \<open>\<open>f\<close> maps every element of the list but the last to its successor.\<close>

fun path :: "('a \<Rightarrow> 'a) \<Rightarrow> 'a list \<Rightarrow> bool" where
  "path f (a # b # xs) \<longleftrightarrow> f a = b \<and> path f (b # xs)"
| "path f xs \<longleftrightarrow> True"

lemma path_append: "path f (xs @ a # ys) \<longleftrightarrow> path f (xs @ [a]) \<and> path f (a # ys)"
proof (induction xs)
  case (Cons x xs)
  then show ?case by (cases xs) auto
qed simp

lemma path_Cons: "path f (a # xs) \<longleftrightarrow> xs = [] \<or> f a = hd xs \<and> path f xs"
  by (cases xs) auto

lemma path_upd: "a \<notin> set (butlast xs) \<Longrightarrow> path (f(a := v)) xs = path f xs"
  by (induction f xs rule: path.induct) auto

lemma path_snoc: "path f (xs @ [a]) \<longleftrightarrow> xs = [] \<or> path f xs \<and> f (last xs) = a"
proof (induction xs)
  case (Cons x xs)
  then show ?case by (cases xs) auto
qed simp

text \<open>Taking \<open>b\<close> out of a chain, and putting it in after \<open>a\<close>.\<close>

lemma path_remove:
  assumes "path f (xs @ b # zs)" "distinct xs" "xs \<noteq> []" "zs \<noteq> []" "last xs \<notin> set (butlast zs)"
  shows "path (f(last xs := f b)) (xs @ zs)"
proof -
  obtain ys a where xs: "xs = ys @ [a]" using assms(3) by (metis append_butlast_last_id)
  obtain c cs where zs: "zs = c # cs" using assms(4) by (cases zs) auto
  have p: "path f (ys @ [a])" "f b = c" "path f (c # cs)"
    using assms(1) path_append[of f ys a "b # zs"] by (auto simp: xs zs)
  have "path (f(a := c)) (ys @ [a])" "path (f(a := c)) (c # cs)"
    using p assms(2,5) by (auto simp: xs zs path_upd butlast_append)
  then show ?thesis
    using p(2) path_append[of "f(a := c)" ys a "c # cs"] by (simp add: xs zs)
qed

lemma path_insert:
  assumes "path f (xs @ a # zs)" "zs \<noteq> []" "b \<notin> set (xs @ [a])" "b \<notin> set (butlast zs)" "a \<notin> set xs" "a \<notin> set (butlast zs)"
  shows "path (f(b := hd zs, a := b)) (xs @ a # b # zs)"
proof -
  obtain c cs where zs: "zs = c # cs" using assms(2) by (cases zs) auto
  have p: "path f (xs @ [a])" "path f (c # cs)" using assms(1) path_append[of f xs a zs] by (auto simp: zs)
  have ab: "a \<noteq> b" using assms(3) by auto
  have "path (f(b := c, a := b)) (xs @ [a])"
    using p(1) assms(3,5) by (simp add: path_upd butlast_append)
  moreover have "path (f(b := c, a := b)) (c # cs)"
    using p(2) assms(4,6) by (simp add: zs path_upd)
  ultimately show ?thesis
    using ab path_append[of "f(b := c, a := b)" xs a "b # c # cs"] by (simp add: zs)
qed

section \<open>The ring\<close>

definition lru :: "(nat \<Rightarrow> buf) \<Rightarrow> nat list \<Rightarrow> bool" where
  "lru bf L \<longleftrightarrow> distinct L \<and> set L = {..<NBUF} \<and>
     path (\<lambda>b. b_next (bf b)) (NBUF # L @ [NBUF]) \<and> path (\<lambda>b. b_prev (bf b)) (NBUF # rev L @ [NBUF])"

lemma lru_links:
  assumes "b_next \<circ> bf' = b_next \<circ> bf" "b_prev \<circ> bf' = b_prev \<circ> bf"
  shows "lru bf' L = lru bf L"
proof -
  have "(\<lambda>b. b_next (bf' b)) = (\<lambda>b. b_next (bf b))" "(\<lambda>b. b_prev (bf' b)) = (\<lambda>b. b_prev (bf b))"
    using assms by (auto simp: fun_eq_iff)
  then show ?thesis by (simp add: lru_def)
qed

lemma lru_upd [simp]: "b_next q = b_next (bf b) \<Longrightarrow> b_prev q = b_prev (bf b) \<Longrightarrow> lru (bf(b := q)) L = lru bf L"
  by (rule lru_links) (auto simp: fun_eq_iff)

section \<open>Searching\<close>

lemma find_cached_eq:
  assumes "path (\<lambda>b. b_next (bufs s b)) (xs @ [NBUF])" "NBUF \<notin> set xs" "length xs \<le> fuel"
  shows "find_cached fuel (hd (xs @ [NBUF])) dev n s =
    Ok (find (\<lambda>b. b_dev (bufs s b) = dev \<and> b_blockno (bufs s b) = n) xs) s"
  using assms
proof (induction xs arbitrary: fuel)
  case Nil
  then show ?case by (subst find_cached.simps) simp
next
  case (Cons x xs)
  obtain f where f: "fuel = Suc f" using Cons.prems(3) by (cases fuel) auto
  have "b_next (bufs s x) = hd (xs @ [NBUF])" "path (\<lambda>b. b_next (bufs s b)) (xs @ [NBUF])"
    using Cons.prems(1) by (auto simp: path_Cons)
  then show ?case using Cons f by (subst find_cached.simps) simp
qed

lemma find_unref_eq:
  assumes "path (\<lambda>b. b_prev (bufs s b)) (xs @ [NBUF])" "NBUF \<notin> set xs" "length xs \<le> fuel"
  shows "find_unref fuel (hd (xs @ [NBUF])) s = Ok (find (\<lambda>b. b_refcnt (bufs s b) = 0) xs) s"
  using assms
proof (induction xs arbitrary: fuel)
  case Nil
  then show ?case by (subst find_unref.simps) simp
next
  case (Cons x xs)
  obtain f where f: "fuel = Suc f" using Cons.prems(3) by (cases fuel) auto
  have "b_prev (bufs s x) = hd (xs @ [NBUF])" "path (\<lambda>b. b_prev (bufs s b)) (xs @ [NBUF])"
    using Cons.prems(1) by (auto simp: path_Cons)
  then show ?case using Cons f by (subst find_unref.simps) simp
qed

lemma lru_length: "lru bf L \<Longrightarrow> length L = NBUF"
  unfolding lru_def by (metis card_lessThan distinct_card)

lemma bget_searches:
  assumes "lru (bufs s) L"
  shows "find_cached NBUF (b_next (bufs s NBUF)) dev n s =
      Ok (find (\<lambda>b. b_dev (bufs s b) = dev \<and> b_blockno (bufs s b) = n) L) s"
    "find_unref NBUF (b_prev (bufs s NBUF)) s = Ok (find (\<lambda>b. b_refcnt (bufs s b) = 0) (rev L)) s"
proof -
  have l: "NBUF \<notin> set L" "length L \<le> NBUF" using assms lru_length[OF assms] by (auto simp: lru_def)
  have n: "b_next (bufs s NBUF) = hd (L @ [NBUF])" "path (\<lambda>b. b_next (bufs s b)) (L @ [NBUF])"
    using assms by (auto simp: lru_def path_Cons)
  have p: "b_prev (bufs s NBUF) = hd (rev L @ [NBUF])" "path (\<lambda>b. b_prev (bufs s b)) (rev L @ [NBUF])"
    using assms by (auto simp: lru_def path_Cons)
  show "find_cached NBUF (b_next (bufs s NBUF)) dev n s =
      Ok (find (\<lambda>b. b_dev (bufs s b) = dev \<and> b_blockno (bufs s b) = n) L) s"
    unfolding n(1) using l n(2) by (intro find_cached_eq)
  show "find_unref NBUF (b_prev (bufs s NBUF)) s = Ok (find (\<lambda>b. b_refcnt (bufs s b) = 0) (rev L)) s"
    unfolding p(1) using l p(2) by (intro find_unref_eq) auto
qed

section \<open>Moving a buffer to the front\<close>

text \<open>The fields of a buffer other than its links.\<close>

definition core :: "buf \<Rightarrow> buf" where
  "core q = q\<lparr>b_next := 0, b_prev := 0\<rparr>"

lemma core_fields:
  assumes "core q = core r"
  shows "b_dev q = b_dev r" "b_blockno q = b_blockno r" "b_valid q = b_valid r" "b_refcnt q = b_refcnt r" "b_data q = b_data r"
    "b_disk q = b_disk r"
  using assms by (cases q; cases r; simp add: core_def)+

lemma core_links [simp]: "core (q\<lparr>b_next := v\<rparr>) = core q" "core (q\<lparr>b_prev := v\<rparr>) = core q"
  by (simp_all add: core_def)

lemma link_simps [simp]:
  "b_next (bufs (set_next b v s) x) = (if x = b then v else b_next (bufs s x))"
  "b_prev (bufs (set_next b v s) x) = b_prev (bufs s x)"
  "b_prev (bufs (set_prev b v s) x) = (if x = b then v else b_prev (bufs s x))"
  "b_next (bufs (set_prev b v s) x) = b_next (bufs s x)"
  "core (bufs (set_next b v s) x) = core (bufs s x)" "core (bufs (set_prev b v s) x) = core (bufs s x)"
  by (simp_all add: set_next_def set_prev_def upd_buf_def)

lemma unlink_buf_links:
  assumes "b_next (bufs s b) \<noteq> b"
  shows "(\<lambda>x. b_next (bufs (unlink_buf b s) x)) = (\<lambda>x. b_next (bufs s x))(b_prev (bufs s b) := b_next (bufs s b))"
    "(\<lambda>x. b_prev (bufs (unlink_buf b s) x)) = (\<lambda>x. b_prev (bufs s x))(b_next (bufs s b) := b_prev (bufs s b))"
  using assms by (auto simp: unlink_buf_def Let_def fun_eq_iff)

lemma push_front_links:
  assumes "b \<noteq> NBUF"
  shows "(\<lambda>x. b_next (bufs (push_front b s) x)) = (\<lambda>x. b_next (bufs s x))(b := b_next (bufs s NBUF), NBUF := b)"
    "(\<lambda>x. b_prev (bufs (push_front b s) x)) = (\<lambda>x. b_prev (bufs s x))(b := NBUF, b_next (bufs s NBUF) := b)"
  using assms by (auto simp: push_front_def Let_def fun_eq_iff)

definition relinked :: "'z vdstate_scheme \<Rightarrow> 'z vdstate_scheme \<Rightarrow> bool" where
  "relinked s t \<longleftrightarrow> t = s\<lparr>bufs := bufs t\<rparr> \<and> (\<forall>x. core (bufs t x) = core (bufs s x))"

lemma relinked_refl: "relinked s s"
  by (simp add: relinked_def)

lemma relinked_set: "relinked s t \<Longrightarrow> relinked s (set_next b v t)" "relinked s t \<Longrightarrow> relinked s (set_prev b v t)"
proof -
  have u: "\<exists>bf. u = s\<lparr>bufs := bf\<rparr> \<Longrightarrow> u = s\<lparr>bufs := bufs u\<rparr>" for u
    by auto
  assume r: "relinked s t"
  then obtain bf where t: "t = s\<lparr>bufs := bf\<rparr>" unfolding relinked_def by blast
  show "relinked s (set_next b v t)"
    unfolding relinked_def using r by (intro conjI u) (auto simp: relinked_def set_next_def upd_buf_def t)
  show "relinked s (set_prev b v t)"
    unfolding relinked_def using r by (intro conjI u) (auto simp: relinked_def set_prev_def upd_buf_def t)
qed

lemma push_front_frame: "relinked s t \<Longrightarrow> relinked s (push_front b t)"
  by (simp add: push_front_def Let_def relinked_set)

lemma unlink_buf_frame: "relinked s t \<Longrightarrow> relinked s (unlink_buf b t)"
  by (simp add: unlink_buf_def Let_def relinked_set)

text \<open>The ring without \<open>b\<close>.\<close>

lemma unlink_buf_path:
  assumes "lru (bufs s) (xs @ b # ys)"
  shows "path (\<lambda>x. b_next (bufs (unlink_buf b s) x)) (NBUF # (xs @ ys) @ [NBUF])"
    "path (\<lambda>x. b_prev (bufs (unlink_buf b s) x)) (NBUF # rev (xs @ ys) @ [NBUF])"
proof -
  let ?n = "\<lambda>x. b_next (bufs s x)" and ?p = "\<lambda>x. b_prev (bufs s x)"
  have d: "distinct (xs @ b # ys)" "NBUF \<notin> set (xs @ b # ys)" using assms by (auto simp: lru_def)
  have n: "path ?n ((NBUF # xs) @ b # (ys @ [NBUF]))" and p: "path ?p ((NBUF # rev ys) @ b # (rev xs @ [NBUF]))"
    using assms by (simp_all add: lru_def)
  have nb: "b_next (bufs s b) = last (NBUF # rev ys)" 
    using n path_append[of ?n "NBUF # xs" b "ys @ [NBUF]"] by (cases ys) (auto simp: path_Cons)
  have pb: "b_prev (bufs s b) = last (NBUF # xs)"
    using p path_append[of ?p "NBUF # rev ys" b "rev xs @ [NBUF]"] by (cases xs rule: rev_cases) (auto simp: path_Cons)
  have ne: "b_next (bufs s b) \<noteq> b" using d unfolding nb by (cases ys) auto
  have "path (?n(last (NBUF # xs) := ?n b)) ((NBUF # xs) @ (ys @ [NBUF]))"
    using n d by (intro path_remove) (auto simp: butlast_append split: if_splits dest: last_in_set)
  moreover have "path (?p(last (NBUF # rev ys) := ?p b)) ((NBUF # rev ys) @ (rev xs @ [NBUF]))"
    using p d by (intro path_remove) (auto simp: butlast_append last_rev split: if_splits dest: hd_in_set)
  ultimately show "path (\<lambda>x. b_next (bufs (unlink_buf b s) x)) (NBUF # (xs @ ys) @ [NBUF])"
    "path (\<lambda>x. b_prev (bufs (unlink_buf b s) x)) (NBUF # rev (xs @ ys) @ [NBUF])"
    unfolding unlink_buf_links[OF ne] nb pb[symmetric] by (simp_all only: nb pb append_Cons append_assoc rev_append)
qed

lemma push_front_path:
  assumes "path (\<lambda>x. b_next (bufs s x)) (NBUF # xs @ [NBUF])" "path (\<lambda>x. b_prev (bufs s x)) (NBUF # rev xs @ [NBUF])"
    "distinct (b # xs)" "b \<noteq> NBUF" "NBUF \<notin> set xs"
  shows "path (\<lambda>x. b_next (bufs (push_front b s) x)) (NBUF # (b # xs) @ [NBUF])"
    "path (\<lambda>x. b_prev (bufs (push_front b s) x)) (NBUF # rev (b # xs) @ [NBUF])"
proof -
  let ?n = "\<lambda>x. b_next (bufs s x)" and ?p = "\<lambda>x. b_prev (bufs s x)"
  have h: "?n NBUF = hd (xs @ [NBUF])" using assms(1) by (simp add: path_Cons)
  obtain ys a where ya: "NBUF # rev xs = ys @ [a]" by (metis list.discI rev_exhaust)
  have a: "a = hd (xs @ [NBUF])" using ya by (cases xs) (auto simp: append_eq_Cons_conv Cons_eq_append_conv)
  have s: "set ys \<union> {a} = insert NBUF (set xs)" using arg_cong[OF ya, of set] by auto
  have dy: "distinct (ys @ [a])" using assms(3,5) unfolding ya[symmetric] by auto
  have bm: "b \<notin> set (ys @ [a])" using s assms(3,4) by auto
  have "path (?n(b := hd (xs @ [NBUF]), NBUF := b)) ([] @ NBUF # b # (xs @ [NBUF]))"
    using assms by (intro path_insert) (auto simp: butlast_append)
  then show "path (\<lambda>x. b_next (bufs (push_front b s) x)) (NBUF # (b # xs) @ [NBUF])"
    unfolding push_front_links[OF assms(4)] h by simp
  have "path ?p ((NBUF # rev xs) @ [NBUF])" using assms(2) by simp
  then have pa: "path ?p (ys @ a # [NBUF])" unfolding ya by simp
  have eq: "NBUF # rev xs @ zs = ys @ a # zs" for zs using arg_cong[OF ya, of "\<lambda>l. l @ zs"] by simp
  have "path (?p(b := hd [NBUF], a := b)) (ys @ a # b # [NBUF])"
    using pa dy bm by (intro path_insert) auto
  then show "path (\<lambda>x. b_prev (bufs (push_front b s) x)) (NBUF # rev (b # xs) @ [NBUF])"
    unfolding push_front_links[OF assms(4)] h a[symmetric] by (simp add: eq)
qed

lemma move_to_front:
  assumes "lru (bufs s) L" "b < NBUF"
  shows "\<exists>bf. push_front b (unlink_buf b s) = s\<lparr>bufs := bf\<rparr> \<and> (\<forall>x. core (bf x) = core (bufs s x)) \<and> lru bf (b # remove1 b L)"
proof -
  have "b \<in> set L" using assms by (auto simp: lru_def)
  then obtain xs ys where L: "L = xs @ b # ys" by (meson split_list)
  have d: "distinct (xs @ b # ys)" "set L = {..<NBUF}" "remove1 b L = xs @ ys" 
    using assms by (auto simp: lru_def L remove1_append)
  have r: "relinked s (push_front b (unlink_buf b s))"
    by (intro push_front_frame unlink_buf_frame relinked_refl)
  have N: "NBUF \<notin> set (xs @ ys)" using d(2) by (auto simp: L)
  note pp = push_front_path[OF unlink_buf_path, OF assms(1)[unfolded L] assms(1)[unfolded L] _ less_imp_neq[OF assms(2)] N]
  have "lru (bufs (push_front b (unlink_buf b s))) (b # xs @ ys)"
    using pp d by (auto simp: lru_def L)
  then show ?thesis using r d(3) unfolding relinked_def by metis
qed

text \<open>\<^verbatim>\<open>binit\<close> builds the ring: the last buffer it inserts comes first.\<close>

lemma binit_loop_path:
  assumes "path (\<lambda>x. b_next (bufs s x)) (NBUF # xs @ [NBUF])" "path (\<lambda>x. b_prev (bufs s x)) (NBUF # rev xs @ [NBUF])"
    "distinct (bs @ xs)" "NBUF \<notin> set (bs @ xs)"
  shows "path (\<lambda>x. b_next (bufs (binit_loop bs s) x)) (NBUF # (rev bs @ xs) @ [NBUF]) \<and>
    path (\<lambda>x. b_prev (bufs (binit_loop bs s) x)) (NBUF # rev (rev bs @ xs) @ [NBUF])"
  using assms
proof (induction bs arbitrary: s xs)
  case (Cons b bs)
  let ?t = "initsleeplock (BufLock b) ''buffer'' s"
  have t: "bufs ?t = bufs s" by (simp add: initsleeplock_def upd_sl_def initlock_def Let_def)
  have "path (\<lambda>x. b_next (bufs (push_front b ?t) x)) (NBUF # (b # xs) @ [NBUF])"
    "path (\<lambda>x. b_prev (bufs (push_front b ?t) x)) (NBUF # rev (b # xs) @ [NBUF])"
    using Cons.prems by (intro push_front_path; auto simp: t)+
  then show ?case using Cons.IH[of "push_front b ?t" "b # xs"] Cons.prems by simp
qed simp

lemma binit_lru: "lru (bufs (binit s)) (rev [0..<NBUF])"
proof -
  let ?s = "set_next NBUF NBUF (set_prev NBUF NBUF (initlock BcacheLock ''bcache'' s))"
  have "path (\<lambda>x. b_next (bufs ?s x)) (NBUF # [] @ [NBUF])" "path (\<lambda>x. b_prev (bufs ?s x)) (NBUF # rev [] @ [NBUF])"
    by simp_all
  from binit_loop_path[OF this, of "[0..<NBUF]"] show ?thesis
    by (auto simp: lru_def binit_def Let_def)
qed

end
