(* ===== verification/BlockCache.thy ===== *)
theory BlockCache
  imports Virtio
begin

text \<open>
  What a client of the buffer cache may rely on, as a contract on the operations of \<^verbatim>\<open>bio.c\<close>: the state shows the
  client a map \<open>V\<close> from block numbers to contents, the reference counts \<open>rc\<close>, the set \<open>H\<close> of the blocks it has locked and
  the contents \<open>D\<close> of the disk. The log uses the cache through this contract.
\<close>

section \<open>Resources\<close>

text \<open>The driver computes a sector number in 32 bits; below this bound it does not wrap.\<close>

definition small :: "u32 \<Rightarrow> bool" where
  "small n \<longleftrightarrow> unat n < 2 ^ 31"

text \<open>Another reference to block \<open>n\<close>: its counter does not overflow, and there is a buffer for it.\<close>

definition more_refs :: "(u32 \<Rightarrow> nat) \<Rightarrow> u32 \<Rightarrow> bool" where
  "more_refs rc n \<longleftrightarrow> rc n + 1 < 2 ^ 32 \<and> (0 < rc n \<or> finite {n. 0 < rc n} \<and> card {n. 0 < rc n} < NBUF)"

definition fits :: "(u32 \<Rightarrow> nat) \<Rightarrow> u32 set \<Rightarrow> bool" where
  "fits rc A \<longleftrightarrow> finite A \<and> finite {n. 0 < rc n} \<and> (\<forall>n \<in> A. rc n + 1 < 2 ^ 32) \<and> card ({n. 0 < rc n} \<union> A) \<le> NBUF"

lemma fits_more_refs:
  assumes "fits rc A" "a \<in> A"
  shows "more_refs rc a"
proof (cases "0 < rc a")
  case False
  then have "a \<notin> {n. 0 < rc n}" by simp
  then have "{n. 0 < rc n} \<subset> {n. 0 < rc n} \<union> A" using assms(2) by blast
  then have "card {n. 0 < rc n} < card ({n. 0 < rc n} \<union> A)"
    using assms(1) unfolding fits_def by (intro psubset_card_mono) auto
  then show ?thesis using assms by (auto simp: fits_def more_refs_def)
qed (use assms in \<open>auto simp: fits_def more_refs_def\<close>)

lemma fits_incr:
  assumes "fits rc A" "a \<in> A"
  shows "fits (rc(a := rc a + 1)) (A - {a})"
proof -
  have e: "{n. 0 < (rc(a := rc a + 1)) n} = insert a {n. 0 < rc n}" by auto
  then have "{n. 0 < (rc(a := rc a + 1)) n} \<union> (A - {a}) = {n. 0 < rc n} \<union> A" using assms(2) by auto
  then show ?thesis using assms unfolding fits_def e by auto
qed

lemma fits_subset: "fits rc A \<Longrightarrow> B \<subseteq> A \<Longrightarrow> fits rc B"
  unfolding fits_def by (meson Un_mono card_mono finite_UnI order_refl le_trans rev_finite_subset subset_eq)

section \<open>The contract\<close>

locale block_cache =
  fixes st :: "'s \<Rightarrow> (u32 \<Rightarrow> u8 list) \<Rightarrow> (u32 \<Rightarrow> nat) \<Rightarrow> u32 set \<Rightarrow> (u32 \<Rightarrow> u8 list) \<Rightarrow> bool"
    and held :: "'s \<Rightarrow> 'b \<Rightarrow> u32 \<Rightarrow> bool"
    and R :: "'s \<Rightarrow> 's \<Rightarrow> bool"
    and crashes :: "((u32 \<Rightarrow> u8 list) \<Rightarrow> bool) \<Rightarrow> 's \<Rightarrow> bool"
    and same :: "'s \<Rightarrow> 's \<Rightarrow> bool"
    and rd :: "u32 \<Rightarrow> 's \<Rightarrow> ('b, 's) outcome"
    and wr rel unpin :: "'b \<Rightarrow> 's \<Rightarrow> (unit, 's) outcome"
    and put :: "'b \<Rightarrow> u8 list \<Rightarrow> 's \<Rightarrow> 's"
    and get :: "'b \<Rightarrow> 's \<Rightarrow> u8 list"
  assumes rd: "st s V rc H D \<Longrightarrow> n \<notin> H \<Longrightarrow> small n \<Longrightarrow> more_refs rc n \<Longrightarrow> C D \<Longrightarrow>
      safe R (crashes C) (\<lambda>b s'. st s' V (rc(n := rc n + 1)) (insert n H) D \<and> held s' b n \<and>
        (\<forall>x k. 0 < rc k \<and> held s x k \<longrightarrow> held s' x k) \<and> same s s') (rd n s)"
    and wr: "st s V rc H D \<Longrightarrow> held s b n \<Longrightarrow> n \<in> H \<Longrightarrow> C D \<Longrightarrow> C (D(n := V n)) \<Longrightarrow>
      safe R (crashes C) (\<lambda>_ s'. st s' V rc H (D(n := V n)) \<and> held s' = held s \<and> same s s') (wr b s)"
    and rel: "st s V rc H D \<Longrightarrow> held s b n \<Longrightarrow> n \<in> H \<Longrightarrow> (rc n = 1 \<Longrightarrow> V n = D n) \<Longrightarrow>
      \<exists>s'. rel b s = Ok () s' \<and> st s' V (rc(n := rc n - 1)) (H - {n}) D \<and> held s' = held s \<and> same s s'"
    and unpin: "st s V rc H D \<Longrightarrow> held s b n \<Longrightarrow> 1 < rc n \<Longrightarrow>
      \<exists>s'. unpin b s = Ok () s' \<and> st s' V (rc(n := rc n - 1)) H D \<and> held s' = held s \<and> same s s'"
    and put: "st s V rc H D \<Longrightarrow> held s b n \<Longrightarrow> n \<in> H \<Longrightarrow> length v = BSIZE \<Longrightarrow>
      st (put b v s) (V(n := v)) rc H D \<and> held (put b v s) = held s \<and> same s (put b v s)"
    and get: "st s V rc H D \<Longrightarrow> held s b n \<Longrightarrow> get b s = V n"
    and clean: "st s V rc H D \<Longrightarrow> small n \<Longrightarrow> rc n = 0 \<Longrightarrow> V n = D n"
    and block: "st s V rc H D \<Longrightarrow> small n \<Longrightarrow> length (V n) = BSIZE"
    and same_refl: "same s s"
    and same_trans: "same s s' \<Longrightarrow> same s' s'' \<Longrightarrow> same s s''"
begin

text \<open>
  Two blocks at once: both buffers stay in the client's hands. The client may compute the second block number from
  parts of its state that the first read leaves alone.
\<close>

lemma read_two:
  assumes s: "st s V rc H D" and n: "a \<notin> H" "b \<notin> H" "a \<noteq> b" "small a" "small b" "fits rc {a, b}" and C: "C D"
    and k: "\<And>x y s'. st s' V (rc(a := rc a + 1, b := rc b + 1)) (insert b (insert a H)) D \<Longrightarrow> held s' x a \<Longrightarrow> held s' y b \<Longrightarrow>
      same s s' \<Longrightarrow> safe R (crashes C) Q (k x y s')"
    and g: "\<And>s'. same s s' \<Longrightarrow> g s' = rd b s'"
  shows "safe R (crashes C) Q (bind (rd a s) (\<lambda>x s. bind (g s) (\<lambda>y s. k x y s)))"
  unfolding safe_bind
proof (rule safe_mono[OF rd[where C = C, OF s n(1,4) _ C]])
  show "more_refs rc a" using fits_more_refs[OF n(6)] by simp
  fix x s1 assume 1: "st s1 V (rc(a := rc a + 1)) (insert a H) D \<and> held s1 x a \<and>
    (\<forall>x k. 0 < rc k \<and> held s x k \<longrightarrow> held s1 x k) \<and> same s s1"
  then have s1: "st s1 V (rc(a := rc a + 1)) (insert a H) D" by blast
  have m: "more_refs (rc(a := rc a + 1)) b"
    using fits_more_refs[OF fits_incr[OF n(6), of a]] n(3) by simp
  have bH: "b \<notin> insert a H" using n by simp
  have g1: "g s1 = rd b s1" using 1 by (intro g) blast
  show "safe R (crashes C) (\<lambda>y s. safe R (crashes C) Q (k x y s)) (g s1)"
    unfolding g1
  proof (rule safe_mono[OF rd[where C = C, OF s1 bH n(5) m C]])
    fix y s2 assume 2: "st s2 V ((rc(a := rc a + 1))(b := (rc(a := rc a + 1)) b + 1)) (insert b (insert a H)) D \<and> held s2 y b \<and>
      (\<forall>x k. 0 < (rc(a := rc a + 1)) k \<and> held s1 x k \<longrightarrow> held s2 x k) \<and> same s1 s2"
    then have "st s2 V (rc(a := rc a + 1, b := rc b + 1)) (insert b (insert a H)) D" "held s2 x a" "held s2 y b" "same s s2"
      using 1 n(3) same_trans by auto
    then show "safe R (crashes C) Q (k x y s2)" by (rule k)
  qed
qed

text \<open>
  Copying block \<open>a\<close> over block \<open>b\<close> and onto the disk, and giving up both buffers, and the pin on \<open>b\<close> if \<open>u\<close> holds.
\<close>

lemma copy_out:
  assumes s: "st s V rc H D" and h: "held s x a" "held s y b" "a \<in> H" "b \<in> H" "a \<noteq> b" "small a"
    and C: "C D" "C (D(b := V a))" and r: "rc a = 1 \<Longrightarrow> V a = D a" "u \<Longrightarrow> 1 < rc b"
  shows "safe R (crashes C) (\<lambda>_ s'. st s' (V(b := V a)) (rc(a := rc a - 1, b := rc b - (if u then 2 else 1))) (H - {a} - {b})
      (D(b := V a)) \<and> same s s')
    (bind (wr y (put y (V a) s)) (\<lambda>_ s. bind (if u then unpin y s else Ok () s) (\<lambda>_ s. bind (rel x s) (\<lambda>_ s. rel y s))))"
proof -
  let ?V = "V(b := V a)" and ?D = "D(b := V a)" and ?r = "rc b - (if u then 1 else 0)"
  have p: "st (put y (V a) s) ?V rc H D" "held (put y (V a) s) = held s" "same s (put y (V a) s)"
    using put[OF s h(2,4) block[OF s h(6)]] by blast+
  have hy: "held (put y (V a) s) y b" using p(2) h(2) by simp
  have C2: "C (D(b := ?V b))" using C(2) by simp
  have va: "(rc(b := ?r)) a = 1 \<Longrightarrow> ?V a = ?D a" using r(1) h(5) by simp
  have vb: "?V b = ?D b" by simp
  have bH: "b \<in> H - {a}" using h by simp
  show ?thesis unfolding safe_bind
  proof (rule safe_mono[OF wr[where C = C, OF p(1) hy h(4) C(1) C2]])
    fix w s1 assume "st s1 ?V rc H (D(b := ?V b)) \<and> held s1 = held (put y (V a) s) \<and> same (put y (V a) s) s1"
    then have 1: "st s1 ?V rc H ?D" "held s1 x a" "held s1 y b" "same s s1"
      using p h same_trans by auto
    obtain s2 where 2: "(if u then unpin y s1 else Ok () s1) = Ok () s2" "st s2 ?V (rc(b := ?r)) H ?D"
      "held s2 = held s1" "same s1 s2"
      using unpin[OF 1(1,3)] r(2) 1(1) same_refl by (cases u) auto
    have x2: "held s2 x a" using 1(2) 2(3) by simp
    from rel[OF 2(2) x2 h(3) va] obtain s3 where 3: "rel x s2 = Ok () s3"
      "st s3 ?V ((rc(b := ?r))(a := (rc(b := ?r)) a - 1)) (H - {a}) ?D" "held s3 = held s2" "same s2 s3"
      by blast
    have y3: "held s3 y b" using 1(3) 2(3) 3(3) by simp
    from rel[OF 3(2) y3 bH vb] obtain s4 where 4: "rel y s3 = Ok () s4"
      "st s4 ?V ((rc(b := ?r))(a := (rc(b := ?r)) a - 1, b := ((rc(b := ?r))(a := (rc(b := ?r)) a - 1)) b - 1)) (H - {a} - {b}) ?D" "same s3 s4"
      by blast
    have "(rc(b := ?r))(a := (rc(b := ?r)) a - 1, b := ((rc(b := ?r))(a := (rc(b := ?r)) a - 1)) b - 1) =
        rc(a := rc a - 1, b := rc b - (if u then 2 else 1))"
      using h(5) by (auto simp: fun_eq_iff)
    then have "st s4 ?V (rc(a := rc a - 1, b := rc b - (if u then 2 else 1))) (H - {a} - {b}) ?D" using 4(2) by simp
    moreover have "same s s4" using 1(4) 2(4) 3(4) 4(3) same_trans by blast
    ultimately show "safe R (crashes C) (\<lambda>_ t. safe R (crashes C) (\<lambda>_ t. safe R (crashes C) (\<lambda>_ s'. st s' ?V
        (rc(a := rc a - 1, b := rc b - (if u then 2 else 1))) (H - {a} - {b}) ?D \<and> same s s') (rel y t)) (rel x t))
        (if u then unpin y s1 else Ok () s1)"
      unfolding 2(1) using 3(1) 4(1) by simp
  qed simp_all
qed

lemma copy_held:
  assumes s: "st s V (rc(a := rc a + 1, b := rc b + 1)) (insert a (insert b H)) D" and h: "held s x a" "held s y b"
    and n: "a \<notin> H" "b \<notin> H" "a \<noteq> b" "small a" and r: "rc a = 0 \<Longrightarrow> V a = D a" "u \<Longrightarrow> 0 < rc b"
    and C: "C D" "C (D(b := V a))" and cp: "cp = put y (V a) s"
  shows "safe R (crashes C) (\<lambda>_ s'. st s' (V(b := V a)) (rc(b := rc b - (if u then 1 else 0))) H (D(b := V a)) \<and> same s s')
    (bind (wr y cp) (\<lambda>_ s. bind (if u then unpin y s else Ok () s) (\<lambda>_ s. bind (rel x s) (\<lambda>_ s. rel y s))))"
proof -
  let ?rc = "rc(a := rc a + 1, b := rc b + 1)"
  have e: "?rc(a := ?rc a - 1, b := ?rc b - (if u then 2 else 1)) = rc(b := rc b - (if u then 1 else 0))"
    "insert a (insert b H) - {a} - {b} = H" using n by (auto simp: fun_eq_iff)
  have "safe R (crashes C) (\<lambda>_ s'. st s' (V(b := V a)) (?rc(a := ?rc a - 1, b := ?rc b - (if u then 2 else 1)))
      (insert a (insert b H) - {a} - {b}) (D(b := V a)) \<and> same s s')
    (bind (wr y (put y (V a) s)) (\<lambda>_ s. bind (if u then unpin y s else Ok () s) (\<lambda>_ s. bind (rel x s) (\<lambda>_ s. rel y s))))"
    by (rule copy_out[OF s h]) (use n r C in auto)
  then show ?thesis unfolding e cp .
qed

text \<open>The two ways in which the log copies a block: reading the destination first, or the source.\<close>

lemma copy_to:
  assumes s: "st s V rc H D" and n: "a \<notin> H" "b \<notin> H" "a \<noteq> b" "small a" "small b" "fits rc {a, b}"
    and C: "C D" "C (D(b := V a))" and r: "u \<Longrightarrow> 0 < rc b"
    and cp: "\<And>x y s rc H. st s V rc H D \<Longrightarrow> held s x a \<Longrightarrow> held s y b \<Longrightarrow> cp y x s = put y (V a) s"
    and g: "\<And>s'. same s s' \<Longrightarrow> g s' = rd a s'"
  shows "safe R (crashes C) (\<lambda>_ s'. st s' (V(b := V a)) (rc(b := rc b - (if u then 1 else 0))) H (D(b := V a)) \<and> same s s')
    (bind (rd b s) (\<lambda>y s. bind (g s) (\<lambda>x s. bind (wr y (cp y x s)) (\<lambda>_ s. bind (if u then unpin y s else Ok () s) (\<lambda>_ s.
      bind (rel x s) (\<lambda>_ s. rel y s))))))"
proof (rule read_two[where C = C, OF s n(2,1) n(3)[symmetric] n(5,4) _ C(1) _ g])
  show "fits rc {b, a}" using n(6) by (simp add: insert_commute)
  fix y x s' assume t: "st s' V (rc(b := rc b + 1, a := rc a + 1)) (insert a (insert b H)) D" "held s' y b" "held s' x a" "same s s'"
  have t': "st s' V (rc(a := rc a + 1, b := rc b + 1)) (insert a (insert b H)) D" using t(1) n(3) by (simp add: fun_upd_twist)
  show "safe R (crashes C) (\<lambda>_ s'. st s' (V(b := V a)) (rc(b := rc b - (if u then 1 else 0))) H (D(b := V a)) \<and> same s s')
    (bind (wr y (cp y x s')) (\<lambda>_ s. bind (if u then unpin y s else Ok () s) (\<lambda>_ s. bind (rel x s) (\<lambda>_ s. rel y s))))"
    by (rule safe_mono[OF copy_held[where C = C, OF t' t(3,2) n(1-4) clean[OF s n(4)] r C cp[OF t' t(3,2)]]])
      (use same_trans[OF t(4)] in blast)+
qed

lemma copy_from:
  assumes s: "st s V rc H D" and n: "a \<notin> H" "b \<notin> H" "a \<noteq> b" "small a" "small b" "fits rc {a, b}"
    and C: "C D" "C (D(b := V a))" and r: "u \<Longrightarrow> 0 < rc b"
    and cp: "\<And>x y s rc H. st s V rc H D \<Longrightarrow> held s x a \<Longrightarrow> held s y b \<Longrightarrow> cp y x s = put y (V a) s"
    and g: "\<And>s'. same s s' \<Longrightarrow> g s' = rd b s'"
  shows "safe R (crashes C) (\<lambda>_ s'. st s' (V(b := V a)) (rc(b := rc b - (if u then 1 else 0))) H (D(b := V a)) \<and> same s s')
    (bind (rd a s) (\<lambda>x s. bind (g s) (\<lambda>y s. bind (wr y (cp y x s)) (\<lambda>_ s. bind (if u then unpin y s else Ok () s) (\<lambda>_ s.
      bind (rel x s) (\<lambda>_ s. rel y s))))))"
proof (rule read_two[where C = C, OF s n C(1) _ g])
  fix x y s' assume t: "st s' V (rc(a := rc a + 1, b := rc b + 1)) (insert b (insert a H)) D" "held s' x a" "held s' y b" "same s s'"
  have t': "st s' V (rc(a := rc a + 1, b := rc b + 1)) (insert a (insert b H)) D" using t(1) by (simp add: insert_commute)
  show "safe R (crashes C) (\<lambda>_ s'. st s' (V(b := V a)) (rc(b := rc b - (if u then 1 else 0))) H (D(b := V a)) \<and> same s s')
    (bind (wr y (cp y x s')) (\<lambda>_ s. bind (if u then unpin y s else Ok () s) (\<lambda>_ s. bind (rel x s) (\<lambda>_ s. rel y s))))"
    by (rule safe_mono[OF copy_held[where C = C, OF t' t(2,3) n(1-4) clean[OF s n(4)] r C cp[OF t' t(2,3)]]])
      (use same_trans[OF t(4)] in blast)+
qed

text \<open>Rewriting one block in place.\<close>

lemma rewrite:
  assumes s: "st s V rc H D" and n: "a \<notin> H" "small a" "more_refs rc a" and C: "C D" "C (D(a := f (V a)))"
    and f: "length (f (V a)) = BSIZE" and w: "\<And>x s'. same s s' \<Longrightarrow> w x s' = put x (f (get x s')) s'"
  shows "safe R (crashes C) (\<lambda>_ s'. st s' (V(a := f (V a))) rc H (D(a := f (V a))) \<and> same s s')
    (bind (rd a s) (\<lambda>x s. bind (wr x (w x s)) (\<lambda>_ s. rel x s)))"
  unfolding safe_bind
proof (rule safe_mono[OF rd[where C = C, OF s n C(1)]])
  fix x s1 assume "st s1 V (rc(a := rc a + 1)) (insert a H) D \<and> held s1 x a \<and>
    (\<forall>x k. 0 < rc k \<and> held s x k \<longrightarrow> held s1 x k) \<and> same s s1"
  then have 1: "st s1 V (rc(a := rc a + 1)) (insert a H) D" "held s1 x a" "same s s1" by blast+
  let ?v = "f (V a)" let ?V = "V(a := ?v)" let ?p = "put x ?v s1"
  have p: "st ?p ?V (rc(a := rc a + 1)) (insert a H) D" "held ?p x a" "same s ?p"
    using put[OF 1(1,2) insertI1 f] 1(2) same_trans[OF 1(3)] by auto
  have C2: "C (D(a := ?V a))" using C(2) by simp
  have "safe R (crashes C) (\<lambda>_ s'. safe R (crashes C) (\<lambda>_ s'. st s' ?V rc H (D(a := ?v)) \<and> same s s') (rel x s')) (wr x ?p)"
  proof (rule safe_mono[OF wr[where C = C, OF p(1,2) insertI1 C(1) C2]])
    fix w s2 assume "st s2 ?V (rc(a := rc a + 1)) (insert a H) (D(a := ?V a)) \<and> held s2 = held ?p \<and> same ?p s2"
    then have 2: "st s2 ?V (rc(a := rc a + 1)) (insert a H) (D(a := ?v))" "held s2 x a" "same s s2"
      using p same_trans[OF p(3)] by auto
    from rel[OF 2(1,2) insertI1] obtain s3 where 3: "rel x s2 = Ok () s3"
      "st s3 ?V ((rc(a := rc a + 1))(a := (rc(a := rc a + 1)) a - 1)) (insert a H - {a}) (D(a := ?v))" "same s2 s3"
      by auto
    moreover have "(rc(a := rc a + 1))(a := (rc(a := rc a + 1)) a - 1) = rc" "insert a H - {a} = H" using n(1) by auto
    ultimately show "safe R (crashes C) (\<lambda>_ s'. st s' ?V rc H (D(a := ?v)) \<and> same s s') (rel x s2)"
      using same_trans[OF 2(3)] by simp
  qed simp
  then show "safe R (crashes C) (\<lambda>_ t. safe R (crashes C) (\<lambda>_ s'. st s' ?V rc H (D(a := ?v)) \<and> same s s') (rel x t))
      (wr x (w x s1))"
    unfolding w[OF 1(3)] get[OF 1(1,2)] .
qed simp

end

end
