(* ===== verification/BioFacts.thy ===== *)
theory BioFacts
  imports LruFacts VirtioFacts BlockCache
begin

text \<open>
  The buffer cache as its clients see it: a map from block numbers to contents in front of the disk.
  \<open>cache_st p d s V rc H D\<close> relates the machine to that view for the device \<open>d\<close> and the process \<open>p\<close> that uses it:
  \<open>V\<close> gives the current contents of every block, \<open>rc\<close> how often its buffer is referenced, \<open>H\<close> the blocks \<open>p\<close> has
  locked and \<open>D\<close> the contents of the disk. The operations of \<^verbatim>\<open>bio.c\<close> are then described on \<open>(V, rc, H, D)\<close> alone.
\<close>

section \<open>Blocks and sectors\<close>

lemma sector_of_unat: "small n \<Longrightarrow> unat (sector_of n) = 2 * unat n"
  by (simp add: small_def sector_of_def BSIZE_def unsigned_ucast_eq unat_word_ariths take_bit_nat_eq_self)

lemma sector_inj:
  assumes "small n" "small k" "n \<noteq> k"
  shows "sector_of n \<noteq> sector_of k" "sector_of n + 1 \<noteq> sector_of k" "sector_of n + 1 \<noteq> sector_of k + 1"
proof -
  have n: "unat n \<noteq> unat k" using assms(3) by (simp add: word_unat_eq_iff)
  have s: "unat (sector_of n + 1) = 2 * unat n + 1"
    using sector_of_unat[OF assms(1)] assms(1) by (simp add: unat_word_ariths small_def)
  show "sector_of n \<noteq> sector_of k" using n sector_of_unat[OF assms(1)] sector_of_unat[OF assms(2)] by (metis mult_cancel1 zero_neq_numeral)
  show "sector_of n + 1 \<noteq> sector_of k" proof
    assume "sector_of n + 1 = sector_of k"
    then have "2 * unat n + 1 = 2 * unat k" using s sector_of_unat[OF assms(2)] by simp
    then show False by presburger
  qed
  show "sector_of n + 1 \<noteq> sector_of k + 1" using \<open>sector_of n \<noteq> sector_of k\<close> by simp
qed

lemma dblock_dput:
  assumes "small n" "small k"
  shows "dblock (dput n d m) k = (if k = n then d else dblock m k)"
proof (cases "k = n")
  case False
  then show ?thesis using sector_inj[OF assms] sector_inj[OF assms(2,1)]
    by (auto simp: dblock_def dput_def)
qed (simp add: dblock_def dput_def)

section \<open>The view\<close>

text \<open>\<open>b\<close> is the buffer of block \<open>n\<close>.\<close>

definition hnd :: "u32 \<Rightarrow> 'z vdstate_scheme \<Rightarrow> nat \<Rightarrow> u32 \<Rightarrow> bool" where
  "hnd d s b n \<longleftrightarrow> b < NBUF \<and> b_dev (bufs s b) = d \<and> b_blockno (bufs s b) = n"

definition cache_st :: "nat \<Rightarrow> u32 \<Rightarrow> 'z vdstate_scheme \<Rightarrow> (u32 \<Rightarrow> u8 list) \<Rightarrow> (u32 \<Rightarrow> nat) \<Rightarrow> u32 set \<Rightarrow> (u32 \<Rightarrow> u8 list) \<Rightarrow> bool"
where
  "cache_st p d s V rc H D \<longleftrightarrow> quiet p s \<and> (\<exists>L. lru (bufs s) L) \<and>
     (\<forall>n. small n \<longrightarrow> dblock (medium s) n = D n \<and> length (D n) = BSIZE \<and> length (V n) = BSIZE \<and> (rc n = 0 \<longrightarrow> V n = D n)) \<and>
     (\<forall>n. 0 < rc n \<longrightarrow> (\<exists>b. hnd d s b n)) \<and> (\<forall>n \<in> H. 0 < rc n) \<and>
     (\<forall>b < NBUF. b_dev (bufs s b) \<noteq> d \<longrightarrow> b_refcnt (bufs s b) = 0 \<and> sl_locked (sleeplocks s (BufLock b)) = 0) \<and>
     (\<forall>b n. hnd d s b n \<longrightarrow> small n \<and> b_valid (bufs s b) \<noteq> 0 \<and> unat (b_refcnt (bufs s b)) = rc n \<and> b_data (bufs s b) = V n) \<and>
     (\<forall>b n. hnd d s b n \<and> n \<in> H \<longrightarrow> sl_locked (sleeplocks s (BufLock b)) \<noteq> 0 \<and> sl_pid (sleeplocks s (BufLock b)) = p_pid (procs s p)) \<and>
     (\<forall>b n. hnd d s b n \<and> n \<notin> H \<longrightarrow> sl_locked (sleeplocks s (BufLock b)) = 0) \<and>
     (\<forall>b c n. hnd d s b n \<and> hnd d s c n \<longrightarrow> b = c)"

lemma cache_stD:
  assumes "cache_st p d s V rc H D"
  shows "quiet p s" "\<exists>L. lru (bufs s) L" "\<And>n. small n \<Longrightarrow> dblock (medium s) n = D n" "\<And>n. small n \<Longrightarrow> length (D n) = BSIZE"
    "\<And>n. small n \<Longrightarrow> length (V n) = BSIZE" "\<And>n. small n \<Longrightarrow> rc n = 0 \<Longrightarrow> V n = D n"
    "\<And>n. 0 < rc n \<Longrightarrow> \<exists>b. hnd d s b n" "\<And>n. n \<in> H \<Longrightarrow> 0 < rc n"
    "\<And>b. b < NBUF \<Longrightarrow> b_dev (bufs s b) \<noteq> d \<Longrightarrow> b_refcnt (bufs s b) = 0 \<and> sl_locked (sleeplocks s (BufLock b)) = 0"
    "\<And>b n. hnd d s b n \<Longrightarrow> small n \<and> b_valid (bufs s b) \<noteq> 0 \<and> unat (b_refcnt (bufs s b)) = rc n \<and> b_data (bufs s b) = V n"
    "\<And>b n. hnd d s b n \<Longrightarrow> n \<in> H \<Longrightarrow> sl_locked (sleeplocks s (BufLock b)) \<noteq> 0 \<and> sl_pid (sleeplocks s (BufLock b)) = p_pid (procs s p)"
    "\<And>b n. hnd d s b n \<Longrightarrow> n \<notin> H \<Longrightarrow> sl_locked (sleeplocks s (BufLock b)) = 0"
    "\<And>b c n. hnd d s b n \<Longrightarrow> hnd d s c n \<Longrightarrow> b = c"
  using assms unfolding cache_st_def by blast+

lemma cache_stI:
  assumes "quiet p s" "lru (bufs s) L" "\<And>n. small n \<Longrightarrow> dblock (medium s) n = D n" "\<And>n. small n \<Longrightarrow> length (D n) = BSIZE"
    "\<And>n. small n \<Longrightarrow> length (V n) = BSIZE" "\<And>n. small n \<Longrightarrow> rc n = 0 \<Longrightarrow> V n = D n"
    "\<And>n. 0 < rc n \<Longrightarrow> \<exists>b. hnd d s b n" "\<And>n. n \<in> H \<Longrightarrow> 0 < rc n"
    "\<And>b. b < NBUF \<Longrightarrow> b_dev (bufs s b) \<noteq> d \<Longrightarrow> b_refcnt (bufs s b) = 0 \<and> sl_locked (sleeplocks s (BufLock b)) = 0"
    "\<And>b n. hnd d s b n \<Longrightarrow> small n \<and> b_valid (bufs s b) \<noteq> 0 \<and> unat (b_refcnt (bufs s b)) = rc n \<and> b_data (bufs s b) = V n"
    "\<And>b n. hnd d s b n \<Longrightarrow> n \<in> H \<Longrightarrow> sl_locked (sleeplocks s (BufLock b)) \<noteq> 0 \<and> sl_pid (sleeplocks s (BufLock b)) = p_pid (procs s p)"
    "\<And>b n. hnd d s b n \<Longrightarrow> n \<notin> H \<Longrightarrow> sl_locked (sleeplocks s (BufLock b)) = 0"
    "\<And>b c n. hnd d s b n \<Longrightarrow> hnd d s c n \<Longrightarrow> b = c"
  shows "cache_st p d s V rc H D"
  unfolding cache_st_def
  apply (intro conjI allI impI ballI)
                 apply (rule assms(1))
                apply (rule exI[of _ L], rule assms(2))
               apply (erule assms(3))
              apply (erule assms(4))
             apply (erule assms(5))
            apply (erule (1) assms(6))
           apply (erule assms(7))
          apply (erule assms(8))
         apply (erule (1) assms(9)[THEN conjunct1])
        apply (erule (1) assms(9)[THEN conjunct2])
       apply (erule assms(10)[THEN conjunct1])
      apply (erule assms(10)[THEN conjunct2, THEN conjunct1])
     apply (erule assms(10)[THEN conjunct2, THEN conjunct2, THEN conjunct1])
    apply (erule assms(10)[THEN conjunct2, THEN conjunct2, THEN conjunct2])
   apply (elim conjE, erule (1) assms(11)[THEN conjunct1])
  apply (elim conjE, erule (1) assms(11)[THEN conjunct2])
  apply (elim conjE, erule (1) assms(12))
  apply (elim conjE, erule (1) assms(13))
  done

section \<open>Changing one buffer\<close>

text \<open>
  Every operation changes the buffer of one block: the buffer already holds the block, or it is free
  and the block is not cached.
\<close>

definition usable :: "u32 \<Rightarrow> 'z vdstate_scheme \<Rightarrow> nat \<Rightarrow> u32 \<Rightarrow> bool" where
  "usable d s b n \<longleftrightarrow> b < NBUF \<and> (hnd d s b n \<or> b_refcnt (bufs s b) = 0 \<and> (\<forall>c. \<not> hnd d s c n))"

lemma hnd_change:
  assumes c: "cache_st p d s V rc H D" and u: "usable d s b n"
    and b: "b_dev (bufs s' b) = d" "b_blockno (bufs s' b) = n"
    and o: "\<And>x. x \<noteq> b \<Longrightarrow> core (bufs s' x) = core (bufs s x)"
  shows "hnd d s' x k \<longleftrightarrow> (if x = b then k = n else hnd d s x k)" "x \<noteq> b \<Longrightarrow> hnd d s x k \<Longrightarrow> k \<noteq> n"
    "hnd d s b k \<Longrightarrow> 0 < rc k \<Longrightarrow> k = n"
proof -
  show "hnd d s' x k \<longleftrightarrow> (if x = b then k = n else hnd d s x k)"
    using b u core_fields(1,2)[OF o] by (auto simp: hnd_def usable_def)
  show "x \<noteq> b \<Longrightarrow> hnd d s x k \<Longrightarrow> k \<noteq> n"
    using u cache_stD(13)[OF c] unfolding usable_def by blast
  show "hnd d s b k \<Longrightarrow> 0 < rc k \<Longrightarrow> k = n"
    using u cache_stD(10)[OF c, of b k] unfolding usable_def by (auto simp: hnd_def)
qed

lemma cache_change:
  assumes c: "cache_st p d s V rc H D" and u: "usable d s b n" "small n"
    and q: "quiet p s'" "lru (bufs s') L" "p_pid (procs s' p) = p_pid (procs s p)"
    and m: "\<And>k. small k \<Longrightarrow> dblock (medium s') k = (if k = n then w else D k)" "length w = BSIZE"
    and b: "b_dev (bufs s' b) = d" "b_blockno (bufs s' b) = n" "b_valid (bufs s' b) \<noteq> 0" "unat (b_refcnt (bufs s' b)) = r"
      "b_data (bufs s' b) = v" "length v = BSIZE"
    and o: "\<And>x. x \<noteq> b \<Longrightarrow> core (bufs s' x) = core (bufs s x)"
      "\<And>x. x \<noteq> b \<Longrightarrow> sleeplocks s' (BufLock x) = sleeplocks s (BufLock x)"
    and l: "h \<Longrightarrow> sl_locked (sleeplocks s' (BufLock b)) \<noteq> 0 \<and> sl_pid (sleeplocks s' (BufLock b)) = p_pid (procs s p)"
      "\<not> h \<Longrightarrow> sl_locked (sleeplocks s' (BufLock b)) = 0" "r = 0 \<Longrightarrow> v = w \<and> \<not> h"
  shows "cache_st p d s' (V(n := v)) (rc(n := r)) (if h then insert n H else H - {n}) (D(n := w))"
proof -
  note hc = hnd_change[OF c u(1) b(1,2) o(1)]
  note D = cache_stD[OF c]
  note f = core_fields[OF o(1)]
  have bN: "b < NBUF" using u(1) by (simp add: usable_def)
  show ?thesis
  proof (rule cache_stI[OF q(1,2)])
    fix k assume "small k"
    then show "dblock (medium s') k = (D(n := w)) k" "length ((D(n := w)) k) = BSIZE" "length ((V(n := v)) k) = BSIZE"
      using m b D(4,5) by auto
    show "(rc(n := r)) k = 0 \<Longrightarrow> (V(n := v)) k = (D(n := w)) k" using l(3) D(6) \<open>small k\<close> by (auto split: if_splits)
  next
    fix k assume "0 < (rc(n := r)) k"
    then show "\<exists>x. hnd d s' x k" using hc D(7)[of k] by (cases "k = n") (auto, metis)
  next
    fix k assume "k \<in> (if h then insert n H else H - {n})"
    then show "0 < (rc(n := r)) k" using l(3) D(8)[of k] by (cases "k = n") (auto split: if_splits)
  next
    fix x assume "x < NBUF" "b_dev (bufs s' x) \<noteq> d"
    then show "b_refcnt (bufs s' x) = 0 \<and> sl_locked (sleeplocks s' (BufLock x)) = 0"
      using f[of x] o(2)[of x] b(1) D(9)[of x] by (cases "x = b") auto
  next
    fix x k assume h: "hnd d s' x k"
    show "small k \<and> b_valid (bufs s' x) \<noteq> 0 \<and> unat (b_refcnt (bufs s' x)) = (rc(n := r)) k \<and> b_data (bufs s' x) = (V(n := v)) k"
      using h hc(1,2)[of x k] u(2) b D(10)[of x k] f[of x] by (cases "x = b") auto
    show "k \<in> (if h then insert n H else H - {n}) \<Longrightarrow>
        sl_locked (sleeplocks s' (BufLock x)) \<noteq> 0 \<and> sl_pid (sleeplocks s' (BufLock x)) = p_pid (procs s' p)"
      using h hc(1,2)[of x k] D(11)[of x k] o(2)[of x] l(1) q(3) by (cases "x = b") (auto split: if_splits)
    show "k \<notin> (if h then insert n H else H - {n}) \<Longrightarrow> sl_locked (sleeplocks s' (BufLock x)) = 0"
      using h hc(1,2)[of x k] D(12)[of x k] o(2)[of x] l(2) by (cases "x = b") (auto split: if_splits)
    show "hnd d s' y k \<Longrightarrow> x = y" for y
      using h hc(1,2)[of x k] hc(1,2)[of y k] D(13)[of x k y] by (auto split: if_splits)
  qed
qed

text \<open>As long as a buffer is left over, \<^verbatim>\<open>bget\<close> finds one.\<close>

lemma free_buffer:
  assumes c: "cache_st p d s V rc H D" and "finite {n. 0 < rc n}" "card {n. 0 < rc n} < NBUF"
  shows "\<exists>b < NBUF. b_refcnt (bufs s b) = 0"
proof (rule ccontr)
  assume "\<not> (\<exists>b < NBUF. b_refcnt (bufs s b) = 0)"
  then have a: "hnd d s b (b_blockno (bufs s b)) \<and> b_refcnt (bufs s b) \<noteq> 0" if "b < NBUF" for b
    using that cache_stD(9)[OF c, of b] by (auto simp: hnd_def)
  have "inj_on (\<lambda>b. b_blockno (bufs s b)) {..<NBUF}"
  proof (rule inj_onI)
    fix x y assume "x \<in> {..<NBUF}" "y \<in> {..<NBUF}" and e: "b_blockno (bufs s x) = b_blockno (bufs s y)"
    then have "hnd d s x (b_blockno (bufs s x))" "hnd d s y (b_blockno (bufs s x))" using a[of x] a[of y] by simp_all
    then show "x = y" by (rule cache_stD(13)[OF c])
  qed
  moreover have "(\<lambda>b. b_blockno (bufs s b)) ` {..<NBUF} \<subseteq> {n. 0 < rc n}"
  proof clarify
    fix b assume "b < NBUF"
    then show "0 < rc (b_blockno (bufs s b))"
      using a[of b] cache_stD(10)[OF c, of b "b_blockno (bufs s b)"] unat_gt_0[of "b_refcnt (bufs s b)"] by simp
  qed
  ultimately have "card {..<NBUF} \<le> card {n. 0 < rc n}" using assms(2) card_inj_on_le by blast
  then show False using assms(3) by simp
qed

section \<open>The operations\<close>

text \<open>A condition on the disk that must hold whenever the machine may stop: at every point where a process waits.\<close>

definition crash :: "((u32 \<Rightarrow> u8 list) \<Rightarrow> bool) \<Rightarrow> 'z vdstate_scheme \<Rightarrow> bool" where
  "crash C s \<longleftrightarrow> (\<exists>D. (\<forall>n. small n \<longrightarrow> dblock (medium s) n = D n) \<and> C D)"

lemma crashI: "cache_st p d s V rc H D \<Longrightarrow> C D \<Longrightarrow> crash C s"
  unfolding crash_def using cache_stD(3) by blast

text \<open>A locked buffer of a given reference count.\<close>

definition locked_ref :: "nat \<Rightarrow> nat \<Rightarrow> (buf \<Rightarrow> buf) \<Rightarrow> 'z vdstate_scheme \<Rightarrow> 'z vdstate_scheme" where
  "locked_ref p b f s = norm (upd_sl (BufLock b) (\<lambda>l. l\<lparr>sl_locked := 1, sl_pid := p_pid (procs s p)\<rparr>) (norm (upd_buf b f s)))"

lemma bget_tail:
  assumes "quiet p s" "sl_locked (sleeplocks s (BufLock b)) = 0"
  shows "bind (release BcacheLock (upd_buf b f (grab BcacheLock s))) (\<lambda>_ s. bind (acquiresleep (BufLock b) s) (\<lambda>_ s. Ok b s)) =
    Ok b (locked_ref p b f s)"
proof -
  note q = quietD[OF assms(1)]
  have "release BcacheLock (grab BcacheLock (upd_buf b f s)) = Ok () (norm (upd_buf b f s))"
    using q by (intro release_grab) (simp_all add: upd_buf_def)
  moreover have "upd_buf b f (grab BcacheLock s) = grab BcacheLock (upd_buf b f s)" by (simp add: upd_buf_def)
  moreover have "acquiresleep (BufLock b) (norm (upd_buf b f s)) = Ok () (locked_ref p b f s)"
    using acquiresleep_free[of p "norm (upd_buf b f s)" "BufLock b"] assms by (simp add: upd_buf_def locked_ref_def)
  ultimately show ?thesis by simp
qed

lemma bget_eq:
  assumes c: "cache_st p d s V rc H D" and "n \<notin> H" "small n" "0 < rc n \<or> finite {n. 0 < rc n} \<and> card {n. 0 < rc n} < NBUF"
  shows "\<exists>b. bget d n s = Ok b (locked_ref p b (if hnd d s b n then (\<lambda>q. q\<lparr>b_refcnt := b_refcnt q + 1\<rparr>)
      else (\<lambda>q. q\<lparr>b_dev := d, b_blockno := n, b_valid := 0, b_refcnt := 1\<rparr>)) s) \<and> usable d s b n \<and>
      sl_locked (sleeplocks s (BufLock b)) = 0"
proof -
  note D = cache_stD[OF c]
  obtain L where L: "lru (bufs s) L" using D(2) by blast
  have sL: "set L = {..<NBUF}" using L by (simp add: lru_def)
  let ?g = "grab BcacheLock s"
  have L': "lru (bufs ?g) L" using L by simp
  note srch = bget_searches(1)[OF L', of d n] bget_searches(2)[OF L']
  note acq = acquire_lock_free[OF quietD(4)[OF D(1), of BcacheLock]]
  show ?thesis
  proof (cases "find (\<lambda>b. b_dev (bufs ?g b) = d \<and> b_blockno (bufs ?g b) = n) L")
    case (Some b)
    then have h: "hnd d s b n" using sL by (auto simp: find_Some_iff hnd_def)
    have l: "sl_locked (sleeplocks s (BufLock b)) = 0" using D(12)[OF h assms(2)] .
    have "bget d n s = Ok b (locked_ref p b (\<lambda>q. q\<lparr>b_refcnt := b_refcnt q + 1\<rparr>) s)"
      unfolding bget_def using bget_tail[OF D(1) l] by (simp only: acq bind.simps srch(1) Some option.simps)
    then show ?thesis using h l by (intro exI[of _ b]) (auto simp: usable_def hnd_def)
  next
    case None
    then have no: "\<not> hnd d s x n" for x using sL by (auto simp: find_None_iff hnd_def)
    then have "rc n = 0" using D(7)[of n] by auto
    then obtain x where "x < NBUF" "b_refcnt (bufs s x) = 0" using free_buffer[OF c] assms(4) by auto
    then obtain b where b: "find (\<lambda>b. b_refcnt (bufs ?g b) = 0) (rev L) = Some b"
      using sL find_None_iff[of "\<lambda>b. b_refcnt (bufs ?g b) = 0" "rev L"] by fastforce
    then have bN: "b \<in> set L" "b_refcnt (bufs s b) = 0" using nth_mem[of _ "rev L"] by (auto simp: find_Some_iff)
    then have bN: "b < NBUF" "b_refcnt (bufs s b) = 0" using sL by auto
    have l: "sl_locked (sleeplocks s (BufLock b)) = 0"
    proof (cases "b_dev (bufs s b) = d")
      case True
      then have h: "hnd d s b (b_blockno (bufs s b))" using bN by (simp add: hnd_def)
      then have "rc (b_blockno (bufs s b)) = 0" using D(10)[OF h] bN by simp
      then show ?thesis using D(12)[OF h] D(8) by (metis less_numeral_extra(3))
    qed (use D(9) bN in blast)
    have "bget d n s = Ok b (locked_ref p b (\<lambda>q. q\<lparr>b_dev := d, b_blockno := n, b_valid := 0, b_refcnt := 1\<rparr>) s)"
      unfolding bget_def using bget_tail[OF D(1) l] by (simp only: acq bind.simps srch None b option.simps)
    then show ?thesis using no bN l by (intro exI[of _ b]) (simp add: usable_def)
  qed
qed

lemma locked_ref_simps [simp]:
  "bufs (locked_ref p b f s) = (bufs s)(b := f (bufs s b))" "medium (locked_ref p b f s) = medium s"
  "sleeplocks (locked_ref p b f s) =
    (sleeplocks s)(BufLock b := (sleeplocks s (BufLock b))\<lparr>sl_locked := 1, sl_pid := p_pid (procs s p)\<rparr>)"
  "quiet q (locked_ref p b f s) = quiet q s" "keep q s' (locked_ref p b f s) = keep q s' s"
  "keep q (locked_ref p b f s) s' = keep q s s'"
  by (simp_all add: locked_ref_def upd_sl_def upd_buf_def) (simp add: keep_def)

lemma unat_incr: "unat r + 1 < 2 ^ 32 \<Longrightarrow> unat (r + 1 :: u32) = unat r + 1"
  by (simp add: unat_word_ariths)

lemma unat_decr: "0 < unat r \<Longrightarrow> unat (r - 1 :: u32) = unat r - 1"
  by (metis One_nat_def diff_Suc_1 less_not_refl3 unat_0 unat_minus_one)

text \<open>Waiting for the disk, with the condition on crashes stated for blocks.\<close>

lemma disk_safe:
  assumes "quiet p s" "crash C s" "crash C (s\<lparr>medium := served_medium w (bufs s b) (medium s)\<rparr>)"
    "\<And>s'. quiet p s' \<Longrightarrow> keep p s s' \<Longrightarrow> sleeplocks s' = sleeplocks s \<Longrightarrow>
      bufs s' = (bufs s)(b := served_buf w (medium s) (bufs s b)) \<Longrightarrow> medium s' = served_medium w (bufs s b) (medium s) \<Longrightarrow> Q () s'"
  shows "safe (disk_rely p) (crash C) Q (virtio_disk_rw b w s)"
  using virtio_disk_rw_safe[of p s "\<lambda>m. \<exists>D. (\<forall>n. small n \<longrightarrow> dblock m n = D n) \<and> C D" w b] assms
  unfolding crash_def by (auto elim!: safe_mono)

lemma bread_safe:
  assumes c: "cache_st p d s V rc H D" and n: "n \<notin> H" "small n" "more_refs rc n" and C: "C D"
  shows "safe (disk_rely p) (crash C) (\<lambda>b s'. cache_st p d s' V (rc(n := rc n + 1)) (insert n H) D \<and> hnd d s' b n \<and>
    (\<forall>x k. 0 < rc k \<and> hnd d s x k \<longrightarrow> hnd d s' x k) \<and> keep p s s') (bread d n s)"
proof -
  note Dd = cache_stD[OF c]
  obtain L where L: "lru (bufs s) L" using Dd(2) by blast
  obtain b where b: "bget d n s = Ok b (locked_ref p b (if hnd d s b n then (\<lambda>q. q\<lparr>b_refcnt := b_refcnt q + 1\<rparr>)
      else (\<lambda>q. q\<lparr>b_dev := d, b_blockno := n, b_valid := 0, b_refcnt := 1\<rparr>)) s)"
    and u: "usable d s b n" and l: "sl_locked (sleeplocks s (BufLock b)) = 0"
    using bget_eq[OF c n(1,2)] n(3) unfolding more_refs_def by blast
  have fin: "cache_st p d s' V (rc(n := rc n + 1)) (insert n H) D \<and> hnd d s' b n \<and>
      (\<forall>x k. 0 < rc k \<and> hnd d s x k \<longrightarrow> hnd d s' x k) \<and> keep p s s'"
    if "quiet p s'" "keep p s s'" "medium s' = medium s" "bufs s' = (bufs s)(b := q)" "b_dev q = d" "b_blockno q = n"
      "b_valid q \<noteq> 0" "unat (b_refcnt q) = rc n + 1" "b_data q = V n" "b_next q = b_next (bufs s b)" "b_prev q = b_prev (bufs s b)"
      "sleeplocks s' = (sleeplocks s)(BufLock b := (sleeplocks s (BufLock b))\<lparr>sl_locked := 1, sl_pid := p_pid (procs s p)\<rparr>)" for s' q
  proof -
    have o: "x \<noteq> b \<Longrightarrow> core (bufs s' x) = core (bufs s x)" for x using that(4) by simp
    have bb: "b_dev (bufs s' b) = d" "b_blockno (bufs s' b) = n" using that by simp_all
    have "cache_st p d s' (V(n := V n)) (rc(n := rc n + 1)) (if True then insert n H else H - {n}) (D(n := D n))"
      using that L Dd n by (intro cache_change[OF c u n(2)]) (auto simp: keep_def)
    moreover have "0 < rc k \<and> hnd d s x k \<longrightarrow> hnd d s' x k" for x k
      using hnd_change[OF c u bb o] by metis
    moreover have "hnd d s' b n" using bb u by (simp add: hnd_def usable_def)
    ultimately show ?thesis using that(2) by simp
  qed
  show ?thesis
  proof (cases "hnd d s b n")
    case True
    let ?t = "locked_ref p b (\<lambda>q. q\<lparr>b_refcnt := b_refcnt q + 1\<rparr>) s"
    have "bread d n s = Ok b ?t" using b True Dd(10)[OF True] by (simp add: bread_def)
    moreover have "unat (b_refcnt (bufs s b) + 1) = rc n + 1"
      using Dd(10)[OF True] n(3) unat_incr[of "b_refcnt (bufs s b)"] by (simp add: more_refs_def)
    ultimately show ?thesis
      using True Dd(1) Dd(10)[OF True] fin[of ?t "(bufs s b)\<lparr>b_refcnt := b_refcnt (bufs s b) + 1\<rparr>"]
      by (simp add: hnd_def)
  next
    case False
    then have "\<not> hnd d s x n" for x using u unfolding usable_def by blast
    then have rc: "rc n = 0" "V n = D n" using Dd(7)[of n] Dd(6)[OF n(2)] by auto
    let ?t = "locked_ref p b (\<lambda>q. q\<lparr>b_dev := d, b_blockno := n, b_valid := 0, b_refcnt := 1\<rparr>) s"
    have br: "bread d n s = bind (virtio_disk_rw b False ?t) (\<lambda>_ s. Ok b (upd_buf b (b_valid_update (\<lambda>_. 1)) s))"
      using b False by (simp add: bread_def)
    have cr: "crash C ?t" "crash C (?t\<lparr>medium := served_medium False (bufs ?t b) (medium ?t)\<rparr>)"
      using crashI[where C = C, OF c C] by (simp_all add: crash_def served_medium_def)
    have len: "take BSIZE (dblock (medium s) n) = V n" using rc Dd(3,4)[OF n(2)] by simp
    show ?thesis unfolding br safe_bind safe.simps
      using Dd(1) rc(1) len
      by (intro disk_safe fin[where q = "(bufs s b)\<lparr>b_dev := d, b_blockno := n, b_refcnt := 1, b_disk := 0,
          b_data := V n, b_valid := 1\<rparr>"] cr)
        (auto simp: upd_buf_def served_medium_def served_buf_def)
  qed
qed

text \<open>An operation on the buffer of block \<open>n\<close> that keeps its identity: all handles stay valid.\<close>

lemma cache_step:
  assumes c: "cache_st p d s V rc H D" and h: "hnd d s b n"
    and q: "quiet p s'" "lru (bufs s') L" "keep p s s'"
    and m: "\<And>k. small k \<Longrightarrow> dblock (medium s') k = (if k = n then w else D k)" "length w = BSIZE"
    and o: "\<And>x. x \<noteq> b \<Longrightarrow> core (bufs s' x) = core (bufs s x)"
      "\<And>x. x \<noteq> b \<Longrightarrow> sleeplocks s' (BufLock x) = sleeplocks s (BufLock x)"
    and b: "b_dev (bufs s' b) = b_dev (bufs s b)" "b_blockno (bufs s' b) = b_blockno (bufs s b)"
      "b_valid (bufs s' b) = b_valid (bufs s b)" "unat (b_refcnt (bufs s' b)) = r" "b_data (bufs s' b) = v" "length v = BSIZE"
    and l: "g \<Longrightarrow> sl_locked (sleeplocks s' (BufLock b)) \<noteq> 0 \<and> sl_pid (sleeplocks s' (BufLock b)) = p_pid (procs s p)"
      "\<not> g \<Longrightarrow> sl_locked (sleeplocks s' (BufLock b)) = 0" "r = 0 \<Longrightarrow> v = w \<and> \<not> g"
  shows "cache_st p d s' (V(n := v)) (rc(n := r)) (if g then insert n H else H - {n}) (D(n := w)) \<and> hnd d s' = hnd d s \<and> keep p s s'"
proof -
  have u: "usable d s b n" using h by (auto simp: usable_def hnd_def)
  have bb: "b_dev (bufs s' b) = d" "b_blockno (bufs s' b) = n" "b_valid (bufs s' b) \<noteq> 0"
    using b h cache_stD(10)[OF c h] by (simp_all add: hnd_def)
  have sn: "small n" and pid: "p_pid (procs s' p) = p_pid (procs s p)"
    using cache_stD(10)[OF c h] q(3) by (simp_all add: keep_def)
  have "cache_st p d s' (V(n := v)) (rc(n := r)) (if g then insert n H else H - {n}) (D(n := w))"
    by (rule cache_change[OF c u]) (fact pid sn q m bb b o l)+
  moreover have "hnd d s' = hnd d s"
  proof (intro ext)
    fix x k
    have "hnd d s b k \<longleftrightarrow> k = n" using h by (auto simp: hnd_def)
    then show "hnd d s' x k = hnd d s x k"
      using hnd_change(1)[OF c u bb(1,2) o(1), of x k] by (cases "x = b") simp_all
  qed
  ultimately show ?thesis using q(3) by blast
qed

lemma set_data_cache:
  assumes c: "cache_st p d s V rc H D" and h: "hnd d s b n" "n \<in> H" and l: "length v = BSIZE"
  shows "cache_st p d (set_data b v s) (V(n := v)) rc H D \<and> hnd d (set_data b v s) = hnd d s \<and> keep p s (set_data b v s)"
proof -
  note Dd = cache_stD[OF c]
  obtain L where "lru (bufs s) L" using Dd(2) by blast
  then have "cache_st p d (set_data b v s) (V(n := v)) (rc(n := rc n)) (if True then insert n H else H - {n}) (D(n := D n)) \<and>
      hnd d (set_data b v s) = hnd d s \<and> keep p s (set_data b v s)"
    using Dd(1,3,4) Dd(10)[OF h(1)] Dd(11)[OF h] Dd(8)[OF h(2)] l
    by (intro cache_step[OF c h(1)]) (auto simp: set_data_def upd_buf_def)
  then show ?thesis using h(2) by (simp add: insert_absorb)
qed

lemma bdata_cache: "cache_st p d s V rc H D \<Longrightarrow> hnd d s b n \<Longrightarrow> bdata b s = V n"
  using cache_stD(10) by (fastforce simp: bdata_def)

lemma holding_buffer:
  assumes c: "cache_st p d s V rc H D" and h: "hnd d s b n" "n \<in> H"
  shows "holdingsleep (BufLock b) s = Ok True (norm s)"
  using holdingsleep_eq[OF cache_stD(1)[OF c]] cache_stD(11)[OF c h] by simp

lemma keep_norm [simp]: "keep p (norm s) s' = keep p s s'"
  by (simp add: keep_def)

lemma bwrite_safe:
  assumes c: "cache_st p d s V rc H D" and h: "hnd d s b n" "n \<in> H" and C: "C D" "C (D(n := V n))"
  shows "safe (disk_rely p) (crash C) (\<lambda>_ s'. cache_st p d s' V rc H (D(n := V n)) \<and> hnd d s' = hnd d s \<and> keep p s s') (bwrite b s)"
proof -
  note Dd = cache_stD[OF c]
  obtain L where L: "lru (bufs s) L" using Dd(2) by blast
  have n: "small n" "b_blockno (bufs s b) = n" "b_data (bufs s b) = V n" using Dd(10)[OF h(1)] h by (auto simp: hnd_def)
  have sm: "served_medium True (bufs s b) (medium s) = dput n (V n) (medium s)"
    using n Dd(5)[OF n(1)] by (simp add: served_medium_def)
  have db: "small k \<Longrightarrow> dblock (dput n (V n) (medium s)) k = (D(n := V n)) k" for k
    using dblock_dput[OF n(1)] Dd(3) by simp
  have cr: "crash C (norm s)" using crashI[where C = C, OF c C(1)] by (simp add: crash_def)
  have cr': "crash C ((norm s)\<lparr>medium := dput n (V n) (medium s)\<rparr>)"
    unfolding crash_def by (rule exI[of _ "D(n := V n)"]) (simp add: db C(2) del: fun_upd_apply)
  have fin: "cache_st p d s' (V(n := V n)) (rc(n := rc n)) (if True then insert n H else H - {n}) (D(n := V n)) \<and> hnd d s' = hnd d s \<and> keep p s s'"
    if "quiet p s'" "keep p s s'" "sleeplocks s' = sleeplocks s" "bufs s' = (bufs s)(b := (bufs s b)\<lparr>b_disk := 0\<rparr>)"
      "medium s' = dput n (V n) (medium s)" for s'
    using that L Dd(5)[OF n(1)] Dd(10)[OF h(1)] Dd(11)[OF h] Dd(8)[OF h(2)] db
    by (intro cache_step[OF c h(1)]) auto
  have "safe (disk_rely p) (crash C) (\<lambda>_ s'. cache_st p d s' V rc H (D(n := V n)) \<and> hnd d s' = hnd d s \<and> keep p s s')
      (virtio_disk_rw b True (norm s))"
  proof (rule disk_safe)
    fix s' assume "quiet p s'" "keep p (norm s) s'" "sleeplocks s' = sleeplocks (norm s)"
      "bufs s' = (bufs (norm s))(b := served_buf True (medium (norm s)) (bufs (norm s) b))"
      "medium s' = served_medium True (bufs (norm s) b) (medium (norm s))"
    then show "cache_st p d s' V rc H (D(n := V n)) \<and> hnd d s' = hnd d s \<and> keep p s s'"
      using fin[of s'] h(2) by (simp add: sm served_buf_def insert_absorb)
  qed (use Dd(1) cr cr' sm in simp_all)
  then show ?thesis unfolding bwrite_def holding_buffer[OF c h] bind.simps by simp
qed

text \<open>
  Giving a reference back; the last one moves the buffer to the front of the list, where it will be recycled
  last. Its contents must then be those of the disk.
\<close>

lemma brelse_list:
  assumes q: "quiet p s" "lru (bufs s) L" "b < NBUF" and sl: "releasesleep (BufLock b) (norm s) = Ok () t"
    and t: "quiet p t" "bufs t = bufs s"
  shows "\<exists>bf. with_lock BcacheLock (\<lambda>s.
       let s = upd_buf b (\<lambda>q. q\<lparr>b_refcnt := b_refcnt q - 1\<rparr>) s in
       Ok () (if b_refcnt (bufs s b) = 0 then push_front b (unlink_buf b s) else s)) t = Ok () (norm (t\<lparr>bufs := bf\<rparr>)) \<and>
     lru bf (if b_refcnt (bufs s b) = 1 then b # remove1 b L else L) \<and> (\<forall>x. core (bf x) = core (((bufs s)(b := (bufs s b)\<lparr>b_refcnt := b_refcnt (bufs s b) - 1\<rparr>)) x))"
proof -
  note Q = quietD[OF t(1)]
  define bf1 where "bf1 = (bufs s)(b := (bufs s b)\<lparr>b_refcnt := b_refcnt (bufs s b) - 1\<rparr>)"
  have u: "upd_buf b (\<lambda>q. q\<lparr>b_refcnt := b_refcnt q - 1\<rparr>) (grab BcacheLock t) = grab BcacheLock (t\<lparr>bufs := bf1\<rparr>)"
    by (simp add: upd_buf_def t bf1_def)
  have l1: "lru bf1 L" using q(2) by (simp add: bf1_def)
  have l2: "lru (bufs (grab BcacheLock (t\<lparr>bufs := bf1\<rparr>))) L" using l1 by simp
  from move_to_front[OF l2 q(3)] obtain bf where
    bf: "push_front b (unlink_buf b (grab BcacheLock (t\<lparr>bufs := bf1\<rparr>))) = grab BcacheLock (t\<lparr>bufs := bf\<rparr>)"
      "\<forall>x. core (bf x) = core (bf1 x)" "lru bf (b # remove1 b L)" by auto
  let ?f = "\<lambda>s. let s = upd_buf b (\<lambda>q. q\<lparr>b_refcnt := b_refcnt q - 1\<rparr>) s in
       Ok () (if b_refcnt (bufs s b) = 0 then push_front b (unlink_buf b s) else s)"
  let ?b = "if b_refcnt (bf1 b) = 0 then bf else bf1"
  have "?f (grab BcacheLock t) = Ok () (grab BcacheLock (t\<lparr>bufs := ?b\<rparr>))"
    unfolding Let_def u using bf(1) by simp
  then have "with_lock BcacheLock ?f t = Ok () (norm (t\<lparr>bufs := ?b\<rparr>))"
    using Q by (intro with_lock_pure) simp_all
  moreover have "lru ?b (if b_refcnt (bufs s b) = 1 then b # remove1 b L else L)" using l1 bf(3) by (simp add: bf1_def)
  moreover have "\<forall>x. core (?b x) = core (bf1 x)" using bf(2) by simp
  ultimately show ?thesis unfolding bf1_def[symmetric] by (intro exI[of _ ?b] conjI)
qed

lemma brelse_lru:
  assumes c: "cache_st p d s V rc H D" and h: "hnd d s b n" "n \<in> H" and r: "rc n = 1 \<Longrightarrow> V n = D n" and L: "lru (bufs s) L"
  shows "\<exists>s'. brelse b s = Ok () s' \<and> cache_st p d s' V (rc(n := rc n - 1)) (H - {n}) D \<and> hnd d s' = hnd d s \<and> keep p s s' \<and>
    lru (bufs s') (if rc n = 1 then b # remove1 b L else L)"
proof -
  note Dd = cache_stD[OF c]
  have bN: "b < NBUF" using h by (simp add: hnd_def)
  define t where "t = norm (woken {..<NPROC} (Some (ChanSleep (BufLock b)))
    (upd_sl (BufLock b) (\<lambda>l. l\<lparr>sl_locked := 0, sl_pid := 0\<rparr>) (norm s)))"
  have sl: "releasesleep (BufLock b) (norm s) = Ok () t"
    using releasesleep_eq[of p "norm s" "BufLock b"] Dd(1) by (simp add: t_def)
  have t: "quiet p t" "bufs t = bufs s" "keep p s t" "medium t = medium s"
    "sleeplocks t = (sleeplocks s)(BufLock b := (sleeplocks s (BufLock b))\<lparr>sl_locked := 0, sl_pid := 0\<rparr>)"
    using Dd(1) by (simp_all add: t_def upd_sl_def)
  let ?L = "if rc n = 1 then b # remove1 b L else L"
  have r1: "(b_refcnt (bufs s b) = 1) = (rc n = 1)"
    using Dd(10)[OF h(1)] by (metis unat_1 word_unat_eq_iff)
  obtain bf where bf: "brelse b s = Ok () (norm (t\<lparr>bufs := bf\<rparr>))" "lru bf ?L"
    "\<And>x. core (bf x) = core (((bufs s)(b := (bufs s b)\<lparr>b_refcnt := b_refcnt (bufs s b) - 1\<rparr>)) x)"
    using brelse_list[OF Dd(1) L bN sl t(1,2)] unfolding r1 by (auto simp: brelse_def holding_buffer[OF c h] sl)
  have rf: "unat (b_refcnt (bufs s b) - 1) = rc n - 1"
    using Dd(10)[OF h(1)] Dd(8)[OF h(2)] unat_decr[of "b_refcnt (bufs s b)"] by simp
  have "cache_st p d (norm (t\<lparr>bufs := bf\<rparr>)) (V(n := V n)) (rc(n := rc n - 1)) (if False then insert n H else H - {n}) (D(n := D n)) \<and>
      hnd d (norm (t\<lparr>bufs := bf\<rparr>)) = hnd d s \<and> keep p s (norm (t\<lparr>bufs := bf\<rparr>))"
  proof (rule cache_step[OF c h(1), of _ ?L])
    show "rc n - 1 = 0 \<Longrightarrow> V n = D n \<and> \<not> False" using r Dd(8)[OF h(2)] by simp
  qed (use bf(2) t Dd(3,4,5) Dd(10)[OF h(1)] core_fields[OF bf(3)[of b]] rf bf(3) in auto)
  then show ?thesis using bf(1,2) by simp
qed

lemma brelse_eq:
  assumes c: "cache_st p d s V rc H D" and h: "hnd d s b n" "n \<in> H" and r: "rc n = 1 \<Longrightarrow> V n = D n"
  shows "\<exists>s'. brelse b s = Ok () s' \<and> cache_st p d s' V (rc(n := rc n - 1)) (H - {n}) D \<and> hnd d s' = hnd d s \<and> keep p s s'"
  using brelse_lru[OF c h r] cache_stD(2)[OF c] by blast

lemma pin_cache:
  assumes c: "cache_st p d s V rc H D" and h: "hnd d s b n" and f: "unat (f (b_refcnt (bufs s b))) = r" "0 < r"
  shows "\<exists>s'. with_lock BcacheLock (\<lambda>s. Ok () (upd_buf b (\<lambda>q. q\<lparr>b_refcnt := f (b_refcnt q)\<rparr>) s)) s = Ok () s' \<and>
    cache_st p d s' V (rc(n := r)) H D \<and> hnd d s' = hnd d s \<and> keep p s s'"
proof -
  note Dd = cache_stD[OF c]
  obtain L where L: "lru (bufs s) L" using Dd(2) by blast
  let ?t = "upd_buf b (\<lambda>q. q\<lparr>b_refcnt := f (b_refcnt q)\<rparr>) s"
  have "with_lock BcacheLock (\<lambda>s. Ok () (upd_buf b (\<lambda>q. q\<lparr>b_refcnt := f (b_refcnt q)\<rparr>) s)) s = Ok () (norm ?t)"
    using quietD[OF Dd(1)] by (intro with_lock_pure) (simp_all add: upd_buf_def)
  moreover have "cache_st p d (norm ?t) (V(n := V n)) (rc(n := r)) (if n \<in> H then insert n H else H - {n}) (D(n := D n)) \<and>
      hnd d (norm ?t) = hnd d s \<and> keep p s (norm ?t)"
  proof (rule cache_step[OF c h, of _ L])
    show "n \<in> H \<Longrightarrow> sl_locked (sleeplocks (norm ?t) (BufLock b)) \<noteq> 0 \<and> sl_pid (sleeplocks (norm ?t) (BufLock b)) = p_pid (procs s p)"
      using Dd(11)[OF h] by (simp add: upd_buf_def)
    show "n \<notin> H \<Longrightarrow> sl_locked (sleeplocks (norm ?t) (BufLock b)) = 0" using Dd(12)[OF h] by (simp add: upd_buf_def)
  qed (use L f Dd(1,3,4,5) Dd(10)[OF h] in \<open>auto simp: upd_buf_def\<close>)
  moreover have "(if n \<in> H then insert n H else H - {n}) = H" by auto
  ultimately show ?thesis by (intro exI[of _ "norm ?t"]) simp
qed

lemma bpin_eq:
  assumes c: "cache_st p d s V rc H D" and h: "hnd d s b n" and r: "rc n + 1 < 2 ^ 32"
  shows "\<exists>s'. bpin b s = Ok () s' \<and> cache_st p d s' V (rc(n := rc n + 1)) H D \<and> hnd d s' = hnd d s \<and> keep p s s'"
  unfolding bpin_def
  by (rule pin_cache[OF c h]) (use cache_stD(10)[OF c h] r unat_incr[of "b_refcnt (bufs s b)"] in simp_all)

lemma bunpin_eq:
  assumes c: "cache_st p d s V rc H D" and h: "hnd d s b n" and r: "1 < rc n"
  shows "\<exists>s'. bunpin b s = Ok () s' \<and> cache_st p d s' V (rc(n := rc n - 1)) H D \<and> hnd d s' = hnd d s \<and> keep p s s'"
  unfolding bunpin_def
  by (rule pin_cache[OF c h]) (use cache_stD(10)[OF c h] r unat_decr[of "b_refcnt (bufs s b)"] in simp_all)

section \<open>The cache keeps its contract\<close>

interpretation bc: block_cache "cache_st p d" "hnd d" "disk_rely p" crash "keep p" "bread d" bwrite brelse bunpin set_data bdata
  for p d
proof unfold_locales
  fix s :: "'z vdstate_scheme" and V rc H D n and C :: "(u32 \<Rightarrow> u8 list) \<Rightarrow> bool" and b v
  assume c: "cache_st p d s V rc H D"
  show "n \<notin> H \<Longrightarrow> small n \<Longrightarrow> more_refs rc n \<Longrightarrow> C D \<Longrightarrow>
      safe (disk_rely p) (crash C) (\<lambda>b s'. cache_st p d s' V (rc(n := rc n + 1)) (insert n H) D \<and> hnd d s' b n \<and>
        (\<forall>x k. 0 < rc k \<and> hnd d s x k \<longrightarrow> hnd d s' x k) \<and> keep p s s') (bread d n s)"
    using bread_safe[OF c] by blast
  show "small n \<Longrightarrow> rc n = 0 \<Longrightarrow> V n = D n" "small n \<Longrightarrow> length (V n) = BSIZE"
    using cache_stD(5,6)[OF c] by blast+
  assume h: "hnd d s b n"
  show "n \<in> H \<Longrightarrow> C D \<Longrightarrow> C (D(n := V n)) \<Longrightarrow>
      safe (disk_rely p) (crash C) (\<lambda>_ s'. cache_st p d s' V rc H (D(n := V n)) \<and> hnd d s' = hnd d s \<and> keep p s s') (bwrite b s)"
    by (rule bwrite_safe[OF c h])
  show "n \<in> H \<Longrightarrow> (rc n = 1 \<Longrightarrow> V n = D n) \<Longrightarrow>
      \<exists>s'. brelse b s = Ok () s' \<and> cache_st p d s' V (rc(n := rc n - 1)) (H - {n}) D \<and> hnd d s' = hnd d s \<and> keep p s s'"
    by (rule brelse_eq[OF c h])
  show "1 < rc n \<Longrightarrow> \<exists>s'. bunpin b s = Ok () s' \<and> cache_st p d s' V (rc(n := rc n - 1)) H D \<and> hnd d s' = hnd d s \<and> keep p s s'"
    by (rule bunpin_eq[OF c h])
  show "n \<in> H \<Longrightarrow> length v = BSIZE \<Longrightarrow>
      cache_st p d (set_data b v s) (V(n := v)) rc H D \<and> hnd d (set_data b v s) = hnd d s \<and> keep p s (set_data b v s)"
    by (rule set_data_cache[OF c h])
  show "bdata b s = V n" by (rule bdata_cache[OF c h])
qed (auto intro: keep_trans)

end
