(* ===== verification/Overlay.thy ===== *)
theory Overlay
  imports Bio
begin

text \<open>Structures that overlay the data of a buffer: reading a field back after a store to the same or another field.\<close>

lemma put_at_length [simp]: "off + length bs \<le> length d \<Longrightarrow> length (put_at d off bs) = length d"
  by (simp add: put_at_def)

lemma get_put_same: "off + length bs \<le> length d \<Longrightarrow> take (length bs) (drop off (put_at d off bs)) = bs"
  by (simp add: put_at_def)

lemma get_put_other:
  assumes "off + length bs \<le> length d" "o' + k \<le> off \<or> off + length bs \<le> o'"
  shows "take k (drop o' (put_at d off bs)) = take k (drop o' d)"
proof (rule nth_equalityI)
  show "length (take k (drop o' (put_at d off bs))) = length (take k (drop o' d))"
    using assms(1) by (simp)
  fix i assume "i < length (take k (drop o' (put_at d off bs)))"
  then have i: "i < k" "o' + i < length d" using assms(1) by (auto)
  show "take k (drop o' (put_at d off bs)) ! i = take k (drop o' d) ! i"
    using assms i by (auto simp: put_at_def nth_append)
qed

lemma put32_length [simp]: "off + 4 \<le> length d \<Longrightarrow> length (put32 d off v) = length d"
  by (simp add: put32_def)

lemma get32_put32_same: "off + 4 \<le> length d \<Longrightarrow> get32 (put32 d off v) off = v"
  using get_put_same[of off "bytes_of 4 v" d] word_of_bytes_of[of 4 v] by (simp add: get32_def put32_def)

lemma get32_put32_other: "off + 4 \<le> length d \<Longrightarrow> o' + 4 \<le> off \<or> off + 4 \<le> o' \<Longrightarrow> get32 (put32 d off v) o' = get32 d o'"
  using get_put_other[of off "bytes_of 4 v" d o' 4] by (simp add: get32_def put32_def)

lemma put16_length [simp]: "off + 2 \<le> length d \<Longrightarrow> length (put16 d off v) = length d"
  by (simp add: put16_def)

lemma get16_put16_same: "off + 2 \<le> length d \<Longrightarrow> get16 (put16 d off v) off = v"
  using get_put_same[of off "bytes_of 2 v" d] word_of_bytes_of[of 2 v] by (simp add: get16_def put16_def)

lemma get16_put_other:
  "off + 2 \<le> length d \<Longrightarrow> o' + 2 \<le> off \<or> off + 2 \<le> o' \<Longrightarrow> get16 (put16 d off v) o' = get16 d o'"
  "off + 4 \<le> length d \<Longrightarrow> o' + 2 \<le> off \<or> off + 4 \<le> o' \<Longrightarrow> get16 (put32 d off w) o' = get16 d o'"
  using get_put_other[of off "bytes_of 2 v" d o' 2] get_put_other[of off "bytes_of 4 w" d o' 2]
  by (simp_all add: get16_def put16_def put32_def)

lemma get32_put16_other:
  "off + 2 \<le> length d \<Longrightarrow> o' + 4 \<le> off \<or> off + 2 \<le> o' \<Longrightarrow> get32 (put16 d off v) o' = get32 d o'"
  using get_put_other[of off "bytes_of 2 v" d o' 4] by (simp add: get32_def put16_def)

end
