(* ===== verification/LogFacts.thy ===== *)
theory LogFacts
  imports BioFacts Overlay Log
begin

text \<open>
  Crash safety of the write-ahead log. \<open>replay l D\<close> is what recovery makes of a disk with contents \<open>D\<close>. The main results:
  whenever the machine stops during \<^verbatim>\<open>commit\<close>, recovery gives the contents before the transaction or those after
  it, nothing in between; and recovery can itself be interrupted and repeated.
\<close>

section \<open>The header block\<close>

lemma write_head_loop_length [simp]: "4 + 4 * (i + k) \<le> length d \<Longrightarrow> length (write_head_loop k i blk d) = length d"
  by (induction k arbitrary: i d) auto

lemma write_head_loop_before:
  "4 + 4 * (i + k) \<le> length d \<Longrightarrow> o' + 4 \<le> 4 + 4 * i \<Longrightarrow> get32 (write_head_loop k i blk d) o' = get32 d o'"
  by (induction k arbitrary: i d) (auto simp: get32_put32_other)

lemma write_head_loop_at:
  "4 + 4 * (i + k) \<le> length d \<Longrightarrow> i \<le> j \<Longrightarrow> j < i + k \<Longrightarrow> get32 (write_head_loop k i blk d) (4 + 4 * j) = of_int (blk j)"
proof (induction k arbitrary: i d)
  case (Suc k)
  let ?d = "put32 d (4 + 4 * i) (of_int (blk i))"
  have l: "4 + 4 * (Suc i + k) \<le> length ?d" "4 + 4 * i + 4 \<le> length d" using Suc.prems(1) by simp_all
  show ?case
  proof (cases "j = i")
    case True
    then show ?thesis using write_head_loop_before[OF l(1), of "4 + 4 * i"] l(2) by (simp add: get32_put32_same)
  qed (use Suc.prems Suc.IH[OF l(1)] in simp)
qed simp

lemma head_data_length [simp]: "4 + 4 * nat (lh_n h) \<le> length d \<Longrightarrow> length (head_data h d) = length d"
  by (simp add: head_data_def)

lemma head_data_get:
  assumes "4 + 4 * nat (lh_n h) \<le> length d"
  shows "get32 (head_data h d) 0 = of_int (lh_n h)"
    "j < nat (lh_n h) \<Longrightarrow> get32 (head_data h d) (4 + 4 * j) = of_int (lh_block h j)"
  using assms write_head_loop_before[of 0 _ _ 0] write_head_loop_at[of 0 "nat (lh_n h)" "put32 d 0 (of_int (lh_n h))"]
  by (simp_all add: head_data_def get32_put32_same)

lemma read_head_loop_eq:
  "read_head_loop k i d blk = (\<lambda>j. if i \<le> j \<and> j < i + k then sint (get32 d (4 + 4 * j)) else blk j)"
  by (induction k arbitrary: i blk) (auto simp: fun_eq_iff)

lemma sint_of_int_32: "- (2 ^ 31) \<le> z \<Longrightarrow> z < 2 ^ 31 \<Longrightarrow> sint (of_int z :: u32) = z"
  by (simp add: sint_sbintrunc' signed_take_bit_int_eq_self)

section \<open>Positions\<close>

text \<open>The block of the header (\<open>i = 0\<close>) and of the \<open>i\<close>-th log block, and the home of the \<open>i\<close>-th logged block.\<close>

definition lpos :: "klog \<Rightarrow> nat \<Rightarrow> u32" where
  "lpos l i = of_int (log_start l + int i)"

definition hpos :: "klog \<Rightarrow> nat \<Rightarrow> u32" where
  "hpos l i = of_int (lh_block (log_lh l) i)"

abbreviation logged :: "klog \<Rightarrow> nat" where "logged l \<equiv> nat (lh_n (log_lh l))"

definition area :: "klog \<Rightarrow> u32 set" where
  "area l = lpos l ` {..<nat (log_size l)}"

definition log_ok :: "klog \<Rightarrow> bool" where
  "log_ok l \<longleftrightarrow> 0 \<le> log_start l \<and> log_size l \<le> int LOGSIZE \<and> log_start l + log_size l < 2 ^ 31 \<and>
     0 \<le> lh_n (log_lh l) \<and> lh_n (log_lh l) < log_size l \<and>
     (\<forall>i < logged l. 0 \<le> lh_block (log_lh l) i \<and> lh_block (log_lh l) i < 2 ^ 31 \<and> hpos l i \<notin> area l) \<and>
     inj_on (lh_block (log_lh l)) {..<logged l}"

lemma unat_of_int_32: "0 \<le> z \<Longrightarrow> z < 2 ^ 32 \<Longrightarrow> unat (of_int z :: u32) = nat z"
  by (simp add: unat_eq_nat_uint uint_word_of_int)

lemma lpos_unat: "log_ok l \<Longrightarrow> i < nat (log_size l) \<Longrightarrow> unat (lpos l i) = nat (log_start l) + i"
  unfolding lpos_def log_ok_def by (subst unat_of_int_32) auto

lemma lpos_small: "log_ok l \<Longrightarrow> i < nat (log_size l) \<Longrightarrow> small (lpos l i)"
  unfolding small_def by (subst lpos_unat) (auto simp: log_ok_def)

lemma lpos_eq: "log_ok l \<Longrightarrow> i < nat (log_size l) \<Longrightarrow> j < nat (log_size l) \<Longrightarrow> lpos l i = lpos l j \<longleftrightarrow> i = j"
  by (metis add_left_cancel lpos_unat)

lemma lpos_area: "i < nat (log_size l) \<Longrightarrow> lpos l i \<in> area l"
  by (auto simp: area_def)

lemma logged_size: "log_ok l \<Longrightarrow> i < logged l \<Longrightarrow> Suc i < nat (log_size l)" "log_ok l \<Longrightarrow> 0 < nat (log_size l)"
  by (auto simp: log_ok_def)

lemma hpos_unat: "log_ok l \<Longrightarrow> i < logged l \<Longrightarrow> unat (hpos l i) = nat (lh_block (log_lh l) i)"
  unfolding hpos_def log_ok_def by (subst unat_of_int_32) auto

lemma hpos_small: "log_ok l \<Longrightarrow> i < logged l \<Longrightarrow> small (hpos l i)"
  unfolding small_def by (subst hpos_unat) (auto simp: log_ok_def)

lemma hpos_area: "log_ok l \<Longrightarrow> i < logged l \<Longrightarrow> hpos l i \<notin> area l"
  by (auto simp: log_ok_def)

lemma hpos_inj: "log_ok l \<Longrightarrow> inj_on (hpos l) {..<logged l}"
proof (rule inj_onI)
  fix i j assume l: "log_ok l" and ij: "i \<in> {..<logged l}" "j \<in> {..<logged l}" "hpos l i = hpos l j"
  then have "nat (lh_block (log_lh l) i) = nat (lh_block (log_lh l) j)" using hpos_unat[OF l] by (metis lessThan_iff)
  moreover have "0 \<le> lh_block (log_lh l) i" "0 \<le> lh_block (log_lh l) j" using l ij unfolding log_ok_def by blast+
  ultimately have "lh_block (log_lh l) i = lh_block (log_lh l) j" by simp
  then show "i = j" using l ij unfolding log_ok_def inj_on_def by blast
qed

text \<open>A sequence of updates at different places.\<close>

lemma fold_upd_other: "k \<notin> g ` set ts \<Longrightarrow> fold (\<lambda>i E. E(g i := v i)) ts D k = D k"
  by (induction ts arbitrary: D) auto

lemma fold_upd_at: "i \<in> set ts \<Longrightarrow> inj_on g (set ts) \<Longrightarrow> fold (\<lambda>i E. E(g i := v i)) ts D (g i) = v i"
proof (induction ts arbitrary: D)
  case (Cons t ts)
  show ?case
  proof (cases "i \<in> set ts")
    case False
    then have "g i \<notin> g ` set ts" using Cons.prems by (auto dest: inj_onD)
    then show ?thesis using False Cons.prems fold_upd_other[of "g i" g ts v "D(g t := v t)"]
      by (auto simp del: fun_upd_apply simp: fun_upd_same)
  qed (use Cons in simp)
qed simp

section \<open>Copying to the log and back\<close>

lemma keep_klog: "keep p s s' \<Longrightarrow> klog s' = klog s"
  by (cases s; cases s') (auto simp: keep_def)

lemma cache_klog [simp]: "cache_st p d (klog_update f s) = cache_st p d s" "hnd d (klog_update f s) = hnd d s"
proof -
  have "quiet p (klog_update f s) = quiet p s"
    by (simp add: quiet_def mycpu_def cpuid_def curp_def)
  moreover show h: "hnd d (klog_update f s) = hnd d s" for d by (simp add: hnd_def fun_eq_iff)
  ultimately show "cache_st p d (klog_update f s) = cache_st p d s"
    by (simp add: cache_st_def fun_eq_iff)
qed

lemma copy_block_eq:
  assumes "cache_st p d s V rc H D" "hnd d s x a" "hnd d s y b"
  shows "copy_block y x s = set_data y (V a) s"
proof -
  have "length (V a) = BSIZE" "length (V b) = BSIZE" using assms cache_stD(5,10) by blast+
  then show ?thesis using bdata_cache[OF assms(1,2)] bdata_cache[OF assms(1,3)] by (simp add: copy_block_def put_at_def)
qed

lemma write_log_loop_safe:
  assumes "cache_st p d s V rc {} D" "klog s = l" "log_ok l" "of_int (log_dev l) = d" "set ts \<subseteq> {..<logged l}"
    "\<And>i. i \<in> set ts \<Longrightarrow> fits rc {lpos l (Suc i), hpos l i}" "\<And>E. (\<And>k. k \<notin> lpos l ` {1..logged l} \<Longrightarrow> E k = D k) \<Longrightarrow> C E"
  shows "safe (disk_rely p) (crash C) (\<lambda>_ s'.
      cache_st p d s' (fold (\<lambda>i W. W(lpos l (Suc i) := V (hpos l i))) ts V) rc {} (fold (\<lambda>i E. E(lpos l (Suc i) := V (hpos l i))) ts D) \<and> keep p s s')
    (write_log_loop ts s)"
  using assms
proof (induction ts arbitrary: s V D)
  case (Cons t ts)
  note p = Cons.prems
  let ?a = "hpos l t" and ?b = "lpos l (Suc t)"
  have t: "t < logged l" "Suc t < nat (log_size l)" using p(5) logged_size[OF p(3)] by auto
  have sm: "small ?a" "small ?b" using hpos_small[OF p(3)] lpos_small[OF p(3)] t by auto
  have ne: "hpos l i \<noteq> ?b" if "i < logged l" for i using hpos_area[OF p(3) that] lpos_area[OF t(2)] by metis
  have CD: "C D" "C (D(?b := V ?a))" using t by (intro p(7); auto)+
  have step: "safe (disk_rely p) (crash C) (\<lambda>_ s'. cache_st p d s' (V(?b := V ?a)) (rc(?b := rc ?b - (if False then 1 else 0))) {}
      (D(?b := V ?a)) \<and> keep p s s')
    (bind (bread d ?b s) (\<lambda>to s. bind (log_bread (lhblock s t) s) (\<lambda>frm s. bind (bwrite to (copy_block to frm s))
      (\<lambda>_ s. bind (if False then bunpin to s else Ok () s) (\<lambda>_ s. bind (brelse frm s) (\<lambda>_ s. brelse to s))))))"
  proof (rule bc.copy_to[OF p(1)])
    show "?a \<noteq> ?b" using ne t by simp
    show "fits rc {?a, ?b}" using p(6)[of t] by (simp add: insert_commute)
    show "log_bread (lhblock s' t) s' = bread d ?a s'" if "keep p s s'" for s'
      using keep_klog[OF that] p(2,4) by (simp add: log_bread_def hpos_def)
  qed (use sm CD copy_block_eq in auto)
  have eq: "write_log_loop (t # ts) s = bind (bind (bread d ?b s) (\<lambda>to s. bind (log_bread (lhblock s t) s) (\<lambda>frm s.
      bind (bwrite to (copy_block to frm s)) (\<lambda>_ s. bind (if False then bunpin to s else Ok () s) (\<lambda>_ s.
      bind (brelse frm s) (\<lambda>_ s. brelse to s)))))) (\<lambda>_ s. write_log_loop ts s)"
    using p(2,4) by (simp add: log_bread_def kbind_assoc lpos_def algebra_simps)
  show ?case unfolding eq
  proof (rule safe_seq[OF step])
    fix v s1 assume a: "cache_st p d s1 (V(?b := V ?a)) (rc(?b := rc ?b - (if False then 1 else 0))) {} (D(?b := V ?a)) \<and> keep p s s1"
    let ?V = "V(?b := V ?a)" and ?D = "D(?b := V ?a)"
    have s1: "cache_st p d s1 ?V rc {} ?D" and k: "keep p s s1" using a by simp_all
    have C1: "C E" if "\<And>k. k \<notin> lpos l ` {1..logged l} \<Longrightarrow> E k = ?D k" for E
      using that t(1) by (intro p(7)) auto
    have V1: "fold (\<lambda>i W. W(lpos l (Suc i) := ?V (hpos l i))) ts Z = fold (\<lambda>i W. W(lpos l (Suc i) := V (hpos l i))) ts Z" for Z
      using ne p(5) by (intro fold_cong refl) auto
    have l1: "klog s1 = l" using keep_klog[OF k] p(2) by simp
    have "safe (disk_rely p) (crash C) (\<lambda>_ s'. cache_st p d s' (fold (\<lambda>i W. W(lpos l (Suc i) := ?V (hpos l i))) ts ?V) rc {}
        (fold (\<lambda>i E. E(lpos l (Suc i) := ?V (hpos l i))) ts ?D) \<and> keep p s1 s') (write_log_loop ts s1)"
      by (rule Cons.IH[OF s1 l1 p(3,4)]) (use p(5,6) C1 in auto)
    then show "safe (disk_rely p) (crash C) (\<lambda>_ s'. cache_st p d s' (fold (\<lambda>i W. W(lpos l (Suc i) := V (hpos l i))) (t # ts) V) rc {}
        (fold (\<lambda>i E. E(lpos l (Suc i) := V (hpos l i))) (t # ts) D) \<and> keep p s s') (write_log_loop ts s1)"
      unfolding V1 by (rule safe_mono) (auto intro: keep_trans[OF k])
  qed
qed simp

lemma fits_mono:
  assumes "fits rc A" "\<And>n. rc' n \<le> rc n"
  shows "fits rc' A"
proof -
  have s: "{n. 0 < rc' n} \<subseteq> {n. 0 < rc n}" using assms(2) less_le_trans by blast
  then have "card ({n. 0 < rc' n} \<union> A) \<le> card ({n. 0 < rc n} \<union> A)"
    using assms(1) unfolding fits_def by (intro card_mono) auto
  moreover have "rc' n + 1 < 2 ^ 32" if "n \<in> A" for n
    using that assms(1) assms(2)[of n] unfolding fits_def by (meson add_le_mono1 le_less_trans)
  ultimately show ?thesis using assms(1) s finite_subset unfolding fits_def by auto
qed

definition unpinned :: "klog \<Rightarrow> bool \<Rightarrow> nat list \<Rightarrow> (u32 \<Rightarrow> nat) \<Rightarrow> u32 \<Rightarrow> nat" where
  "unpinned l u ts rc k = rc k - (if u \<and> k \<in> hpos l ` set ts then 1 else 0)"

lemma install_trans_loop_safe:
  assumes "cache_st p d s V rc {} D" "klog s = l" "log_ok l" "of_int (log_dev l) = d" "set ts \<subseteq> {..<logged l}" "distinct ts"
    "\<And>i. i \<in> set ts \<Longrightarrow> fits rc {lpos l (Suc i), hpos l i} \<and> (\<not> rec \<longrightarrow> 0 < rc (hpos l i))"
    "\<And>E. (\<And>k. k \<notin> hpos l ` {..<logged l} \<Longrightarrow> E k = D k) \<Longrightarrow> C E"
  shows "safe (disk_rely p) (crash C) (\<lambda>_ s'.
      cache_st p d s' (fold (\<lambda>i W. W(hpos l i := V (lpos l (Suc i)))) ts V) (unpinned l (\<not> rec) ts rc) {}
        (fold (\<lambda>i E. E(hpos l i := V (lpos l (Suc i)))) ts D) \<and> keep p s s')
    (install_trans_loop ts rec s)"
  using assms
proof (induction ts arbitrary: s V D rc)
  case Nil
  then show ?case by (simp add: unpinned_def[abs_def])
next
  case (Cons t ts)
  note p = Cons.prems
  let ?a = "lpos l (Suc t)" and ?b = "hpos l t"
  have t: "t < logged l" "Suc t < nat (log_size l)" using p(5) logged_size[OF p(3)] by auto
  have sm: "small ?a" "small ?b" using hpos_small[OF p(3)] lpos_small[OF p(3)] t by auto
  have ne: "lpos l (Suc i) \<noteq> ?b" if "i < logged l" for i
    using hpos_area[OF p(3) t(1)] lpos_area[OF logged_size(1)[OF p(3) that]] by metis
  have hb: "?b \<notin> hpos l ` set ts" using p(5,6) inj_onD[OF hpos_inj[OF p(3)]] by fastforce
  have CD: "C D" "C (D(?b := V ?a))" using t by (intro p(8); auto)+
  let ?rc = "rc(?b := rc ?b - (if \<not> rec then 1 else 0))"
  have step: "safe (disk_rely p) (crash C) (\<lambda>_ s'. cache_st p d s' (V(?b := V ?a)) ?rc {} (D(?b := V ?a)) \<and> keep p s s')
    (bind (bread d ?a s) (\<lambda>lbuf s. bind (log_bread (lhblock s t) s) (\<lambda>dbuf s. bind (bwrite dbuf (copy_block dbuf lbuf s))
      (\<lambda>_ s. bind (if \<not> rec then bunpin dbuf s else Ok () s) (\<lambda>_ s. bind (brelse lbuf s) (\<lambda>_ s. brelse dbuf s))))))"
  proof (rule bc.copy_from[OF p(1)])
    show "?a \<noteq> ?b" using ne t by simp
    show "fits rc {?a, ?b}" using p(7)[of t] by simp
    show "log_bread (lhblock s' t) s' = bread d ?b s'" if "keep p s s'" for s'
      using keep_klog[OF that] p(2,4) by (simp add: log_bread_def hpos_def)
    show "\<not> rec \<Longrightarrow> 0 < rc ?b" using p(7)[of t] by simp
  qed (use sm CD copy_block_eq in auto)
  have eq: "install_trans_loop (t # ts) rec s = bind (bind (bread d ?a s) (\<lambda>lbuf s. bind (log_bread (lhblock s t) s) (\<lambda>dbuf s.
      bind (bwrite dbuf (copy_block dbuf lbuf s)) (\<lambda>_ s. bind (if \<not> rec then bunpin dbuf s else Ok () s) (\<lambda>_ s.
      bind (brelse lbuf s) (\<lambda>_ s. brelse dbuf s)))))) (\<lambda>_ s. install_trans_loop ts rec s)"
    using p(2,4) by (simp add: log_bread_def kbind_assoc lpos_def algebra_simps)
  show ?case unfolding eq
  proof (rule safe_seq[OF step])
    fix v s1 assume a: "cache_st p d s1 (V(?b := V ?a)) ?rc {} (D(?b := V ?a)) \<and> keep p s s1"
    let ?V = "V(?b := V ?a)" and ?D = "D(?b := V ?a)"
    have s1: "cache_st p d s1 ?V ?rc {} ?D" and k: "keep p s s1" using a by simp_all
    have C1: "C E" if "\<And>k. k \<notin> hpos l ` {..<logged l} \<Longrightarrow> E k = ?D k" for E
      using that t(1) by (intro p(8)) auto
    have V1: "fold (\<lambda>i W. W(hpos l i := ?V (lpos l (Suc i)))) ts Z = fold (\<lambda>i W. W(hpos l i := V (lpos l (Suc i)))) ts Z" for Z
      using ne p(5) by (intro fold_cong refl) auto
    have l1: "klog s1 = l" using keep_klog[OF k] p(2) by simp
    have f1: "fits ?rc {lpos l (Suc i), hpos l i} \<and> (\<not> rec \<longrightarrow> 0 < ?rc (hpos l i))" if "i \<in> set ts" for i
    proof -
      have "hpos l i \<noteq> ?b" using that hb by (metis imageI)
      moreover have "fits ?rc {lpos l (Suc i), hpos l i}" using p(7)[of i] that by (intro fits_mono[of rc _ ?rc]) auto
      ultimately show ?thesis using p(7)[of i] that by simp
    qed
    have rc1: "unpinned l (\<not> rec) ts ?rc = unpinned l (\<not> rec) (t # ts) rc"
      using hb by (auto simp: unpinned_def fun_eq_iff)
    have "safe (disk_rely p) (crash C) (\<lambda>_ s'. cache_st p d s' (fold (\<lambda>i W. W(hpos l i := ?V (lpos l (Suc i)))) ts ?V)
        (unpinned l (\<not> rec) ts ?rc) {} (fold (\<lambda>i E. E(hpos l i := ?V (lpos l (Suc i)))) ts ?D) \<and> keep p s1 s') (install_trans_loop ts rec s1)"
      by (rule Cons.IH[OF s1 l1 p(3,4) _ _ f1 C1]) (use p(5,6) in auto)
    then show "safe (disk_rely p) (crash C) (\<lambda>_ s'. cache_st p d s' (fold (\<lambda>i W. W(hpos l i := V (lpos l (Suc i)))) (t # ts) V)
        (unpinned l (\<not> rec) (t # ts) rc) {} (fold (\<lambda>i E. E(hpos l i := V (lpos l (Suc i)))) (t # ts) D) \<and> keep p s s')
        (install_trans_loop ts rec s1)"
      unfolding V1 rc1 by (rule safe_mono) (auto intro: keep_trans[OF k])
  qed
qed

text \<open>Writing the header: the point at which a transaction commits.\<close>

lemma write_head_safe:
  assumes c: "cache_st p d s V rc {} D" "klog s = l" "log_ok l" "of_int (log_dev l) = d" "more_refs rc (lpos l 0)"
    and C: "C D" "C (D(lpos l 0 := head_data (log_lh l) (V (lpos l 0))))"
  shows "safe (disk_rely p) (crash C) (\<lambda>_ s'. cache_st p d s' (V(lpos l 0 := head_data (log_lh l) (V (lpos l 0)))) rc {}
      (D(lpos l 0 := head_data (log_lh l) (V (lpos l 0)))) \<and> keep p s s')
    (write_head s)"
proof -
  have sm: "small (lpos l 0)" using lpos_small[OF c(3) logged_size(2)[OF c(3)]] .
  have n: "4 + 4 * logged l \<le> BSIZE" using c(3) by (auto simp: log_ok_def BSIZE_def LOGSIZE_def MAXOPBLOCKS_def)
  let ?f = "head_data (log_lh l)"
  have "safe (disk_rely p) (crash C) (\<lambda>_ s'. cache_st p d s' (V(lpos l 0 := ?f (V (lpos l 0)))) rc {}
      (D(lpos l 0 := ?f (V (lpos l 0)))) \<and> keep p s s')
    (bind (bread d (lpos l 0) s) (\<lambda>x s. bind (bwrite x (set_data x (head_data (log_lh (klog s)) (bdata x s)) s)) (\<lambda>_ s. brelse x s)))"
  proof (rule bc.rewrite[where f = ?f, OF c(1) _ sm c(5)])
    show "length (?f (V (lpos l 0))) = BSIZE" using n bc.block[OF c(1) sm] by simp
    fix x s' assume "keep p s s'"
    then show "set_data x (head_data (log_lh (klog s')) (bdata x s')) s' = set_data x (?f (bdata x s')) s'"
      using keep_klog[of p s s'] c(2) by simp
  qed (use C in auto)
  then show ?thesis using c(2,4) by (simp add: write_head_def log_bread_def lpos_def)
qed

section \<open>Recovery, as a function on disks\<close>

text \<open>
  \<open>replay l D\<close>: the header on the disk lists the blocks of a committed transaction; recovery copies each from the
  log to its home. Only the blocks \<open>outside\<close> the log, with a number the driver can address, are of interest to the
  file system.
\<close>

definition replay :: "klog \<Rightarrow> (u32 \<Rightarrow> u8 list) \<Rightarrow> u32 \<Rightarrow> u8 list" where
  "replay l D = fold (\<lambda>i E. E(get32 (D (lpos l 0)) (4 + 4 * i) := D (lpos l (Suc i))))
     [0..<nat (sint (get32 (D (lpos l 0)) 0))] D"

definition outside :: "klog \<Rightarrow> (u32 \<Rightarrow> u8 list) \<Rightarrow> u32 \<Rightarrow> u8 list" where
  "outside l D k = (if k \<in> area l \<or> \<not> small k then [] else D k)"

text \<open>The disk with the logged blocks replaced by their current contents.\<close>

definition updated :: "klog \<Rightarrow> (u32 \<Rightarrow> u8 list) \<Rightarrow> (u32 \<Rightarrow> u8 list) \<Rightarrow> u32 \<Rightarrow> u8 list" where
  "updated l V D k = (if k \<in> hpos l ` {..<logged l} then V k else D k)"

lemma replay_empty: "get32 (D (lpos l 0)) 0 = 0 \<Longrightarrow> replay l D = D"
  by (simp add: replay_def)

lemma outside_eq: "(\<And>k. k \<notin> area l \<Longrightarrow> small k \<Longrightarrow> D k = E k) \<Longrightarrow> outside l D = outside l E"
  by (auto simp: outside_def fun_eq_iff)

lemma replay_committed:
  assumes l: "log_ok l" and n: "get32 (E (lpos l 0)) 0 = of_int (lh_n (log_lh l))"
    and b: "\<And>i. i < logged l \<Longrightarrow> get32 (E (lpos l 0)) (4 + 4 * i) = hpos l i"
    and v: "\<And>i. i < logged l \<Longrightarrow> E (lpos l (Suc i)) = V (hpos l i)"
    and o: "\<And>k. k \<notin> area l \<Longrightarrow> k \<notin> hpos l ` {..<logged l} \<Longrightarrow> E k = D k"
  shows "outside l (replay l E) = outside l (updated l V D)"
proof -
  have "sint (get32 (E (lpos l 0)) 0) = lh_n (log_lh l)"
    unfolding n using l by (intro sint_of_int_32) (auto simp: log_ok_def)
  then have r: "replay l E = fold (\<lambda>i F. F(hpos l i := V (hpos l i))) [0..<logged l] E"
    unfolding replay_def using b v by (auto intro!: fold_cong)
  show ?thesis unfolding r
  proof (rule outside_eq)
    fix k assume k: "k \<notin> area l"
    show "fold (\<lambda>i F. F(hpos l i := V (hpos l i))) [0..<logged l] E k = updated l V D k"
    proof (cases "k \<in> hpos l ` {..<logged l}")
      case True
      then obtain i where i: "i < logged l" "k = hpos l i" by auto
      have "fold (\<lambda>i F. F(hpos l i := V (hpos l i))) [0..<logged l] E (hpos l i) = V (hpos l i)"
        using i(1) hpos_inj[OF l] by (intro fold_upd_at[where g = "hpos l" and v = "\<lambda>i. V (hpos l i)"]) (auto simp: atLeast0LessThan)
      then show ?thesis using i True by (simp add: updated_def)
    next
      case False
      then have "fold (\<lambda>i F. F(hpos l i := V (hpos l i))) [0..<logged l] E k = E k"
        by (intro fold_upd_other[where g = "hpos l" and v = "\<lambda>i. V (hpos l i)"]) (auto simp: atLeast0LessThan)
      then show ?thesis using False o[OF k False] by (simp add: updated_def)
    qed
  qed
qed

section \<open>Commit\<close>

text \<open>The disk after each step of \<^verbatim>\<open>commit\<close>.\<close>

definition copied :: "klog \<Rightarrow> (u32 \<Rightarrow> u8 list) \<Rightarrow> (u32 \<Rightarrow> u8 list) \<Rightarrow> u32 \<Rightarrow> u8 list" where
  "copied l V D = fold (\<lambda>i E. E(lpos l (Suc i) := V (hpos l i))) [0..<logged l] D"

definition installed :: "klog \<Rightarrow> (u32 \<Rightarrow> u8 list) \<Rightarrow> (u32 \<Rightarrow> u8 list) \<Rightarrow> u32 \<Rightarrow> u8 list" where
  "installed l V D = fold (\<lambda>i E. E(hpos l i := V (lpos l (Suc i)))) [0..<logged l] D"

definition with_head :: "klog \<Rightarrow> (u32 \<Rightarrow> u8 list) \<Rightarrow> (u32 \<Rightarrow> u8 list) \<Rightarrow> u32 \<Rightarrow> u8 list" where
  "with_head l V D = D(lpos l 0 := head_data (log_lh l) (V (lpos l 0)))"

lemma copied_at: "log_ok l \<Longrightarrow> i < logged l \<Longrightarrow> copied l V D (lpos l (Suc i)) = V (hpos l i)"
  unfolding copied_def
  by (rule fold_upd_at[where g = "\<lambda>i. lpos l (Suc i)" and v = "\<lambda>i. V (hpos l i)"])
    (auto intro!: inj_onI simp: lpos_eq logged_size)

lemma copied_other: "k \<notin> lpos l ` {1..logged l} \<Longrightarrow> copied l V D k = D k"
  unfolding copied_def
  by (rule fold_upd_other[where g = "\<lambda>i. lpos l (Suc i)" and v = "\<lambda>i. V (hpos l i)"]) (auto simp: image_iff Suc_le_eq)

lemma installed_at: "log_ok l \<Longrightarrow> i < logged l \<Longrightarrow> installed l V D (hpos l i) = V (lpos l (Suc i))"
  unfolding installed_def
  by (rule fold_upd_at[where g = "hpos l" and v = "\<lambda>i. V (lpos l (Suc i))"])
    (use hpos_inj in \<open>auto simp: atLeast0LessThan\<close>)

lemma installed_other: "k \<notin> hpos l ` {..<logged l} \<Longrightarrow> installed l V D k = D k"
  unfolding installed_def
  by (rule fold_upd_other[where g = "hpos l" and v = "\<lambda>i. V (lpos l (Suc i))"]) (auto simp: atLeast0LessThan)

lemma log_area: "log_ok l \<Longrightarrow> lpos l ` {1..logged l} \<subseteq> area l"
  by (auto simp: area_def log_ok_def)

lemma head_not_log: "log_ok l \<Longrightarrow> lpos l 0 \<notin> lpos l ` {1..logged l}"
  by (auto simp: lpos_eq log_ok_def)

lemma head_area: "log_ok l \<Longrightarrow> lpos l 0 \<in> area l"
  by (rule lpos_area) (rule logged_size)

text \<open>The log as the header on the disk describes it.\<close>

definition disk_log :: "klog \<Rightarrow> (u32 \<Rightarrow> u8 list) \<Rightarrow> klog" where
  "disk_log l D = (let n = sint (get32 (D (lpos l 0)) 0) in
     l\<lparr>log_lh := (log_lh l)\<lparr>lh_n := n, lh_block := read_head_loop (nat n) 0 (D (lpos l 0)) (lh_block (log_lh l))\<rparr>\<rparr>)"

lemma disk_log_simps [simp]:
  "lpos (disk_log l D) = lpos l" "area (disk_log l D) = area l" "log_dev (disk_log l D) = log_dev l"
  by (auto simp: disk_log_def lpos_def area_def Let_def fun_eq_iff)

lemma disk_log_head:
  "get32 (D (lpos l 0)) 0 = of_int (lh_n (log_lh (disk_log l D)))"
  "i < logged (disk_log l D) \<Longrightarrow> get32 (D (lpos l 0)) (4 + 4 * i) = hpos (disk_log l D) i"
  by (simp_all add: disk_log_def hpos_def read_head_loop_eq Let_def)

lemma disk_log_cong: "E (lpos l 0) = D (lpos l 0) \<Longrightarrow> disk_log l E = disk_log l D"
  by (simp add: disk_log_def)

lemma log_ok_disk_empty:
  assumes "log_ok l \<or> log_ok (disk_log l D)" "get32 (E (lpos l 0)) 0 = 0"
  shows "log_ok (disk_log l E)"
proof -
  have "lh_n (log_lh (disk_log l E)) = 0" using assms(2) by (simp add: disk_log_def Let_def)
  moreover have "log_start (disk_log l E) = log_start l" "log_size (disk_log l E) = log_size l" by (simp_all add: disk_log_def Let_def)
  moreover have "log_start (disk_log l D) = log_start l" "log_size (disk_log l D) = log_size l" by (simp_all add: disk_log_def Let_def)
  ultimately show ?thesis using assms(1) by (auto simp: log_ok_def)
qed

lemma log_ok_disk_head:
  assumes l: "log_ok l" and h: "get32 (E (lpos l 0)) 0 = of_int (lh_n (log_lh l))"
    "\<And>i. i < logged l \<Longrightarrow> get32 (E (lpos l 0)) (4 + 4 * i) = hpos l i"
  shows "log_ok (disk_log l E)"
proof -
  have n: "lh_n (log_lh (disk_log l E)) = lh_n (log_lh l)"
    using sint_of_int_32[of "lh_n (log_lh l)"] l h(1) by (auto simp: disk_log_def Let_def log_ok_def)
  have b: "lh_block (log_lh (disk_log l E)) i = lh_block (log_lh l) i" if "i < logged l" for i
  proof -
    have "sint (get32 (E (lpos l 0)) (4 + 4 * i)) = lh_block (log_lh l) i"
      unfolding h(2)[OF that] hpos_def using l that by (intro sint_of_int_32) (auto simp: log_ok_def)
    moreover have "i < nat (sint (get32 (E (lpos l 0)) 0))" using n that by (simp add: disk_log_def Let_def)
    ultimately show ?thesis by (simp add: disk_log_def Let_def read_head_loop_eq)
  qed
  have s: "log_start (disk_log l E) = log_start l" "log_size (disk_log l E) = log_size l" by (simp_all add: disk_log_def Let_def)
  have "inj_on (lh_block (log_lh (disk_log l E))) {..<logged l} = inj_on (lh_block (log_lh l)) {..<logged l}"
    using b by (intro inj_on_cong) simp
  then show ?thesis using l b by (simp add: log_ok_def n s hpos_def)
qed

text \<open>The header is in order, and recovery gives the old contents, or the new ones.\<close>

definition atomic :: "klog \<Rightarrow> (u32 \<Rightarrow> u8 list) \<Rightarrow> (u32 \<Rightarrow> u8 list) \<Rightarrow> (u32 \<Rightarrow> u8 list) \<Rightarrow> bool" where
  "atomic l V D E \<longleftrightarrow> log_ok (disk_log l E) \<and>
     (outside l (replay l E) = outside l D \<or> outside l (replay l E) = outside l (updated l V D))"

lemma atomic_before:
  assumes "log_ok l" "get32 (D (lpos l 0)) 0 = 0" "\<And>k. k \<notin> lpos l ` {1..logged l} \<Longrightarrow> E k = D k"
  shows "atomic l V D E"
proof -
  have "E (lpos l 0) = D (lpos l 0)" using assms(3) head_not_log[OF assms(1)] by blast
  then have e: "get32 (E (lpos l 0)) 0 = 0" using assms(2) by simp
  then have "replay l E = E" by (rule replay_empty)
  moreover have "outside l E = outside l D" using assms(3) log_area[OF assms(1)] by (intro outside_eq) blast
  ultimately show ?thesis using log_ok_disk_empty[where E = E, OF disjI1[OF assms(1)] e] by (simp add: atomic_def)
qed

lemma atomic_after:
  assumes l: "log_ok l" and h: "length h = BSIZE" 
    and E: "\<And>k. k \<notin> hpos l ` {..<logged l} \<Longrightarrow> E k = ((copied l V D)(lpos l 0 := head_data (log_lh l) h)) k"
  shows "atomic l V D E"
proof -
  have n: "4 + 4 * logged l \<le> length h" using l h by (auto simp: log_ok_def BSIZE_def LOGSIZE_def MAXOPBLOCKS_def)
  have home: "k \<in> area l \<Longrightarrow> k \<notin> hpos l ` {..<logged l}" for k using hpos_area[OF l] by blast
  have e0: "E (lpos l 0) = head_data (log_lh l) h" using E[OF home[OF head_area[OF l]]] by simp
  have e1: "get32 (E (lpos l 0)) 0 = of_int (lh_n (log_lh l))" using head_data_get(1)[OF n] e0 by simp
  have e2: "get32 (E (lpos l 0)) (4 + 4 * i) = hpos l i" if "i < logged l" for i
    using head_data_get(2)[OF n that] e0 by (simp add: hpos_def)
  have "outside l (replay l E) = outside l (updated l V D)"
  proof (rule replay_committed[where E = E, OF l e1 e2])
    fix i assume i: "i < logged l"
    have "lpos l (Suc i) \<noteq> lpos l 0" using lpos_eq[OF l logged_size(1)[OF l i] logged_size(2)[OF l]] by simp
    then show "E (lpos l (Suc i)) = V (hpos l i)"
      using E[OF home[OF lpos_area[OF logged_size(1)[OF l i]]]] copied_at[OF l i] by simp
  next
    fix k assume k: "k \<notin> area l" "k \<notin> hpos l ` {..<logged l}"
    then have "k \<noteq> lpos l 0" "k \<notin> lpos l ` {1..logged l}" using head_area[OF l] log_area[OF l] by auto
    then show "E k = D k" using E[OF k(2)] copied_other[of k l V D] by simp
  qed
  then show ?thesis using log_ok_disk_head[where E = E, OF l e1 e2] by (simp add: atomic_def)
qed

lemma pinned_fits:
  assumes "finite {n. 0 < rc n}" "card {n. 0 < rc n} < NBUF" "\<And>n. rc n + 1 < 2 ^ 32" "0 < rc b"
  shows "fits rc {a, b}" "more_refs rc a"
proof -
  have "{n. 0 < rc n} \<union> {a, b} = insert a {n. 0 < rc n}" using assms(4) by auto
  then show "fits rc {a, b}" using assms card_insert_le_m1 by (auto simp: fits_def card_insert_if)
  show "more_refs rc a" using assms by (auto simp: more_refs_def)
qed

text \<open>The disk at the end, with the header cleared.\<close>

lemma updated_outside:
  assumes l: "log_ok l" and V: "\<And>i. i < logged l \<Longrightarrow> W (lpos l (Suc i)) = V (hpos l i)"
    and E: "\<And>k. k \<notin> area l \<Longrightarrow> E k = D k"
  shows "outside l ((installed l W E)(lpos l 0 := h)) = outside l (updated l V D)"
proof (rule outside_eq)
  fix k assume k: "k \<notin> area l"
  then have "k \<noteq> lpos l 0" using head_area[OF l] by auto
  then show "((installed l W E)(lpos l 0 := h)) k = updated l V D k"
    using installed_at[OF l] installed_other[of k l W E] V E[OF k] by (auto simp: updated_def)
qed

definition cleared :: "klog \<Rightarrow> klog" where
  "cleared l = l\<lparr>log_lh := (log_lh l)\<lparr>lh_n := 0\<rparr>\<rparr>"

lemma cleared_simps [simp]:
  "lpos (cleared l) = lpos l" "area (cleared l) = area l" "log_dev (cleared l) = log_dev l" "lh_n (log_lh (cleared l)) = 0"
  "klog (upd_lh (\<lambda>h. h\<lparr>lh_n := 0\<rparr>) s) = cleared (klog s)"
  by (auto simp: cleared_def lpos_def area_def fun_eq_iff upd_lh_def upd_log_def)

lemma log_ok_cleared: "log_ok l \<Longrightarrow> log_ok (cleared l)"
  by (auto simp: log_ok_def cleared_def)

lemma cache_upd_lh [simp]: "cache_st p d (upd_lh f s) = cache_st p d s"
  by (simp add: upd_lh_def upd_log_def)

text \<open>The last step, of commit and of recovery: clear the header.\<close>

lemma clear_head_safe:
  assumes c: "cache_st p d s V rc {} D" "klog s = l" "log_ok l" "of_int (log_dev l) = d" "more_refs rc (lpos l 0)"
    and C: "C D" "\<And>h. get32 h 0 = 0 \<Longrightarrow> C (D(lpos l 0 := h))"
  shows "safe (disk_rely p) (crash C) (\<lambda>_ s'. \<exists>h. length h = BSIZE \<and> get32 h 0 = 0 \<and>
      cache_st p d s' (V(lpos l 0 := h)) rc {} (D(lpos l 0 := h)) \<and> klog s' = cleared l)
    (write_head (upd_lh (\<lambda>h. h\<lparr>lh_n := 0\<rparr>) s))"
proof -
  let ?s = "upd_lh (\<lambda>h. h\<lparr>lh_n := 0\<rparr>) s" and ?h = "head_data (log_lh (cleared l)) (V (lpos l 0))"
  have len: "length (V (lpos l 0)) = BSIZE" using bc.block[OF c(1) lpos_small[OF c(3) logged_size(2)[OF c(3)]]] .
  then have h: "length ?h = BSIZE" "get32 ?h 0 = 0"
    using head_data_get(1)[of "log_lh (cleared l)" "V (lpos l 0)"] by (simp_all add: BSIZE_def)
  have "safe (disk_rely p) (crash C) (\<lambda>_ s'. cache_st p d s' (V(lpos (cleared l) 0 := head_data (log_lh (cleared l)) (V (lpos (cleared l) 0)))) rc {}
      (D(lpos (cleared l) 0 := head_data (log_lh (cleared l)) (V (lpos (cleared l) 0)))) \<and> keep p ?s s') (write_head ?s)"
    by (rule write_head_safe) (use c C h log_ok_cleared in auto)
  then show ?thesis
    by (rule safe_mono) (use h c(2) in \<open>auto dest!: keep_klog intro!: exI[of _ ?h]\<close>)
qed

lemma commit_safe:
  assumes c: "cache_st p d s V rc {} D" "klog s = l" "log_ok l" "of_int (log_dev l) = d" and n: "0 < lh_n (log_lh l)"
    and r: "finite {n. 0 < rc n}" "card {n. 0 < rc n} < NBUF" "\<And>n. rc n + 1 < 2 ^ 32" "\<And>i. i < logged l \<Longrightarrow> 0 < rc (hpos l i)"
    and h: "get32 (D (lpos l 0)) 0 = 0"
  shows "safe (disk_rely p) (crash (atomic l V D)) (\<lambda>_ s'. \<exists>V' D'. cache_st p d s' V' (unpinned l True [0..<logged l] rc) {} D' \<and>
      outside l D' = outside l (updated l V D) \<and> outside l V' = outside l V \<and> get32 (D' (lpos l 0)) 0 = 0 \<and> klog s' = cleared l)
    (commit s)"
proof -
  let ?C = "atomic l V D"
  let ?V1 = "copied l V V" and ?D1 = "copied l V D"
  let ?h = "head_data (log_lh l) (?V1 (lpos l 0))"
  let ?V2 = "?V1(lpos l 0 := ?h)" and ?D2 = "?D1(lpos l 0 := ?h)"
  let ?V3 = "installed l ?V2 ?V2" and ?D3 = "installed l ?V2 ?D2"
  let ?rc = "unpinned l True [0..<logged l] rc"
  have b0: "0 < rc (hpos l 0)" using n r(4) by simp
  have mr: "more_refs rc (lpos l 0)" using pinned_fits(2)[OF r(1-3) b0] .
  have mr': "more_refs ?rc (lpos l 0)"
  proof -
    have "fits ?rc {lpos l 0, hpos l 0}" using pinned_fits(1)[OF r(1-3) b0] by (rule fits_mono) (simp add: unpinned_def)
    then show ?thesis by (rule fits_more_refs) simp
  qed
  have len: "length (?V1 (lpos l 0)) = BSIZE"
    using copied_other[OF head_not_log[OF c(3)]] bc.block[OF c(1) lpos_small[OF c(3) logged_size(2)[OF c(3)]]] by simp
  have log2: "?V2 (lpos l (Suc i)) = V (hpos l i)" if "i < logged l" for i
    using copied_at[OF c(3) that] lpos_eq[OF c(3) logged_size(1)[OF c(3) that] logged_size(2)[OF c(3)]] by simp
  have out2: "k \<notin> area l \<Longrightarrow> ?D2 k = D k" "k \<notin> area l \<Longrightarrow> ?V2 k = V k" for k
    using copied_other[of k l V] log_area[OF c(3)] head_area[OF c(3)] by auto
  have A2: "?C E" if "\<And>k. k \<notin> hpos l ` {..<logged l} \<Longrightarrow> E k = ?D2 k" for E
    using that by (intro atomic_after[OF c(3) len])
  have A1: "?C E" if "\<And>k. k \<notin> lpos l ` {1..logged l} \<Longrightarrow> E k = D k" for E
    using that h by (intro atomic_before[where D = D, OF c(3)])
  have 1: "safe (disk_rely p) (crash ?C) (\<lambda>_ s'. cache_st p d s' ?V1 rc {} ?D1 \<and> keep p s s') (write_log s)"
    unfolding write_log_def copied_def c(2)
    by (rule write_log_loop_safe[OF c]) (use pinned_fits[OF r(1-3)] r(4) A1 in auto)
  have 2: "safe (disk_rely p) (crash ?C) (\<lambda>_ s'. cache_st p d s' ?V2 rc {} ?D2 \<and> keep p s1 s') (write_head s1)"
    if "cache_st p d s1 ?V1 rc {} ?D1" "klog s1 = l" for s1
    by (rule write_head_safe[OF that c(3,4) mr]) (use A2 A1 copied_other in auto)
  have 3: "safe (disk_rely p) (crash ?C) (\<lambda>_ s'. cache_st p d s' ?V3 ?rc {} ?D3 \<and> keep p s2 s') (install_trans False s2)"
    if "cache_st p d s2 ?V2 rc {} ?D2" "klog s2 = l" for s2
    unfolding install_trans_def installed_def that(2)
    using install_trans_loop_safe[where rec = False, OF that c(3,4), of "[0..<logged l]"] pinned_fits[OF r(1-3)] r(4) A2
    by (simp add: atLeast0LessThan)
  have A3: "?C ?D3" by (rule A2) (rule installed_other)
  have out: "outside l (?D3(lpos l 0 := h)) = outside l (updated l V D)" for h
    by (rule updated_outside[OF c(3)]) (fact log2, fact out2(1))
  have A4: "?C (?D3(lpos l 0 := h))" if "get32 h 0 = 0" for h
    using out[of h] replay_empty[of "?D3(lpos l 0 := h)" l] log_ok_disk_empty[where E = "?D3(lpos l 0 := h)", OF disjI1[OF c(3)]] that
    by (simp add: atomic_def)
  have outV: "outside l (?V3(lpos l 0 := h)) = outside l V" for h
  proof -
    have "outside l (?V3(lpos l 0 := h)) = outside l (updated l V V)"
      by (rule updated_outside[OF c(3)]) (fact log2, fact out2(2))
    then show ?thesis by (simp add: outside_def updated_def fun_eq_iff)
  qed
  have 4: "safe (disk_rely p) (crash ?C) (\<lambda>_ s'. \<exists>V' D'. cache_st p d s' V' ?rc {} D' \<and> outside l D' = outside l (updated l V D) \<and>
      outside l V' = outside l V \<and> get32 (D' (lpos l 0)) 0 = 0 \<and> klog s' = cleared l) (write_head (upd_lh (\<lambda>h. h\<lparr>lh_n := 0\<rparr>) s3))"
    if "cache_st p d s3 ?V3 ?rc {} ?D3" "klog s3 = l" for s3
  proof (rule safe_mono[OF clear_head_safe[where C = ?C, OF that c(3,4) mr' A3]])
    fix v s' assume "\<exists>h. length h = BSIZE \<and> get32 h 0 = 0 \<and> cache_st p d s' (?V3(lpos l 0 := h)) ?rc {} (?D3(lpos l 0 := h)) \<and> klog s' = cleared l"
    then obtain h where h: "get32 h 0 = 0" "cache_st p d s' (?V3(lpos l 0 := h)) ?rc {} (?D3(lpos l 0 := h))" "klog s' = cleared l" by blast
    have "get32 ((?D3(lpos l 0 := h)) (lpos l 0)) 0 = 0" using h(1) by simp
    then show "\<exists>V' D'. cache_st p d s' V' ?rc {} D' \<and> outside l D' = outside l (updated l V D) \<and>
      outside l V' = outside l V \<and> get32 (D' (lpos l 0)) 0 = 0 \<and> klog s' = cleared l"
      using h(2,3) out outV by blast
  qed (use A4 in blast)+
  have "commit s = bind (write_log s) (\<lambda>_ s. bind (write_head s) (\<lambda>_ s. bind (install_trans False s) (\<lambda>_ s.
      write_head (upd_lh (\<lambda>h. h\<lparr>lh_n := 0\<rparr>) s))))"
    using n c(2) by (simp add: commit_def)
  then show ?thesis
    by (auto intro!: safe_mono[OF 1] safe_mono[OF 2] safe_mono[OF 3] 4 dest!: keep_klog simp: c(2))
qed

section \<open>Recovery\<close>

lemma read_head_safe:
  assumes c: "cache_st p d s V rc {} D" "klog s = l" "of_int (log_dev l) = d" "small (lpos l 0)" "rc (lpos l 0) = 0" "more_refs rc (lpos l 0)"
    and C: "C D"
  shows "safe (disk_rely p) (crash C) (\<lambda>_ s'. cache_st p d s' V rc {} D \<and> klog s' = disk_log l D) (read_head s)"
proof -
  let ?n = "lpos l 0"
  let ?u = "\<lambda>b s. upd_lh (\<lambda>h. h\<lparr>lh_n := sint (get32 (bdata b s) 0),
    lh_block := read_head_loop (nat (sint (get32 (bdata b s) 0))) 0 (bdata b s) (lh_block h)\<rparr>) s"
  have eq: "read_head s = bind (bread d ?n s) (\<lambda>b s. brelse b (?u b s))"
    using c(2,3) by (simp add: read_head_def log_bread_def lpos_def Let_def)
  have V: "V ?n = D ?n" using bc.clean[OF c(1,4,5)] .
  show ?thesis unfolding eq safe_bind
  proof (rule safe_mono[OF bc.rd[where C = C, OF c(1) _ c(4,6) C]])
    fix b s1 assume "cache_st p d s1 V (rc(?n := rc ?n + 1)) (insert ?n {}) D \<and> hnd d s1 b ?n \<and>
      (\<forall>x k. 0 < rc k \<and> hnd d s x k \<longrightarrow> hnd d s1 x k) \<and> keep p s s1"
    then have 1: "cache_st p d s1 V (rc(?n := rc ?n + 1)) {?n} D" "hnd d s1 b ?n" "klog s1 = l"
      using c(2) keep_klog[of p s s1] by auto
    have u: "klog (?u b s1) = disk_log l D" using bc.get[OF 1(1,2)] V 1(3)
      by (simp add: disk_log_def upd_lh_def upd_log_def Let_def)
    have h: "hnd d (?u b s1) b ?n" using 1(2) by (simp add: upd_lh_def upd_log_def)
    have "cache_st p d (?u b s1) V (rc(?n := rc ?n + 1)) {?n} D" using 1(1) by simp
    from bc.rel[OF this h] V obtain s2 where 2: "brelse b (?u b s1) = Ok () s2"
      "cache_st p d s2 V ((rc(?n := rc ?n + 1))(?n := (rc(?n := rc ?n + 1)) ?n - 1)) ({?n} - {?n}) D" "keep p (?u b s1) s2" by blast
    have "(rc(?n := rc ?n + 1))(?n := (rc(?n := rc ?n + 1)) ?n - 1) = rc" by simp
    then show "safe (disk_rely p) (crash C) (\<lambda>_ s'. cache_st p d s' V rc {} D \<and> klog s' = disk_log l D) (brelse b (?u b s1))"
      using 2 u keep_klog[OF 2(3)] by simp
  qed simp_all
qed

text \<open>Recovery may itself be interrupted at any point: the next attempt reaches the same contents.\<close>

definition recovers :: "klog \<Rightarrow> (u32 \<Rightarrow> u8 list) \<Rightarrow> (u32 \<Rightarrow> u8 list) \<Rightarrow> bool" where
  "recovers l D E \<longleftrightarrow> log_ok (disk_log l E) \<and> outside l (replay l E) = outside l (replay l D)"

lemma recovers_partial:
  assumes l: "log_ok (disk_log l D)" and E: "\<And>k. k \<notin> hpos (disk_log l D) ` {..<logged (disk_log l D)} \<Longrightarrow> E k = D k"
  shows "outside l (replay l E) = outside l (updated (disk_log l D) (installed (disk_log l D) D D) D)"
proof -
  let ?l = "disk_log l D"
  have home: "E k = D k" if "k \<in> area ?l" for k
  proof (rule E)
    show "k \<notin> hpos ?l ` {..<logged ?l}" using that hpos_area[OF l] by (metis imageE lessThan_iff)
  qed
  have "outside ?l (replay ?l E) = outside ?l (updated ?l (installed ?l D D) D)"
  proof (rule replay_committed[OF l])
    have "E (lpos ?l 0) = D (lpos l 0)" using home[OF head_area[OF l]] by simp
    then show "get32 (E (lpos ?l 0)) 0 = of_int (lh_n (log_lh ?l))"
      "i < logged ?l \<Longrightarrow> get32 (E (lpos ?l 0)) (4 + 4 * i) = hpos ?l i" for i
      using disk_log_head(1)[of D l] disk_log_head(2)[of i l D] by simp_all
    fix i assume i: "i < logged ?l"
    show "E (lpos ?l (Suc i)) = installed ?l D D (hpos ?l i)"
      using home[OF lpos_area[OF logged_size(1)[OF l i]]] installed_at[OF l i] by simp
  qed (use E in blast)
  then show ?thesis by (simp add: outside_def replay_def fun_eq_iff)
qed

lemma recover_safe:
  assumes c: "cache_st p d s V (\<lambda>_. 0) {} D" "klog s = l" "of_int (log_dev l) = d" and l: "log_ok (disk_log l D)"
  shows "safe (disk_rely p) (crash (recovers l D)) (\<lambda>_ s'. \<exists>V' D'. cache_st p d s' V' (\<lambda>_. 0) {} D' \<and>
      outside l D' = outside l (replay l D) \<and> get32 (D' (lpos l 0)) 0 = 0 \<and> klog s' = cleared (disk_log l D))
    (recover_from_log s)"
proof -
  let ?l = "disk_log l D" and ?C = "recovers l D"
  have sm: "small (lpos l i)" if "i < nat (log_size ?l)" for i using lpos_small[OF l that] by simp
  have s0: "small (lpos l 0)" using sm logged_size(2)[OF l] .
  have VD: "V (lpos l (Suc i)) = D (lpos l (Suc i))" if "i < logged ?l" for i
    using bc.clean[OF c(1) sm[OF logged_size(1)[OF l that]]] by simp
  have mr: "more_refs (\<lambda>_. 0) a" for a by (simp add: more_refs_def NBUF_def MAXOPBLOCKS_def)
  have ft: "fits (\<lambda>_. 0) {a, b}" for a b using card_insert_le_m1[of 2 "{b}" a] by (simp add: fits_def NBUF_def MAXOPBLOCKS_def)
  let ?U = "updated ?l (installed ?l D D) D"
  have rD: "outside l (replay l D) = outside l ?U" by (rule recovers_partial[OF l]) simp
  have A: "?C E" if "\<And>k. k \<notin> hpos ?l ` {..<logged ?l} \<Longrightarrow> E k = D k" for E
  proof -
    have "lpos l 0 \<notin> hpos ?l ` {..<logged ?l}" using head_area[OF l] hpos_area[OF l] by (metis disk_log_simps(1) imageE lessThan_iff)
    then have "disk_log l E = ?l" using that by (intro disk_log_cong) simp
    then show ?thesis using recovers_partial[OF l that] rD l by (simp add: recovers_def)
  qed
  let ?V1 = "installed ?l V V" and ?D1 = "installed ?l V D"
  have un: "unpinned ?l (\<not> True) ts (\<lambda>_. 0) = (\<lambda>_. 0)" for ts by (simp add: unpinned_def fun_eq_iff)
  have out: "outside l (?D1(lpos l 0 := h)) = outside l (replay l D)" for h
  proof -
    have "outside ?l (?D1(lpos ?l 0 := h)) = outside ?l ?U"
      by (rule updated_outside[OF l]) (use VD installed_at[OF l] in simp_all)
    then show ?thesis using rD by (simp add: outside_def fun_eq_iff)
  qed
  have A1: "?C (?D1(lpos l 0 := h))" if "get32 h 0 = 0" for h
    using out[of h] replay_empty[of "?D1(lpos l 0 := h)" l] that log_ok_disk_empty[where E = "?D1(lpos l 0 := h)", OF disjI2[OF l]]
    by (simp add: recovers_def)
  have 1: "safe (disk_rely p) (crash ?C) (\<lambda>_ s'. cache_st p d s' V (\<lambda>_. 0) {} D \<and> klog s' = ?l) (read_head s)"
    by (rule read_head_safe[OF c s0 _ mr]) (use l in \<open>auto simp: recovers_def\<close>)
  have 2: "safe (disk_rely p) (crash ?C) (\<lambda>_ s'. cache_st p d s' ?V1 (\<lambda>_. 0) {} ?D1 \<and> keep p s1 s') (install_trans True s1)"
    if "cache_st p d s1 V (\<lambda>_. 0) {} D" "klog s1 = ?l" for s1
    using install_trans_loop_safe[where rec = True, OF that l, of "[0..<logged ?l]"] c(3) ft A
    unfolding install_trans_def installed_def that(2) un by (simp add: atLeast0LessThan)
  have 3: "safe (disk_rely p) (crash ?C) (\<lambda>_ s'. \<exists>V' D'. cache_st p d s' V' (\<lambda>_. 0) {} D' \<and>
      outside l D' = outside l (replay l D) \<and> get32 (D' (lpos l 0)) 0 = 0 \<and> klog s' = cleared ?l) (write_head (upd_lh (\<lambda>h. h\<lparr>lh_n := 0\<rparr>) s2))"
    if "cache_st p d s2 ?V1 (\<lambda>_. 0) {} ?D1" "klog s2 = ?l" for s2
  proof (rule safe_mono[OF clear_head_safe[where C = ?C, OF that l _ mr]])
    show "?C ?D1" by (rule A) (rule installed_other)
    show "get32 h 0 = 0 \<Longrightarrow> ?C (?D1(lpos ?l 0 := h))" for h using A1 by simp
    fix v s' assume "\<exists>h. length h = BSIZE \<and> get32 h 0 = 0 \<and> cache_st p d s' (?V1(lpos ?l 0 := h)) (\<lambda>_. 0) {} (?D1(lpos ?l 0 := h)) \<and>
      klog s' = cleared ?l"
    then obtain h where h: "get32 h 0 = 0" "cache_st p d s' (?V1(lpos l 0 := h)) (\<lambda>_. 0) {} (?D1(lpos l 0 := h))" "klog s' = cleared ?l" by auto
    have "get32 ((?D1(lpos l 0 := h)) (lpos l 0)) 0 = 0" using h(1) by simp
    then show "\<exists>V' D'. cache_st p d s' V' (\<lambda>_. 0) {} D' \<and> outside l D' = outside l (replay l D) \<and> get32 (D' (lpos l 0)) 0 = 0 \<and>
      klog s' = cleared ?l" using h(2,3) out by blast
  qed (use c(3) in simp_all)
  show ?thesis unfolding recover_from_log_def
    by (auto intro!: safe_mono[OF 1] safe_mono[OF 2] 3 dest!: keep_klog)
qed

end
