(* ===== verification/TxFacts.thy ===== *)
theory TxFacts
  imports LogFacts
begin

text \<open>
  Transactions: what \<^verbatim>\<open>begin_op\<close>, \<^verbatim>\<open>log_write\<close> and \<^verbatim>\<open>end_op\<close> promise to the file system. \<open>tx_inv\<close> is the invariant of a
  process inside a transaction: the blocks listed in the header are pinned in the cache, every other block is the same in
  the cache and on the disk, and the header on the disk is empty.
\<close>

section \<open>The invariant\<close>

abbreviation homes :: "klog \<Rightarrow> u32 set" where "homes l \<equiv> hpos l ` {..<logged l}"

definition tx_rc :: "klog \<Rightarrow> u32 set \<Rightarrow> u32 \<Rightarrow> nat" where
  "tx_rc l H k = (if k \<in> H then 1 else 0) + (if k \<in> homes l then 1 else 0)"

abbreviation ldev :: "'z lgstate_scheme \<Rightarrow> u32" where "ldev s \<equiv> of_int (log_dev (klog s))"

definition tx_inv :: "nat \<Rightarrow> 'z lgstate_scheme \<Rightarrow> (u32 \<Rightarrow> u8 list) \<Rightarrow> u32 set \<Rightarrow> (u32 \<Rightarrow> u8 list) \<Rightarrow> bool" where
  "tx_inv p s V H D \<longleftrightarrow> cache_st p (ldev s) s V (tx_rc (klog s) H) H D \<and> log_ok (klog s) \<and> get32 (D (lpos (klog s) 0)) 0 = 0 \<and>
     finite H \<and> (\<forall>k. small k \<longrightarrow> k \<notin> area (klog s) \<union> H \<union> homes (klog s) \<longrightarrow> V k = D k)"

lemma tx_invD:
  assumes "tx_inv p s V H D"
  shows "cache_st p (ldev s) s V (tx_rc (klog s) H) H D" "log_ok (klog s)" "get32 (D (lpos (klog s) 0)) 0 = 0" "finite H"
    "small k \<Longrightarrow> k \<notin> area (klog s) \<Longrightarrow> k \<notin> H \<Longrightarrow> k \<notin> homes (klog s) \<Longrightarrow> V k = D k"
  using assms by (auto simp: tx_inv_def)

lemma tx_rc_refs: "{k. 0 < tx_rc l H k} = H \<union> homes l"
  by (auto simp: tx_rc_def)

lemma card_homes: "card (homes l) \<le> logged l"
  using card_image_le[of "{..<logged l}" "hpos l"] by simp

lemma tx_rc_small: "tx_rc l H k + 1 < 2 ^ 32"
  by (simp add: tx_rc_def)

text \<open>In a transaction everything outside the log is as the cache shows it.\<close>

lemma tx_updated:
  assumes "tx_inv p s V {} D"
  shows "outside (klog s) (updated (klog s) V D) = outside (klog s) V"
  using tx_invD(5)[OF assms] by (auto simp: outside_def updated_def fun_eq_iff)

section \<open>Recording a block\<close>

lemma log_find_eq:
  assumes "\<And>j. i \<le> j \<Longrightarrow> j < i + k \<Longrightarrow> of_int (blk j) \<noteq> n"
  shows "log_find k i blk n = i + k"
  using assms by (induction k arbitrary: i) auto

lemma log_find_hit:
  assumes "i \<le> m" "m < i + k" "of_int (blk m) = n"
  shows "of_int (blk (log_find k i blk n)) = n \<and> log_find k i blk n < i + k"
  using assms
proof (induction k arbitrary: i)
  case (Suc k)
  show ?case
  proof (cases "of_int (blk i) = n")
    case False
    then have "Suc i \<le> m" using Suc.prems by (metis Suc_leI le_neq_implies_less)
    then show ?thesis using Suc.IH[of "Suc i"] Suc.prems False by simp
  qed simp
qed simp

lemma cache_norm [simp]: "cache_st p d (norm s) = cache_st p d s" "hnd d (norm s) = hnd d s"
  by (auto simp: cache_st_def hnd_def fun_eq_iff)

lemma bpin_run:
  "hart_ok s \<Longrightarrow> lock_free BcacheLock s \<Longrightarrow> bpin b s = Ok () (norm (upd_buf b (\<lambda>q. q\<lparr>b_refcnt := b_refcnt q + 1\<rparr>) s))"
  unfolding bpin_def by (rule with_lock_pure) (simp_all add: upd_buf_def)

lemma pinned_cache:
  assumes "cache_st p d s V rc H D" "hnd d s b n" "rc n + 1 < 2 ^ 32"
  shows "cache_st p d (upd_buf b (\<lambda>q. q\<lparr>b_refcnt := b_refcnt q + 1\<rparr>) s) V (rc(n := rc n + 1)) H D"
proof -
  have q: "quiet p s" using cache_stD(1)[OF assms(1)] .
  obtain s' where "bpin b s = Ok () s'" "cache_st p d s' V (rc(n := rc n + 1)) H D" using bpin_eq[OF assms] by blast
  moreover have "bpin b s = Ok () (norm (upd_buf b (\<lambda>q. q\<lparr>b_refcnt := b_refcnt q + 1\<rparr>) s))"
    by (rule bpin_run[OF quietD(1)[OF q] quietD(4)[OF q]])
  ultimately have "cache_st p d (norm (upd_buf b (\<lambda>q. q\<lparr>b_refcnt := b_refcnt q + 1\<rparr>) s)) V (rc(n := rc n + 1)) H D" by simp
  then show ?thesis unfolding cache_norm .
qed

text \<open>The log with block \<open>n\<close> appended to the header.\<close>

definition appended :: "u32 \<Rightarrow> klog \<Rightarrow> klog" where
  "appended n l = l\<lparr>log_lh := (log_lh l)\<lparr>lh_n := lh_n (log_lh l) + 1, lh_block := (lh_block (log_lh l))(logged l := sint n)\<rparr>\<rparr>"

lemma appended_simps [simp]:
  "lpos (appended n l) = lpos l" "area (appended n l) = area l" "log_dev (appended n l) = log_dev l"
  "log_size (appended n l) = log_size l" "log_start (appended n l) = log_start l" "lh_n (log_lh (appended n l)) = lh_n (log_lh l) + 1"
  "outstanding (appended n l) = outstanding l" "committing (appended n l) = committing l"
  by (auto simp: appended_def lpos_def area_def fun_eq_iff)

lemma logged_appended: "0 \<le> lh_n (log_lh l) \<Longrightarrow> logged (appended n l) = Suc (logged l)"
  by simp

lemma hpos_appended: "hpos (appended n l) i = (if i = logged l then n else hpos l i)"
  by (simp add: hpos_def appended_def)

lemma homes_appended: "0 \<le> lh_n (log_lh l) \<Longrightarrow> homes (appended n l) = insert n (homes l)"
  by (auto simp: logged_appended hpos_appended lessThan_Suc image_iff)

lemma sint_small: "small n \<Longrightarrow> 0 \<le> sint n \<and> sint n < 2 ^ 31"
proof -
  assume "small n"
  then have "int (unat n) < int (2 ^ 31)" unfolding small_def by (rule of_nat_less_iff[THEN iffD2])
  then have u: "uint n < 2 ^ 31" by simp
  have "sint (of_int (uint n) :: u32) = uint n" by (rule sint_of_int_32) (use u order_trans[OF _ uint_ge_0[of n]] in simp_all)
  then show ?thesis using u by simp
qed

lemma log_ok_appended:
  assumes l: "log_ok l" and n: "small n" "n \<notin> area l" "n \<notin> homes l" "lh_n (log_lh l) < log_size l - 1"
  shows "log_ok (appended n l)"
proof -
  have 0: "0 \<le> lh_n (log_lh l)" using l by (simp add: log_ok_def)
  have b: "lh_block (log_lh (appended n l)) = (lh_block (log_lh l))(logged l := sint n)" by (simp add: appended_def)
  have "sint n \<notin> lh_block (log_lh l) ` {..<logged l}"
  proof
    assume "sint n \<in> lh_block (log_lh l) ` {..<logged l}"
    then obtain i where "i < logged l" "sint n = lh_block (log_lh l) i" by auto
    then have "hpos l i = n" by (simp add: hpos_def flip: \<open>sint n = lh_block (log_lh l) i\<close>)
    then show False using n(3) \<open>i < logged l\<close> by blast
  qed
  moreover have "inj_on (lh_block (log_lh l)) {..<logged l}" using l by (simp add: log_ok_def)
  ultimately have inj: "inj_on ((lh_block (log_lh l))(logged l := sint n)) {..<Suc (logged l)}"
    by (auto simp: lessThan_Suc inj_on_fun_updI image_iff)
  have blk: "0 \<le> lh_block (log_lh (appended n l)) i \<and> lh_block (log_lh (appended n l)) i < 2 ^ 31 \<and> hpos (appended n l) i \<notin> area l"
    if "i < Suc (logged l)" for i
  proof (cases "i = logged l")
    case False
    then have "i < logged l" using that by simp
    then have "0 \<le> lh_block (log_lh l) i \<and> lh_block (log_lh l) i < 2 ^ 31 \<and> hpos l i \<notin> area l" using l unfolding log_ok_def by blast
    then show ?thesis using False by (simp add: b hpos_appended)
  qed (use sint_small[OF n(1)] n(2) in \<open>simp add: b hpos_appended\<close>)
  have geo: "0 \<le> log_start l" "log_size l \<le> int LOGSIZE" "log_start l + log_size l < 2 ^ 31" using l by (simp_all add: log_ok_def)
  have sz: "nat (lh_n (log_lh l) + 1) = Suc (logged l)" using 0 by simp
  show ?thesis unfolding log_ok_def appended_simps sz
    using geo n(4) 0 blk inj b by (intro conjI allI impI) simp_all
qed

lemma tx_rc_appended:
  assumes "0 \<le> lh_n (log_lh l)" "n \<in> H" "n \<notin> homes l"
  shows "tx_rc (appended n l) H = (tx_rc l H)(n := tx_rc l H n + 1)"
proof
  fix k show "tx_rc (appended n l) H k = ((tx_rc l H)(n := tx_rc l H n + 1)) k"
    unfolding tx_rc_def homes_appended[OF assms(1)] using assms(2,3) by (cases "k = n") simp_all
qed

text \<open>
  \<^verbatim>\<open>log_write\<close> records a block once: a block already in the header is absorbed, a new one is appended
  and pinned.
\<close>

lemma log_write_absorb:
  assumes t: "tx_inv p s V H D" and h: "b_blockno (bufs s b) \<in> homes (klog s)"
    and g: "lhn s < int LOGSIZE" "lhn s < log_size (klog s) - 1" "1 \<le> outstanding (klog s)"
  shows "log_write b s = Ok () (norm s)"
proof -
  note q = quietD[OF cache_stD(1)[OF tx_invD(1)[OF t]]]
  let ?n = "b_blockno (bufs s b)" and ?l = "klog s"
  let ?i = "log_find (logged ?l) 0 (lhblock s) ?n"
  obtain m where m: "m < logged ?l" "of_int (lhblock s m) = ?n" using h by (auto simp: hpos_def)
  have i: "of_int (lhblock s ?i) = ?n" "?i < logged ?l" using log_find_hit[of 0 m "logged ?l" "lhblock s" ?n] m by auto
  have z: "0 \<le> lhblock s ?i" "lhblock s ?i < 2 ^ 31" using tx_invD(2)[OF t] i(2) unfolding log_ok_def by blast+
  have "sint (of_int (lhblock s ?i) :: u32) = lhblock s ?i" by (rule sint_of_int_32[OF order_trans[OF _ z(1)] z(2)]) simp
  then have sn: "sint ?n = lhblock s ?i" unfolding i(1) .
  have u: "upd_lh (\<lambda>h. h\<lparr>lh_block := (lh_block h)(?i := sint ?n)\<rparr>) (grab LogLock s) = grab LogLock s"
    unfolding sn by (simp add: upd_lh_def upd_log_def)
  have "int ?i \<noteq> lhn s" using i(2) by linarith
  then show ?thesis unfolding log_write_def using q g u
    by (intro with_lock_pure) (simp_all add: Let_def)
qed

lemma log_write_append:
  assumes t: "tx_inv p s V H D" and h: "b_blockno (bufs s b) = n" "n \<notin> homes (klog s)"
    and g: "lhn s < int LOGSIZE" "lhn s < log_size (klog s) - 1" "1 \<le> outstanding (klog s)"
  shows "log_write b s =
    Ok () (norm ((upd_buf b (\<lambda>q. q\<lparr>b_refcnt := b_refcnt q + 1\<rparr>) s)\<lparr>klog := appended n (klog s)\<rparr>))"
proof -
  note q = quietD[OF cache_stD(1)[OF tx_invD(1)[OF t]]]
  let ?l = "klog s"
  have n0: "0 \<le> lhn s" using tx_invD(2)[OF t] by (simp add: log_ok_def)
  have f: "log_find (logged ?l) 0 (lhblock s) n = logged ?l"
    using log_find_eq[of 0 "logged ?l" "lhblock s" n] h(2) by (auto simp: hpos_def)
  let ?u = "upd_buf b (\<lambda>q. q\<lparr>b_refcnt := b_refcnt q + 1\<rparr>)"
  let ?s1 = "upd_lh (\<lambda>h. h\<lparr>lh_block := (lh_block h)(logged ?l := sint n)\<rparr>) s"
  have s1: "upd_lh (\<lambda>h. h\<lparr>lh_block := (lh_block h)(logged ?l := sint n)\<rparr>) (grab LogLock s) = grab LogLock ?s1"
    by (simp add: upd_lh_def upd_log_def)
  have "hart_ok ?s1" "lock_free BcacheLock ?s1" using q by (simp_all add: upd_lh_def upd_log_def)
  then have "bpin b (grab LogLock ?s1) = Ok () (norm (?u (grab LogLock ?s1)))"
    by (intro bpin_run) (simp_all add: hart_ok_grab)
  also have "norm (?u (grab LogLock ?s1)) = grab LogLock (?u ?s1)"
    using \<open>hart_ok ?s1\<close> by (simp add: upd_buf_def)
  finally have pin: "bpin b (grab LogLock ?s1) = Ok () (grab LogLock (?u ?s1))" .
  have fin: "upd_lh (\<lambda>h. h\<lparr>lh_n := lh_n h + 1\<rparr>) (grab LogLock (?u ?s1)) = grab LogLock ((?u s)\<lparr>klog := appended n ?l\<rparr>)"
    by (simp add: upd_lh_def upd_log_def upd_buf_def appended_def)
  have ln: "lhn ?s1 = lhn s" by (simp add: upd_lh_def upd_log_def)
  show ?thesis unfolding log_write_def using q g n0
    by (intro with_lock_pure) (simp_all add: Let_def h(1) f s1 pin fin ln upd_buf_def[of b _ s])
qed

lemma tx_inv_norm [simp]: "tx_inv p (norm s) V H D = tx_inv p s V H D"
  by (simp add: tx_inv_def)

lemma tx_inv_append:
  assumes t: "tx_inv p s V H D" and h: "hnd (ldev s) s b n" "n \<in> H" "n \<notin> area (klog s)" "n \<notin> homes (klog s)"
    and g: "lhn s < log_size (klog s) - 1"
  shows "tx_inv p ((upd_buf b (\<lambda>q. q\<lparr>b_refcnt := b_refcnt q + 1\<rparr>) s)\<lparr>klog := appended n (klog s)\<rparr>) V H D"
proof -
  note T = tx_invD[OF t]
  let ?l = "klog s" and ?s = "upd_buf b (\<lambda>q. q\<lparr>b_refcnt := b_refcnt q + 1\<rparr>) s"
  have n0: "0 \<le> lhn s" using T(2) by (simp add: log_ok_def)
  have sm: "small n" using cache_stD(10)[OF T(1) h(1)] by simp
  have "cache_st p (ldev s) ?s V ((tx_rc ?l H)(n := tx_rc ?l H n + 1)) H D" by (rule pinned_cache[OF T(1) h(1) tx_rc_small])
  then have c: "cache_st p (ldev s) ?s V (tx_rc (appended n ?l) H) H D" using tx_rc_appended[OF n0 h(2,4)] by simp
  have ok: "log_ok (appended n ?l)" by (rule log_ok_appended[OF T(2) sm h(3,4) g])
  have "V k = D k" if "small k" "k \<notin> area ?l \<union> H \<union> homes (appended n ?l)" for k
    using T(5)[OF that(1)] that(2) unfolding homes_appended[OF n0] by simp
  then show ?thesis unfolding tx_inv_def using c ok T(3,4) by simp
qed

lemma log_write_tx:
  assumes t: "tx_inv p s V H D" and h: "hnd (ldev s) s b n" "n \<in> H" "n \<notin> area (klog s)"
    and g: "lhn s < int LOGSIZE" "lhn s < log_size (klog s) - 1" "1 \<le> outstanding (klog s)"
  shows "\<exists>s'. log_write b s = Ok () s' \<and> tx_inv p s' V H D \<and> homes (klog s') = insert n (homes (klog s)) \<and>
    klog s' = (if n \<in> homes (klog s) then klog s else appended n (klog s))"
proof -
  have b: "b_blockno (bufs s b) = n" using h(1) by (simp add: hnd_def)
  have n0: "0 \<le> lhn s" using tx_invD(2)[OF t] by (simp add: log_ok_def)
  show ?thesis
  proof (cases "n \<in> homes (klog s)")
    case True
    then show ?thesis using log_write_absorb[OF t _ g] b t by (intro exI[of _ "norm s"]) auto
  next
    case False
    let ?s = "(upd_buf b (\<lambda>q. q\<lparr>b_refcnt := b_refcnt q + 1\<rparr>) s)\<lparr>klog := appended n (klog s)\<rparr>"
    have "tx_inv p (norm ?s) V H D" unfolding tx_inv_norm by (rule tx_inv_append[OF t h False g(2)])
    moreover have "klog (norm ?s) = appended n (klog s)" by simp
    ultimately show ?thesis
      unfolding log_write_append[OF t b False g] using homes_appended[OF n0, of n] False
      by (intro exI[of _ "norm ?s"] conjI) (simp_all only: if_False simp_thms)
  qed
qed

section \<open>The counters of the log\<close>

lemma counters_simps [simp]:
  "lpos (outstanding_update f l) = lpos l" "lpos (committing_update g l) = lpos l"
  "hpos (outstanding_update f l) = hpos l" "hpos (committing_update g l) = hpos l"
  "area (outstanding_update f l) = area l" "area (committing_update g l) = area l"
  "log_ok (outstanding_update f l) = log_ok l" "log_ok (committing_update g l) = log_ok l"
  "disk_log (outstanding_update f l) D = outstanding_update f (disk_log l D)"
  "disk_log (committing_update g l) D = committing_update g (disk_log l D)"
  "replay (outstanding_update f l) = replay l" "replay (committing_update g l) = replay l"
  "outside (outstanding_update f l) = outside l" "outside (committing_update g l) = outside l"
  "updated (outstanding_update f l) = updated l" "updated (committing_update g l) = updated l"
  "tx_rc (outstanding_update f l) = tx_rc l" "tx_rc (committing_update g l) = tx_rc l"
proof -
  show p: "lpos (outstanding_update f l) = lpos l" "lpos (committing_update g l) = lpos l"
    "hpos (outstanding_update f l) = hpos l" "hpos (committing_update g l) = hpos l"
    by (simp_all add: lpos_def hpos_def fun_eq_iff)
  then show a: "area (outstanding_update f l) = area l" "area (committing_update g l) = area l" by (simp_all add: area_def)
  show "log_ok (outstanding_update f l) = log_ok l" "log_ok (committing_update g l) = log_ok l" by (simp_all add: log_ok_def p a)
  show "disk_log (outstanding_update f l) D = outstanding_update f (disk_log l D)"
    "disk_log (committing_update g l) D = committing_update g (disk_log l D)" by (simp_all add: disk_log_def p Let_def)
  show "replay (outstanding_update f l) = replay l" "replay (committing_update g l) = replay l"
    by (simp_all add: replay_def p fun_eq_iff)
  show "outside (outstanding_update f l) = outside l" "outside (committing_update g l) = outside l"
    by (simp_all add: outside_def a fun_eq_iff)
  show "updated (outstanding_update f l) = updated l" "updated (committing_update g l) = updated l"
    by (simp_all add: updated_def p fun_eq_iff)
  show "tx_rc (outstanding_update f l) = tx_rc l" "tx_rc (committing_update g l) = tx_rc l"
    by (simp_all add: tx_rc_def p fun_eq_iff)
qed

lemma atomic_counters [simp]: "atomic (outstanding_update f l) = atomic l" "atomic (committing_update g l) = atomic l"
  by (simp_all add: atomic_def fun_eq_iff)

lemma tx_inv_counters [simp]:
  "tx_inv p (klog_update (\<lambda>_. outstanding_update f (klog s)) s) V H D = tx_inv p s V H D"
  "tx_inv p (klog_update (\<lambda>_. committing_update g (klog s)) s) V H D = tx_inv p s V H D"
  by (simp_all add: tx_inv_def)

section \<open>Beginning and ending a transaction\<close>

lemma begin_op_run:
  assumes "quiet p s" "committing (klog s) = 0" "lhn s + (outstanding (klog s) + 1) * int MAXOPBLOCKS \<le> int LOGSIZE"
  shows "begin_op s = Ok () (norm (s\<lparr>klog := (klog s)\<lparr>outstanding := outstanding (klog s) + 1\<rparr>\<rparr>))"
proof -
  note q = quietD[OF assms(1)]
  let ?t = "s\<lparr>klog := (klog s)\<lparr>outstanding := outstanding (klog s) + 1\<rparr>\<rparr>"
  have "release LogLock (grab LogLock ?t) = Ok () (norm ?t)" using q by (intro release_grab) simp_all
  then show ?thesis unfolding begin_op_def acquire_lock_free[OF q(4)] bind.simps
    using assms(2,3) by (subst begin_op_loop.simps) (simp add: upd_log_def)
qed

lemma wake_and_release:
  assumes "quiet p s" "\<And>p. lk \<noteq> ProcLock p"
  shows "bind (wakeup ch (grab lk s)) (\<lambda>_ s. release lk s) = Ok () (norm (woken {..<NPROC} ch s))"
proof -
  note q = quietD[OF assms(1)]
  have "release lk (grab lk (woken {..<NPROC} ch s)) = Ok () (norm (woken {..<NPROC} ch s))"
    using q by (intro release_grab) (simp_all add: woken_frame)
  then show ?thesis using wakeup_in_section[OF q(1,5) assms(2)] by simp
qed

lemma cache_woken [simp]: "cache_st p d (woken P ch s) = cache_st p d s" "klog (woken P ch s') = klog s'"
proof -
  have h: "hnd d (woken P ch s) = hnd d s" by (simp add: hnd_def fun_eq_iff)
  have "p_pid (procs (woken P ch s) p) = p_pid (procs s p)" by (simp add: woken_def wake_proc_def)
  then show "cache_st p d (woken P ch s) = cache_st p d s" by (simp add: cache_st_def h fun_eq_iff)
  show "klog (woken P ch s') = klog s'" by (simp add: woken_def)
qed

lemma tx_inv_woken [simp]: "tx_inv p (woken P ch s) V H D = tx_inv p s V H D"
  by (simp add: tx_inv_def)

lemma commit_tx:
  assumes t: "tx_inv p s V {} D"
  shows "safe (disk_rely p) (crash (atomic (klog s) V D)) (\<lambda>_ s'. \<exists>V' D'. tx_inv p s' V' {} D' \<and>
      outside (klog s) D' = outside (klog s) V \<and> outside (klog s) V' = outside (klog s) V \<and> klog s' = cleared (klog s)) (commit s)"
proof (cases "0 < lhn s")
  case False
  note T = tx_invD[OF t]
  have n: "lhn s = 0" using T(2) False by (simp add: log_ok_def)
  then have c: "cleared (klog s) = klog s" by (simp add: cleared_def)
  have "outside (klog s) D = outside (klog s) V" using tx_updated[OF t] n by (simp add: updated_def[abs_def])
  then show ?thesis using False t c by (auto simp: commit_def)
next
  case True
  note T = tx_invD[OF t]
  let ?l = "klog s" and ?rc = "tx_rc (klog s) {}"
  have fin: "finite {n. 0 < ?rc n}" unfolding tx_rc_refs by simp
  have crd: "card {n. 0 < ?rc n} < NBUF"
    using card_homes[of ?l] T(2) unfolding tx_rc_refs by (auto simp: log_ok_def NBUF_def LOGSIZE_def)
  have un: "unpinned ?l True [0..<logged ?l] ?rc = tx_rc (cleared ?l) {}"
    by (auto simp: unpinned_def tx_rc_def fun_eq_iff)
  have pin: "i < logged ?l \<Longrightarrow> 0 < ?rc (hpos ?l i)" for i by (simp add: tx_rc_def)
  have main: "safe (disk_rely p) (crash (atomic ?l V D)) (\<lambda>_ s'. \<exists>V' D'. cache_st p (ldev s) s' V' (unpinned ?l True [0..<logged ?l] ?rc) {} D' \<and>
      outside ?l D' = outside ?l (updated ?l V D) \<and> outside ?l V' = outside ?l V \<and> get32 (D' (lpos ?l 0)) 0 = 0 \<and> klog s' = cleared ?l) (commit s)"
    by (rule commit_safe[OF T(1) refl T(2) refl True fin crd tx_rc_small pin T(3)])
  show ?thesis
  proof (rule safe_mono[OF main])
    fix u s' assume "\<exists>V' D'. cache_st p (ldev s) s' V' (unpinned ?l True [0..<logged ?l] ?rc) {} D' \<and>
      outside ?l D' = outside ?l (updated ?l V D) \<and> outside ?l V' = outside ?l V \<and> get32 (D' (lpos ?l 0)) 0 = 0 \<and> klog s' = cleared ?l"
    then obtain V' D' where r: "cache_st p (ldev s) s' V' (tx_rc (cleared ?l) {}) {} D'" "outside ?l D' = outside ?l V"
      "outside ?l V' = outside ?l V" "get32 (D' (lpos ?l 0)) 0 = 0" "klog s' = cleared ?l"
      unfolding un tx_updated[OF t] by blast
    have "V' k = D' k" if "small k" "k \<notin> area ?l" for k
      using fun_cong[OF r(2), of k] fun_cong[OF r(3), of k] that by (simp add: outside_def)
    then have "tx_inv p s' V' {} D'" using r(1,4,5) log_ok_cleared[OF T(2)] by (simp add: tx_inv_def)
    then show "\<exists>V' D'. tx_inv p s' V' {} D' \<and> outside ?l D' = outside ?l V \<and> outside ?l V' = outside ?l V \<and> klog s' = cleared ?l"
      using r by blast
  qed simp
qed

lemma end_op_safe:
  assumes t: "tx_inv p s V {} D" and o: "outstanding (klog s) = 1" "committing (klog s) = 0"
  shows "safe (disk_rely p) (crash (atomic (klog s) V D)) (\<lambda>_ s'. \<exists>V' D'. tx_inv p s' V' {} D' \<and>
      outside (klog s) D' = outside (klog s) V \<and> outside (klog s) V' = outside (klog s) V \<and>
      klog s' = (cleared (klog s))\<lparr>outstanding := 0\<rparr>) (end_op s)"
proof -
  note q = quietD[OF cache_stD(1)[OF tx_invD(1)[OF t]]]
  let ?l = "klog s" let ?l1 = "?l\<lparr>outstanding := 0, committing := 1\<rparr>" let ?s1 = "norm (s\<lparr>klog := ?l1\<rparr>)"
  have r1: "release LogLock (grab LogLock (s\<lparr>klog := ?l1\<rparr>)) = Ok () ?s1" using q by (intro release_grab) simp_all
  have eq: "end_op s = bind (commit ?s1) (\<lambda>_ s. bind (acquire LogLock s) (\<lambda>_ s.
      bind (wakeup (Some ChanLog) (upd_log (\<lambda>l. l\<lparr>committing := 0\<rparr>) s)) (\<lambda>_ s. release LogLock s)))"
    unfolding end_op_def acquire_lock_free[OF q(4)] bind.simps Let_def using r1 o by (simp add: upd_log_def)
  have t1: "tx_inv p ?s1 V {} D" using t by (simp add: tx_inv_def)
  have k1: "klog ?s1 = ?l1" by simp
  show ?thesis unfolding eq
  proof (rule safe_seq)
    show "safe (disk_rely p) (crash (atomic ?l V D)) (\<lambda>_ s'. \<exists>V' D'. tx_inv p s' V' {} D' \<and>
      outside ?l D' = outside ?l V \<and> outside ?l V' = outside ?l V \<and> klog s' = cleared ?l1) (commit ?s1)"
      using commit_tx[OF t1] unfolding k1 by simp
    fix u s2 assume "\<exists>V' D'. tx_inv p s2 V' {} D' \<and> outside ?l D' = outside ?l V \<and> outside ?l V' = outside ?l V \<and> klog s2 = cleared ?l1"
    then obtain V' D' where r: "tx_inv p s2 V' {} D'" "outside ?l D' = outside ?l V" "outside ?l V' = outside ?l V" "klog s2 = cleared ?l1" by blast
    have q2: "quiet p s2" using cache_stD(1)[OF tx_invD(1)[OF r(1)]] .
    let ?s3 = "s2\<lparr>klog := (klog s2)\<lparr>committing := 0\<rparr>\<rparr>"
    have t3: "tx_inv p ?s3 V' {} D'" using r(1) by simp
    then have q3: "quiet p ?s3" using cache_stD(1)[OF tx_invD(1)] by blast
    have u: "upd_log (\<lambda>l. l\<lparr>committing := 0\<rparr>) (grab LogLock s2) = grab LogLock ?s3" by (simp add: upd_log_def)
    have run: "bind (acquire LogLock s2) (\<lambda>_ s. bind (wakeup (Some ChanLog) (upd_log (\<lambda>l. l\<lparr>committing := 0\<rparr>) s)) (\<lambda>_ s. release LogLock s)) =
        Ok () (norm (woken {..<NPROC} (Some ChanLog) ?s3))"
      unfolding acquire_lock_free[OF quietD(4)[OF q2]] bind.simps u by (rule wake_and_release[OF q3]) simp
    have "klog ?s3 = (cleared ?l)\<lparr>outstanding := 0\<rparr>" using r(4) o by (simp add: cleared_def)
    then show "safe (disk_rely p) (crash (atomic ?l V D)) (\<lambda>_ s'. \<exists>V' D'. tx_inv p s' V' {} D' \<and> outside ?l D' = outside ?l V \<and>
        outside ?l V' = outside ?l V \<and> klog s' = (cleared ?l)\<lparr>outstanding := 0\<rparr>)
        (bind (acquire LogLock s2) (\<lambda>_ s. bind (wakeup (Some ChanLog) (upd_log (\<lambda>l. l\<lparr>committing := 0\<rparr>) s)) (\<lambda>_ s. release LogLock s)))"
      unfolding run safe.simps using t3 r(2,3) by (intro exI[of _ V'] exI[of _ D']) simp
  qed
qed

end
