(* ===== verification/Example.thy ===== *)
theory Example
  imports TxFacts PipeFacts
begin

text \<open>
  A concrete machine: process 0 runs alone, the disk is full of zeros, the log occupies blocks 2 to 31 of device 1.
  \<open>ex_fresh\<close> has an empty cache; in \<open>ex_dirty\<close> block 50 has been modified and logged in a transaction of one system call.
\<close>

definition zeros :: "u32 \<Rightarrow> u8 list" where
  "zeros n = replicate BSIZE 0"

definition ex_buf :: "nat \<Rightarrow> buf" where
  "ex_buf b = \<lparr>b_valid = 0, b_disk = 0, b_dev = 0, b_blockno = 0, b_refcnt = 0, b_prev = (if b = 0 then NBUF else b - 1),
     b_next = (if b = NBUF then 0 else b + 1), b_data = replicate BSIZE 0\<rparr>"

definition ex_vdisk :: vdisk where
  "ex_vdisk = \<lparr>vd_desc_page = 0, vd_avail_page = 0, vd_used_page = 0, vd_desc = (\<lambda>_. \<lparr>d_addr = NullAddr, d_len = 0, d_flags = 0, d_next = 0\<rparr>),
     avail_idx = 0, avail_ring = (\<lambda>_. 0), used_idx_dev = 0, used_ring = (\<lambda>_. 0), vd_free = (\<lambda>_. True), vd_used_idx = 0,
     info_b = (\<lambda>_. None), info_status = (\<lambda>_. 0), vd_ops = (\<lambda>_. \<lparr>req_type = 0, req_reserved = 0, req_sector = 0\<rparr>)\<rparr>"

definition ex_lg :: "(nat \<Rightarrow> buf) \<Rightarrow> klog \<Rightarrow> lgstate" where
  "ex_lg bf l = cnstate.extend (vdstate.extend (ppstate.extend (demo_pp demo_pipe)
       (vdstate.fields ex_vdisk (\<lambda>_. 0) bf (\<lambda>_. replicate 512 0)))
     (cnstate.fields \<lparr>lsr_feed = [], rhr_feed = [], uart_writes = [], uart_tx_buf = replicate 32 0, uart_tx_w = 0, uart_tx_r = 0\<rparr>
       0 1 \<lparr>cons_buf = replicate 128 0, cons_r = 0, cons_w = 0, cons_e = 0\<rparr> (\<lambda>_. None) (\<lambda>_. None)))
     (lgstate.fields l)"

definition ex_log :: "int \<Rightarrow> int \<Rightarrow> klog" where
  "ex_log k n = \<lparr>log_start = 2, log_size = 30, outstanding = k, committing = 0, log_dev = 1,
     log_lh = \<lparr>lh_n = n, lh_block = (\<lambda>_. 50)\<rparr>\<rparr>"

definition ex_fresh :: lgstate where
  "ex_fresh = ex_lg ex_buf (ex_log 0 0)"

definition ex_dirty :: lgstate where
  "ex_dirty = ex_lg (ex_buf(0 := (ex_buf 0)\<lparr>b_valid := 1, b_dev := 1, b_blockno := 50, b_refcnt := 1, b_data := replicate BSIZE 7\<rparr>)) (ex_log 1 1)"

definition ex_view :: "u32 \<Rightarrow> u8 list" where
  "ex_view = zeros(50 := replicate BSIZE 7)"

lemma ex_lg_simps [simp]:
  "bufs (ex_lg bf l) = bf" "medium (ex_lg bf l) = (\<lambda>_. replicate 512 0)" "klog (ex_lg bf l) = l" "vdisk (ex_lg bf l) = ex_vdisk"
  "sleeplocks (ex_lg bf l) = (\<lambda>_. \<lparr>sl_locked = 0, sl_name = [], sl_pid = 0\<rparr>)"
  by (simp_all add: ex_lg_def ppstate.defs vdstate.defs cnstate.defs lgstate.defs demo_pp_def pstate.defs slstate.defs)

lemma ex_quiet: "quiet 0 (ex_lg bf l)"
  by (simp add: quiet_def ex_vdisk_def)
    (simp add: ex_lg_def ppstate.defs vdstate.defs cnstate.defs lgstate.defs demo_pp_def pstate.defs slstate.defs demo_machine_def
      hart_ok_def lock_free_def curp_def mycpu_def cpuid_def intr_get_def NPROC_def)

lemma ex_lru: "lru ex_buf [0..<NBUF]"
proof -
  have "path (\<lambda>b. b_next (ex_buf b)) (NBUF # [0..<NBUF] @ [NBUF])" "path (\<lambda>b. b_prev (ex_buf b)) (NBUF # rev [0..<NBUF] @ [NBUF])"
    by (simp_all add: ex_buf_def NBUF_def MAXOPBLOCKS_def upt_rec)
  then show ?thesis unfolding lru_def by (auto simp del: upt_rec)
qed

lemma ex_dblock: "dblock (\<lambda>_. replicate 512 0) n = zeros n"
  by (simp add: dblock_def zeros_def BSIZE_def flip: replicate_add)

lemma ex_fresh_cache: "cache_st 0 1 ex_fresh zeros (\<lambda>_. 0) {} zeros"
  unfolding ex_fresh_def
  by (rule cache_stI[of _ _ "[0..<NBUF]"]) (auto simp: ex_quiet ex_lru ex_dblock hnd_def, simp_all add: ex_buf_def zeros_def)

lemma ex_area: "(50 :: u32) \<notin> area (ex_log k n)"
proof
  assume "50 \<in> area (ex_log k n)"
  then obtain i where i: "i < 30" "(50 :: u32) = of_int (2 + int i)" by (auto simp: area_def lpos_def ex_log_def)
  then have "unat (50 :: u32) = nat (2 + int i)" using unat_of_int_32[of "2 + int i"] by simp
  then show False using i(1) by simp
qed

lemma ex_log_ok: "log_ok (ex_log k 0)" "log_ok (ex_log k 1)"
proof -
  have h: "hpos (ex_log k n) i = 50" for n i by (simp add: hpos_def ex_log_def)
  show "log_ok (ex_log k 0)" "log_ok (ex_log k 1)"
    unfolding log_ok_def h using ex_area[of k 1] by (simp_all add: ex_log_def LOGSIZE_def MAXOPBLOCKS_def inj_on_def)
qed

lemma ex_homes: "homes (ex_log k 1) = {50}" "homes (ex_log k 0) = {}"
  by (auto simp: hpos_def ex_log_def)

lemma ex_head: "get32 (zeros n) 0 = 0"
  by (simp add: zeros_def get32_def BSIZE_def numeral_eq_Suc)

lemma ex_dirty_cache: "cache_st 0 1 ex_dirty ex_view (tx_rc (ex_log 1 1) {}) {} zeros"
  unfolding ex_dirty_def
proof (rule cache_stI[of _ _ "[0..<NBUF]"])
  have N: "0 < NBUF" by (simp add: NBUF_def MAXOPBLOCKS_def)
  fix n assume "0 < tx_rc (ex_log 1 1) {} n"
  then have "n = 50" by (simp add: tx_rc_def ex_homes split: if_splits)
  then show "\<exists>b. hnd 1 (ex_lg (ex_buf(0 := (ex_buf 0)\<lparr>b_valid := 1, b_dev := 1, b_blockno := 50, b_refcnt := 1,
      b_data := replicate BSIZE 7\<rparr>)) (ex_log 1 1)) b n"
    using N by (intro exI[of _ 0]) (simp add: hnd_def)
qed (auto simp: ex_quiet ex_lru ex_dblock hnd_def tx_rc_def ex_homes ex_view_def zeros_def small_def split: if_splits,
     simp_all add: ex_buf_def)

lemma ex_dirty_tx: "tx_inv 0 ex_dirty ex_view {} zeros"
proof -
  have k: "klog ex_dirty = ex_log 1 1" by (simp add: ex_dirty_def)
  have d: "of_int (log_dev (ex_log 1 1)) = (1 :: u32)" by (simp add: ex_log_def)
  show ?thesis unfolding tx_inv_def k d using ex_dirty_cache ex_log_ok ex_head ex_homes by (auto simp: ex_view_def)
qed

text \<open>Block 50 is locked and modified in an open transaction, but not yet logged.\<close>

definition ex_held :: lgstate where
  "ex_held = (ex_lg (ex_buf(0 := (ex_buf 0)\<lparr>b_valid := 1, b_dev := 1, b_blockno := 50, b_refcnt := 1, b_data := replicate BSIZE 7\<rparr>)) (ex_log 1 0))
     \<lparr>sleeplocks := (\<lambda>lk. \<lparr>sl_locked = (if lk = BufLock 0 then 1 else 0), sl_name = [], sl_pid = 1\<rparr>)\<rparr>"

lemma ex_pid: "p_pid (procs (ex_lg bf l) 0) = 1"
  by (simp add: ex_lg_def ppstate.defs vdstate.defs cnstate.defs lgstate.defs demo_pp_def pstate.defs slstate.defs demo_machine_def demo_proc_def)

lemma ex_held_cache: "cache_st 0 1 ex_held ex_view (tx_rc (ex_log 1 0) {50}) {50} zeros"
  unfolding ex_held_def
proof (rule cache_stI[of _ _ "[0..<NBUF]"])
  have N: "0 < NBUF" by (simp add: NBUF_def MAXOPBLOCKS_def)
  fix n assume "0 < tx_rc (ex_log 1 0) {50} n"
  then have "n = 50" by (simp add: tx_rc_def ex_homes split: if_splits)
  then show "\<exists>b. hnd 1 ((ex_lg (ex_buf(0 := (ex_buf 0)\<lparr>b_valid := 1, b_dev := 1, b_blockno := 50, b_refcnt := 1,
      b_data := replicate BSIZE 7\<rparr>)) (ex_log 1 0))\<lparr>sleeplocks := (\<lambda>lk. \<lparr>sl_locked = (if lk = BufLock 0 then 1 else 0),
      sl_name = [], sl_pid = 1\<rparr>)\<rparr>) b n"
    using N by (intro exI[of _ 0]) (simp add: hnd_def)
qed (auto simp: ex_quiet ex_lru ex_dblock hnd_def tx_rc_def ex_homes ex_view_def zeros_def small_def ex_pid split: if_splits,
     simp_all add: ex_buf_def)

lemma ex_held_tx: "tx_inv 0 ex_held ex_view {50} zeros" "hnd 1 ex_held 0 50"
proof -
  have k: "klog ex_held = ex_log 1 0" by (simp add: ex_held_def)
  have d: "of_int (log_dev (ex_log 1 0)) = (1 :: u32)" by (simp add: ex_log_def)
  show "tx_inv 0 ex_held ex_view {50} zeros"
    unfolding tx_inv_def k d using ex_held_cache ex_log_ok ex_head ex_homes by (auto simp: ex_view_def)
  show "hnd 1 ex_held 0 50" by (simp add: hnd_def ex_held_def NBUF_def MAXOPBLOCKS_def)
qed

end
