(* ===== verification/CrashFacts.thy ===== *)
theory CrashFacts
  imports Example
begin

text \<open>
  The log across crashes: \<open>reboot l s r\<close> is a machine \<open>r\<close> that has been started again with the disk that \<open>s\<close> left
  behind, an empty buffer cache and a log at the place \<open>l\<close> has it. The theorems run \<^verbatim>\<open>recover_from_log\<close> after a crash at
  any point of \<^verbatim>\<open>end_op\<close>, or of an earlier recovery.
\<close>

section \<open>Starting again\<close>

definition fresh :: "nat \<Rightarrow> u32 \<Rightarrow> 'z vdstate_scheme \<Rightarrow> bool" where
  "fresh q d r \<longleftrightarrow> (\<exists>V D. cache_st q d r V (\<lambda>_. 0) {} D)"

definition same_place :: "klog \<Rightarrow> klog \<Rightarrow> bool" where
  "same_place l m \<longleftrightarrow> log_start m = log_start l \<and> log_size m = log_size l \<and> log_dev m = log_dev l"

definition reboot :: "nat \<Rightarrow> klog \<Rightarrow> 'z lgstate_scheme \<Rightarrow> 'y lgstate_scheme \<Rightarrow> bool" where
  "reboot q l s r \<longleftrightarrow> medium r = medium s \<and> fresh q (of_int (log_dev l)) r \<and> same_place l (klog r)"

lemma same_place_eqs:
  assumes "same_place l m"
  shows "lpos m = lpos l" "area m = area l" "replay m = replay l" "outside m = outside l"
proof -
  show p: "lpos m = lpos l" using assms by (simp add: same_place_def lpos_def fun_eq_iff)
  then show a: "area m = area l" using assms by (simp add: same_place_def area_def)
  show "replay m = replay l" by (simp add: replay_def p fun_eq_iff)
  show "outside m = outside l" by (simp add: outside_def a fun_eq_iff)
qed

lemma log_ok_disk_place:
  assumes s: "same_place l m" and h: "D (lpos l 0) = E (lpos l 0)"
  shows "log_ok (disk_log m D) = log_ok (disk_log l E)"
proof -
  let ?n = "nat (sint (get32 (E (lpos l 0)) 0))"
  note p = same_place_eqs[OF s]
  have n: "lh_n (log_lh (disk_log m D)) = lh_n (log_lh (disk_log l E))" "lh_n (log_lh (disk_log l E)) = sint (get32 (E (lpos l 0)) 0)"
    using h p by (simp_all add: disk_log_def Let_def)
  have b: "lh_block (log_lh (disk_log m D)) i = lh_block (log_lh (disk_log l E)) i" if "i < ?n" for i
    using that h p by (simp add: disk_log_def Let_def read_head_loop_eq)
  have g: "log_start (disk_log m D) = log_start l" "log_size (disk_log m D) = log_size l"
    "log_start (disk_log l E) = log_start l" "log_size (disk_log l E) = log_size l"
    using s by (simp_all add: disk_log_def Let_def same_place_def)
  have "inj_on (lh_block (log_lh (disk_log m D))) {..<?n} = inj_on (lh_block (log_lh (disk_log l E))) {..<?n}"
    using b by (intro inj_on_cong) simp
  then show ?thesis using b by (simp add: log_ok_def n g p hpos_def)
qed

lemma fold_upd_cong: "D k = E k \<Longrightarrow> fold (\<lambda>i F. F(g i := v i)) ts D k = fold (\<lambda>i F. F(g i := v i)) ts E k"
proof (induction ts arbitrary: D E)
  case (Cons t ts)
  have "(D(g t := v t)) k = (E(g t := v t)) k" using Cons.prems by simp
  from Cons.IH[of "D(g t := v t)" "E(g t := v t)", OF this] show ?case by simp
qed simp

lemma replay_small:
  assumes ok: "log_ok (disk_log l E)" and DE: "\<And>n. small n \<Longrightarrow> D n = E n"
  shows "outside l (replay l D) = outside l (replay l E)"
proof -
  have sm: "i < nat (log_size (disk_log l E)) \<Longrightarrow> D (lpos l i) = E (lpos l i)" for i using lpos_small[OF ok] DE by simp
  have h: "D (lpos l 0) = E (lpos l 0)" using sm logged_size(2)[OF ok] by blast
  have n: "nat (sint (get32 (E (lpos l 0)) 0)) = logged (disk_log l E)" by (simp add: disk_log_def Let_def)
  have "replay l D = fold (\<lambda>i F. F(get32 (E (lpos l 0)) (4 + 4 * i) := E (lpos l (Suc i)))) [0..<logged (disk_log l E)] D"
    unfolding replay_def h n using sm logged_size(1)[OF ok] by (intro fold_cong) auto
  moreover have "replay l E = fold (\<lambda>i F. F(get32 (E (lpos l 0)) (4 + 4 * i) := E (lpos l (Suc i)))) [0..<logged (disk_log l E)] E"
    unfolding replay_def n ..
  ultimately have "replay l D k = replay l E k" if "small k" for k
    using fold_upd_cong[where D = D and E = E and g = "\<lambda>i. get32 (E (lpos l 0)) (4 + 4 * i)" and v = "\<lambda>i. E (lpos l (Suc i))" and k = k,
      OF DE[OF that]] by simp
  then show ?thesis by (intro outside_eq)
qed

text \<open>Recovery reaches \<open>replay l E\<close> from every disk \<open>E\<close> with a header in order.\<close>

lemma reboot_recovers:
  assumes r: "reboot q l s r" and E: "\<And>n. small n \<Longrightarrow> dblock (medium s) n = E n" and ok: "log_ok (disk_log l E)"
  shows "post (disk_rely q) (\<lambda>_ r'. fresh q (of_int (log_dev l)) r' \<and> outside l (dblock (medium r')) = outside l (replay l E))
    (recover_from_log r)"
proof -
  obtain V D where c: "cache_st q (of_int (log_dev l)) r V (\<lambda>_. 0) {} D" and m: "medium r = medium s" and p: "same_place l (klog r)"
    using r unfolding reboot_def fresh_def by blast
  note pe = same_place_eqs[OF p]
  have DE: "D n = E n" if "small n" for n using cache_stD(3)[OF c that] E[OF that] m by simp
  have sm: "i < nat (log_size (disk_log l E)) \<Longrightarrow> small (lpos l i)" for i using lpos_small[OF ok] by simp
  have h: "D (lpos l 0) = E (lpos l 0)" using DE sm logged_size(2)[OF ok] by blast
  have ok': "log_ok (disk_log (klog r) D)" using ok log_ok_disk_place[where D = D and E = E, OF p h] by simp
  have d: "of_int (log_dev (klog r)) = (of_int (log_dev l) :: u32)" using p by (simp add: same_place_def)
  have rep: "outside l (replay l D) = outside l (replay l E)" by (rule replay_small[OF ok DE])
  have "safe (disk_rely q) (crash (recovers (klog r) D)) (\<lambda>_ s'. \<exists>V' D'. cache_st q (of_int (log_dev l)) s' V' (\<lambda>_. 0) {} D' \<and>
      outside (klog r) D' = outside (klog r) (replay (klog r) D) \<and> get32 (D' (lpos (klog r) 0)) 0 = 0 \<and> klog s' = cleared (disk_log (klog r) D))
      (recover_from_log r)"
    by (rule recover_safe[OF c refl d ok'])
  then show ?thesis
  proof (rule safe_mono)
    fix v s' assume "\<exists>V' D'. cache_st q (of_int (log_dev l)) s' V' (\<lambda>_. 0) {} D' \<and> outside (klog r) D' = outside (klog r) (replay (klog r) D) \<and>
      get32 (D' (lpos (klog r) 0)) 0 = 0 \<and> klog s' = cleared (disk_log (klog r) D)"
    then obtain V' D' where f: "cache_st q (of_int (log_dev l)) s' V' (\<lambda>_. 0) {} D'" "outside l D' = outside l (replay l E)"
      unfolding pe rep by blast
    have "outside l (dblock (medium s')) = outside l D'" using cache_stD(3)[OF f(1)] by (intro outside_eq) simp
    then show "fresh q (of_int (log_dev l)) s' \<and> outside l (dblock (medium s')) = outside l (replay l E)"
      using f unfolding fresh_def by auto
  qed simp
qed

section \<open>Properties\<close>

text \<open>
  C1: A transaction is atomic. When the last system call of a transaction leaves \<^verbatim>\<open>end_op\<close>, the disk holds, outside the
  log, exactly the blocks as the cache showed them. If the machine stops at any point of \<^verbatim>\<open>end_op\<close> and is started again,
  recovery returns and leaves on the disk the contents before the transaction or those after it, for all blocks together.
\<close>

theorem end_op_atomic:
  assumes "tx_inv p s V {} D" "outstanding (klog s) = 1" "committing (klog s) = 0"
  shows "safe (disk_rely p)
    (\<lambda>t. \<forall>q (r :: 'y lgstate_scheme). reboot q (klog s) t r \<longrightarrow> post (disk_rely q) (\<lambda>_ r'. fresh q (ldev s) r' \<and>
      (outside (klog s) (dblock (medium r')) = outside (klog s) D \<or> outside (klog s) (dblock (medium r')) = outside (klog s) V)) (recover_from_log r))
    (\<lambda>_ s'. \<exists>V' D'. tx_inv p s' V' {} D' \<and> outside (klog s) D' = outside (klog s) V \<and> outside (klog s) V' = outside (klog s) V \<and>
      klog s' = (cleared (klog s))\<lparr>outstanding := 0\<rparr>)
    (end_op s)"
proof (rule safe_mono[OF end_op_safe[OF assms]], intro allI impI)
  fix t q and r :: "'y lgstate_scheme" assume c: "crash (atomic (klog s) V D) t" and r: "reboot q (klog s) t r"
  obtain E where E: "\<And>n. small n \<Longrightarrow> dblock (medium t) n = E n" "log_ok (disk_log (klog s) E)"
    "outside (klog s) (replay (klog s) E) = outside (klog s) D \<or> outside (klog s) (replay (klog s) E) = outside (klog s) V"
    using c tx_updated[OF assms(1)] unfolding crash_def atomic_def by auto
  show "post (disk_rely q) (\<lambda>_ r'. fresh q (ldev s) r' \<and> (outside (klog s) (dblock (medium r')) = outside (klog s) D \<or>
      outside (klog s) (dblock (medium r')) = outside (klog s) V)) (recover_from_log r)"
    by (rule safe_mono[OF reboot_recovers[OF r E(1,2)]]) (use E(3) in auto)
qed

theorem end_op_atomic_witness:
  "safe (disk_rely 0)
    (\<lambda>t. \<forall>q (r :: lgstate). reboot q (ex_log 1 1) t r \<longrightarrow> post (disk_rely q) (\<lambda>_ r'. fresh q 1 r' \<and>
      (outside (ex_log 1 1) (dblock (medium r')) = outside (ex_log 1 1) zeros \<or>
       outside (ex_log 1 1) (dblock (medium r')) = outside (ex_log 1 1) ex_view)) (recover_from_log r))
    (\<lambda>_ s'. \<exists>V' D'. tx_inv 0 s' V' {} D' \<and> outside (ex_log 1 1) D' = outside (ex_log 1 1) ex_view \<and>
      outside (ex_log 1 1) V' = outside (ex_log 1 1) ex_view \<and> klog s' = (cleared (ex_log 1 1))\<lparr>outstanding := 0\<rparr>)
    (end_op ex_dirty) \<and> reboot 0 (ex_log 1 1) ex_dirty ex_fresh"
proof
  have k: "klog ex_dirty = ex_log 1 1" and d: "of_int (log_dev (ex_log 1 1)) = (1 :: u32)" by (simp_all add: ex_dirty_def ex_log_def)
  have o: "outstanding (klog ex_dirty) = 1" "committing (klog ex_dirty) = 0" by (simp_all add: k ex_log_def)
  show "safe (disk_rely 0)
    (\<lambda>t. \<forall>q (r :: lgstate). reboot q (ex_log 1 1) t r \<longrightarrow> post (disk_rely q) (\<lambda>_ r'. fresh q 1 r' \<and>
      (outside (ex_log 1 1) (dblock (medium r')) = outside (ex_log 1 1) zeros \<or>
       outside (ex_log 1 1) (dblock (medium r')) = outside (ex_log 1 1) ex_view)) (recover_from_log r))
    (\<lambda>_ s'. \<exists>V' D'. tx_inv 0 s' V' {} D' \<and> outside (ex_log 1 1) D' = outside (ex_log 1 1) ex_view \<and>
      outside (ex_log 1 1) V' = outside (ex_log 1 1) ex_view \<and> klog s' = (cleared (ex_log 1 1))\<lparr>outstanding := 0\<rparr>)
    (end_op ex_dirty)"
    using end_op_atomic[OF ex_dirty_tx o] unfolding k d .
  show "reboot 0 (ex_log 1 1) ex_dirty ex_fresh"
    unfolding reboot_def d fresh_def using ex_fresh_cache
    by (auto simp: same_place_def ex_fresh_def ex_dirty_def ex_log_def)
qed

text \<open>
  C2: Recovery is restartable. Started on a disk whose header is in order, \<^verbatim>\<open>recover_from_log\<close> returns; every block of the
  committed transaction is then at its home, all other blocks are unchanged, and the header is empty. If it is interrupted at
  any point, a later recovery reaches the same contents.
\<close>

theorem recovery_restartable:
  assumes "cache_st p (ldev s) s V (\<lambda>_. 0) {} D" "log_ok (disk_log (klog s) D)"
  shows "safe (disk_rely p)
    (\<lambda>t. \<forall>q (r :: 'y lgstate_scheme). reboot q (klog s) t r \<longrightarrow> post (disk_rely q) (\<lambda>_ r'. fresh q (ldev s) r' \<and>
      outside (klog s) (dblock (medium r')) = outside (klog s) (replay (klog s) D)) (recover_from_log r))
    (\<lambda>_ s'. \<exists>V' D'. cache_st p (ldev s) s' V' (\<lambda>_. 0) {} D' \<and> outside (klog s) D' = outside (klog s) (replay (klog s) D) \<and>
      get32 (D' (lpos (klog s) 0)) 0 = 0 \<and> lhn s' = 0)
    (recover_from_log s)"
proof (rule safe_mono[OF recover_safe[OF assms(1) refl refl assms(2)]], intro allI impI)
  fix t q and r :: "'y lgstate_scheme" assume c: "crash (recovers (klog s) D) t" and r: "reboot q (klog s) t r"
  obtain E where E: "\<And>n. small n \<Longrightarrow> dblock (medium t) n = E n" "log_ok (disk_log (klog s) E)"
    "outside (klog s) (replay (klog s) E) = outside (klog s) (replay (klog s) D)"
    using c unfolding crash_def recovers_def by auto
  show "post (disk_rely q) (\<lambda>_ r'. fresh q (ldev s) r' \<and> outside (klog s) (dblock (medium r')) = outside (klog s) (replay (klog s) D))
      (recover_from_log r)"
    using reboot_recovers[OF r E(1,2)] unfolding E(3) .
next
  fix v s' assume "\<exists>V' D'. cache_st p (ldev s) s' V' (\<lambda>_. 0) {} D' \<and> outside (klog s) D' = outside (klog s) (replay (klog s) D) \<and>
    get32 (D' (lpos (klog s) 0)) 0 = 0 \<and> klog s' = cleared (disk_log (klog s) D)"
  moreover have "lhn s' = 0" if "klog s' = cleared (disk_log (klog s) D)" using that by simp
  ultimately show "\<exists>V' D'. cache_st p (ldev s) s' V' (\<lambda>_. 0) {} D' \<and> outside (klog s) D' = outside (klog s) (replay (klog s) D) \<and>
    get32 (D' (lpos (klog s) 0)) 0 = 0 \<and> lhn s' = 0" by blast
qed

theorem recovery_restartable_witness:
  "safe (disk_rely 0)
    (\<lambda>t. \<forall>q (r :: lgstate). reboot q (ex_log 0 0) t r \<longrightarrow> post (disk_rely q) (\<lambda>_ r'. fresh q 1 r' \<and>
      outside (ex_log 0 0) (dblock (medium r')) = outside (ex_log 0 0) (replay (ex_log 0 0) zeros)) (recover_from_log r))
    (\<lambda>_ s'. \<exists>V' D'. cache_st 0 1 s' V' (\<lambda>_. 0) {} D' \<and> outside (ex_log 0 0) D' = outside (ex_log 0 0) (replay (ex_log 0 0) zeros) \<and>
      get32 (D' (lpos (ex_log 0 0) 0)) 0 = 0 \<and> lhn s' = 0)
    (recover_from_log ex_fresh)"
proof -
  have k: "klog ex_fresh = ex_log 0 0" and d: "of_int (log_dev (ex_log 0 0)) = (1 :: u32)" by (simp_all add: ex_fresh_def ex_log_def)
  have c: "cache_st 0 (ldev ex_fresh) ex_fresh zeros (\<lambda>_. 0) {} zeros" using ex_fresh_cache unfolding k d .
  have l: "log_ok (disk_log (klog ex_fresh) zeros)"
    unfolding k by (rule log_ok_disk_empty[where E = zeros, OF disjI1[OF ex_log_ok(1)]]) (rule ex_head)
  show ?thesis using recovery_restartable[OF c l] unfolding k d .
qed

text \<open>
  C20: \<^verbatim>\<open>log_write\<close> of a locked block inside a transaction. It panics exactly when the log is full or no transaction
  is open; otherwise it returns, the block is on the list of the header exactly once, its buffer is pinned, no contents
  change, and the invariant of the transaction holds again.
\<close>

theorem log_write_records:
  assumes "tx_inv p s V H D" "hnd (ldev s) s b n" "n \<in> H" "n \<notin> area (klog s)"
  shows "if lhn s \<ge> int LOGSIZE \<or> lhn s \<ge> log_size (klog s) - 1 then log_write b s = Panic ''too big a transaction''
    else if outstanding (klog s) < 1 then log_write b s = Panic ''log_write outside of trans''
    else \<exists>s'. log_write b s = Ok () s' \<and> tx_inv p s' V H D \<and> homes (klog s') = insert n (homes (klog s)) \<and>
      lhn s' = lhn s + (if n \<in> homes (klog s) then 0 else 1)"
proof -
  have q: "quiet p s" using assms(1) cache_stD(1) tx_invD(1) by blast
  have a: "acquire LogLock s = Ok () (grab LogLock s)" using acquire_lock_free quietD(4)[OF q] by blast
  show ?thesis using log_write_tx[OF assms]
    by (auto simp: log_write_def with_lock_def a)
qed

theorem log_write_records_witness:
  "\<exists>s'. log_write 0 ex_held = Ok () s' \<and> tx_inv 0 s' ex_view {50} zeros \<and> homes (klog s') = {50} \<and> lhn s' = 1"
proof -
  have k: "klog ex_held = ex_log 1 0" and d: "of_int (log_dev (ex_log 1 0)) = (1 :: u32)" by (simp_all add: ex_held_def ex_log_def)
  have h: "hnd (ldev ex_held) ex_held 0 50" using ex_held_tx(2) unfolding k d .
  have n: "lhn ex_held = 0" "log_size (klog ex_held) = 30" "outstanding (klog ex_held) = 1" by (simp_all add: k ex_log_def)
  show ?thesis
    using log_write_records[OF ex_held_tx(1) h] ex_area[of 1 0] n unfolding k ex_homes by (simp add: LOGSIZE_def MAXOPBLOCKS_def)
qed

text \<open>
  C21: \<^verbatim>\<open>bread\<close> delivers the current contents of a block, from the cache or from the disk: it returns a locked, valid
  buffer for the block, its data is what was last stored there, no disk block changes at any moment, and every buffer in use
  keeps its block. A free buffer is enough for it to succeed.
\<close>

theorem bread_returns_current:
  assumes "cache_st p d s V rc H D" "n \<notin> H" "small n" "more_refs rc n"
  shows "safe (disk_rely p) (crash (\<lambda>E. E = D)) (\<lambda>b s'. bdata b s' = V n \<and> hnd d s' b n \<and> b_valid (bufs s' b) \<noteq> 0 \<and>
      cache_st p d s' V (rc(n := rc n + 1)) (insert n H) D \<and> (\<forall>x k. 0 < rc k \<and> hnd d s x k \<longrightarrow> hnd d s' x k))
    (bread d n s)"
  using bread_safe[OF assms, of "\<lambda>E. E = D"]
proof (rule safe_mono)
  fix b s' assume a: "cache_st p d s' V (rc(n := rc n + 1)) (insert n H) D \<and> hnd d s' b n \<and>
    (\<forall>x k. 0 < rc k \<and> hnd d s x k \<longrightarrow> hnd d s' x k) \<and> keep p s s'"
  then show "bdata b s' = V n \<and> hnd d s' b n \<and> b_valid (bufs s' b) \<noteq> 0 \<and>
      cache_st p d s' V (rc(n := rc n + 1)) (insert n H) D \<and> (\<forall>x k. 0 < rc k \<and> hnd d s x k \<longrightarrow> hnd d s' x k)"
    using bdata_cache[of p d s' V _ _ D b n] cache_stD(10)[of p d s' V _ _ D b n] by blast
qed simp_all

theorem bread_returns_current_witness:
  "safe (disk_rely 0) (crash (\<lambda>E. E = zeros)) (\<lambda>b s'. bdata b s' = zeros 50 \<and> hnd 1 s' b 50 \<and> b_valid (bufs s' b) \<noteq> 0 \<and>
      cache_st 0 1 s' zeros ((\<lambda>_. 0)(50 := 0 + 1)) (insert 50 {}) zeros \<and> (\<forall>x k. 0 < (0 :: nat) \<and> hnd 1 ex_fresh x k \<longrightarrow> hnd 1 s' x k))
    (bread 1 50 ex_fresh)"
  by (rule bread_returns_current[OF ex_fresh_cache])
    (simp_all add: small_def more_refs_def NBUF_def MAXOPBLOCKS_def)

text \<open>
  C22: The cache recycles the least recently used buffer. \<^verbatim>\<open>brelse\<close> of a held buffer always returns, unlocks it and gives one
  reference back; when that was the last one the buffer moves to the front of the list of buffers, the order of the others
  is kept, and the list stays a ring through all buffers in both directions.
\<close>

theorem brelse_keeps_ring:
  assumes "cache_st p d s V rc H D" "hnd d s b n" "n \<in> H" "rc n = 1 \<longrightarrow> V n = D n" "lru (bufs s) L"
  shows "\<exists>s'. brelse b s = Ok () s' \<and> cache_st p d s' V (rc(n := rc n - 1)) (H - {n}) D \<and>
    lru (bufs s') (if rc n = 1 then b # remove1 b L else L)"
  using brelse_lru[OF assms(1-3) _ assms(5)] assms(4) by blast

theorem brelse_keeps_ring_witness:
  "\<exists>s'. brelse 0 (ex_held\<lparr>medium := dput 50 (replicate BSIZE 7) (medium ex_held)\<rparr>) = Ok () s' \<and> lru (bufs s') (0 # remove1 0 [0..<NBUF])"
proof -
  let ?s = "ex_held\<lparr>medium := dput 50 (replicate BSIZE 7) (medium ex_held)\<rparr>"
  have sm: "small 50" by (simp add: small_def)
  have "quiet 0 ?s" using cache_stD(1)[OF ex_held_cache] by (simp add: quiet_def mycpu_def cpuid_def curp_def)
  moreover have hn: "hnd 1 ?s = hnd 1 ex_held" by (simp add: hnd_def fun_eq_iff)
  moreover have "dblock (medium ?s) k = ex_view k" if "small k" for k
    using dblock_dput[OF sm that] cache_stD(3)[OF ex_held_cache that] by (simp add: ex_view_def)
  moreover have "length (ex_view k) = BSIZE" for k by (simp add: ex_view_def zeros_def)
  ultimately have c: "cache_st 0 1 ?s ex_view (tx_rc (ex_log 1 0) {50}) {50} ex_view"
    using ex_held_cache unfolding cache_st_def by simp
  have l: "lru (bufs ?s) [0..<NBUF]" using ex_lru by (simp add: ex_held_def)
  have r: "tx_rc (ex_log 1 0) {50} 50 = 1" by (simp add: tx_rc_def ex_homes)
  show ?thesis using brelse_keeps_ring[OF c _ _ _ l, of 0 50] ex_held_tx(2) hn r by auto
qed

end
