(* ===== verification/FsFacts.thy ===== *)
theory FsFacts
  imports FsData Overlay
begin

text \<open>
  On-disk structures of the file system: inodes in their blocks, the free map, and the elements of a path.
\<close>

section \<open>Inodes on disk\<close>

lemma put_addrs_length [simp]: "off + 4 * length as \<le> length d \<Longrightarrow> length (put_addrs as off d) = length d"
  by (induction as off d rule: put_addrs.induct) auto

lemma put_addrs_other:
  assumes "off + 4 * length as \<le> length d" "o' + k \<le> off \<or> off + 4 * length as \<le> o'"
  shows "take k (drop o' (put_addrs as off d)) = take k (drop o' d)"
  using assms
proof (induction as off d rule: put_addrs.induct)
  case (2 a as off d)
  have "take k (drop o' (put_addrs as (off + 4) (put32 d off a))) = take k (drop o' (put32 d off a))"
    using "2.prems" by (intro "2.IH") auto
  then show ?case using "2.prems" get_put_other[of off "bytes_of 4 a" d o' k] by (auto simp: put32_def)
qed simp

lemma put_addrs_at:
  assumes "off + 4 * length as \<le> length d" "j < length as"
  shows "get32 (put_addrs as off d) (off + 4 * j) = as ! j"
  using assms
proof (induction as off d arbitrary: j rule: put_addrs.induct)
  case (2 a as off d)
  show ?case
  proof (cases j)
    case 0
    have "get32 (put_addrs as (off + 4) (put32 d off a)) off = get32 (put32 d off a) off"
      unfolding get32_def using "2.prems" by (subst put_addrs_other) auto
    then show ?thesis using 0 "2.prems" by (simp add: get32_put32_same)
  next
    case (Suc m)
    then have "get32 (put_addrs as (off + 4) (put32 d off a)) ((off + 4) + 4 * m) = as ! m"
      using "2.prems" by (intro "2.IH") auto
    then show ?thesis using Suc by (simp add: algebra_simps)
  qed
qed simp

text \<open>The fields before the addresses.\<close>

definition put_head :: "inode \<Rightarrow> nat \<Rightarrow> u8 list \<Rightarrow> u8 list" where
  "put_head i off d = put32 (put16 (put16 (put16 (put16 d off (i_type i)) (off + 2) (i_major i)) (off + 4) (i_minor i)) (off + 6) (i_nlink i))
     (off + 8) (i_size i)"

lemma put_dinode_eq: "put_dinode i off d = put_addrs (i_addrs i) (off + 12) (put_head i off d)"
  by (simp add: put_dinode_def put_head_def Let_def)

lemma put_head_get:
  assumes "off + 12 \<le> length d"
  shows "length (put_head i off d) = length d" "get16 (put_head i off d) off = i_type i" "get16 (put_head i off d) (off + 2) = i_major i"
    "get16 (put_head i off d) (off + 4) = i_minor i" "get16 (put_head i off d) (off + 6) = i_nlink i" "get32 (put_head i off d) (off + 8) = i_size i"
  using assms by (simp_all add: put_head_def get16_put_other get16_put16_same get32_put32_same)

lemma put_head_other:
  assumes "off + 12 \<le> length d" "o' + k \<le> off \<or> off + 12 \<le> o'"
  shows "take k (drop o' (put_head i off d)) = take k (drop o' d)"
  using assms by (auto simp: put_head_def put16_def put32_def get_put_other)

lemma put_dinode_other:
  assumes "off + 12 + 4 * length (i_addrs i) \<le> length d" "o' + k \<le> off \<or> off + 12 + 4 * length (i_addrs i) \<le> o'"
  shows "take k (drop o' (put_dinode i off d)) = take k (drop o' d)"
proof -
  have "take k (drop o' (put_addrs (i_addrs i) (off + 12) (put_head i off d))) = take k (drop o' (put_head i off d))"
    using assms by (intro put_addrs_other) (auto simp: put_head_get)
  also have "\<dots> = take k (drop o' d)" using assms by (intro put_head_other) auto
  finally show ?thesis by (simp add: put_dinode_eq)
qed

lemma get_put_dinode:
  assumes "off + DINODE_SIZE \<le> length d" "length (i_addrs i) = NDIRECT + 1"
  shows "get_dinode (put_dinode i off d) off j =
    j\<lparr>i_type := i_type i, i_major := i_major i, i_minor := i_minor i, i_nlink := i_nlink i, i_size := i_size i, i_addrs := i_addrs i\<rparr>"
proof -
  have l: "off + 12 + 4 * length (i_addrs i) \<le> length d" using assms by (simp add: DINODE_SIZE_def NDIRECT_def)
  let ?h = "put_head i off d"
  have h: "off + 12 + 4 * length (i_addrs i) \<le> length ?h" using l put_head_get(1)[of off d i] by simp
  have o16: "o' + 2 \<le> off + 12 \<Longrightarrow> get16 (put_addrs (i_addrs i) (off + 12) ?h) o' = get16 ?h o'" for o'
    unfolding get16_def using h by (subst put_addrs_other) auto
  have o32: "o' + 4 \<le> off + 12 \<Longrightarrow> get32 (put_addrs (i_addrs i) (off + 12) ?h) o' = get32 ?h o'" for o'
    unfolding get32_def using h by (subst put_addrs_other) auto
  have a: "map (\<lambda>k. get32 (put_addrs (i_addrs i) (off + 12) ?h) (off + 12 + 4 * k)) [0..<NDIRECT + 1] = i_addrs i"
    using put_addrs_at[OF h] assms(2) by (intro nth_equalityI) (auto simp del: upt_Suc)
  show ?thesis
    unfolding get_dinode_def put_dinode_eq a using put_head_get[of off d i] l by (simp add: o16 o32)
qed

section \<open>Path elements\<close>

text \<open>The reference: cut the path at every slash and drop the empty pieces.\<close>

fun split_on :: "'a \<Rightarrow> 'a list \<Rightarrow> 'a list list" where
  "split_on c [] = [[]]"
| "split_on c (x # xs) = (if x = c then [] # split_on c xs else (x # hd (split_on c xs)) # tl (split_on c xs))"

definition elems :: "u8 list \<Rightarrow> u8 list list" where
  "elems path = filter (\<lambda>e. e \<noteq> []) (split_on 47 path)"

lemma split_on_takeWhile:
  "split_on c xs = takeWhile (\<lambda>x. x \<noteq> c) xs # (case dropWhile (\<lambda>x. x \<noteq> c) xs of [] \<Rightarrow> [] | _ # r \<Rightarrow> split_on c r)"
  by (induction xs) auto

lemma elems_slash: "elems (dropWhile (\<lambda>c. c = 47) path) = elems path"
  by (induction path) (auto simp: elems_def)

lemma elems_Nil [simp]: "elems [] = []"
  by (simp add: elems_def)

lemma elems_first:
  assumes "path \<noteq> []" "hd path \<noteq> 47"
  shows "elems path = takeWhile (\<lambda>c. c \<noteq> 47) path # elems (dropWhile (\<lambda>c. c \<noteq> 47) path)"
proof -
  have ne: "takeWhile (\<lambda>c. c \<noteq> 47) path \<noteq> []" using assms by (cases path) auto
  let ?r = "dropWhile (\<lambda>c. c \<noteq> 47) path"
  show ?thesis
  proof (cases ?r)
    case Nil
    show ?thesis using ne unfolding elems_def split_on_takeWhile[of 47 path] Nil by simp
  next
    case (Cons y r)
    then have "y = 47" using hd_dropWhile[of "\<lambda>c. c \<noteq> 47" path] by simp
    then show ?thesis using ne Cons by (simp add: elems_def split_on_takeWhile[of 47 path])
  qed
qed

text \<open>The name in a buffer of \<open>DIRSIZ\<close> bytes: up to the first NUL, if there is one.\<close>

definition cname :: "u8 list \<Rightarrow> u8 list" where
  "cname name = takeWhile (\<lambda>c. c \<noteq> 0) (take DIRSIZ name)"

lemma skipelem_elems:
  assumes "length name = DIRSIZ" "0 \<notin> set path"
  shows "case skipelem path name of None \<Rightarrow> elems path = []
    | Some (rest, name') \<Rightarrow> length name' = DIRSIZ \<and> 0 \<notin> set rest \<and> (rest = [] \<or> hd rest \<noteq> 47) \<and>
        (\<exists>e. elems path = e # elems rest \<and> cname name' = take DIRSIZ e)"
proof -
  let ?p = "dropWhile (\<lambda>c. c = 47) path"
  let ?e = "takeWhile (\<lambda>c. c \<noteq> 47) ?p"
  show ?thesis
  proof (cases "?p = []")
    case True
    then have "skipelem path name = None" by (simp add: skipelem_def)
    moreover have "elems path = []" using elems_slash[of path] unfolding True by simp
    ultimately show ?thesis by simp
  next
    case False
    then have h: "hd ?p \<noteq> 47" using hd_dropWhile[of "\<lambda>c. c = 47" path] by blast
    let ?r = "dropWhile (\<lambda>c. c = 47) (dropWhile (\<lambda>c. c \<noteq> 47) ?p)"
    let ?n = "if length ?e \<ge> DIRSIZ then put_at name 0 (take DIRSIZ ?e) else put_at name 0 (?e @ [0])"
    have s: "skipelem path name = Some (?r, ?n)" using False by (simp add: skipelem_def Let_def)
    have "elems path = ?e # elems ?r" using elems_slash elems_first[OF False h] by metis
    moreover have z: "0 \<notin> set ?e" using assms(2) by (meson set_dropWhileD set_takeWhileD)
    have "cname ?n = take DIRSIZ ?e"
    proof (cases "length ?e \<ge> DIRSIZ")
      case True
      have "takeWhile (\<lambda>c. c \<noteq> 0) (take DIRSIZ ?e) = take DIRSIZ ?e"
        using z by (auto simp: takeWhile_eq_all_conv dest: in_set_takeD)
      then show ?thesis using True assms(1) by (simp add: cname_def put_at_def)
    next
      case False
      have t: "takeWhile (\<lambda>c. c \<noteq> 0) (?e @ 0 # xs) = ?e" for xs using z by (subst takeWhile_append2) auto
      show ?thesis using False assms(1) t by (simp add: cname_def put_at_def)
    qed
    moreover have "length ?n = DIRSIZ" using assms(1) by (auto simp: put_at_def)
    moreover have "0 \<notin> set ?r" using assms(2) by (meson set_dropWhileD)
    moreover have "?r = [] \<or> hd ?r \<noteq> 47" using hd_dropWhile[of "\<lambda>c. c = 47" "dropWhile (\<lambda>c. c \<noteq> 47) ?p"] by blast
    ultimately show ?thesis unfolding s by simp
  qed
qed

section \<open>The free map\<close>

text \<open>Bit \<open>bi\<close> of a bitmap block.\<close>

definition bm :: "u8 list \<Rightarrow> nat \<Rightarrow> bool" where
  "bm d bi = bit (d ! (bi div 8)) (bi mod 8)"

lemma bit_mask_test: "(w AND bit_mask bi = 0) = (\<not> bit w (bi mod 8))"
  unfolding bit_mask_def by (simp add: bit_iff_and_push_bit_not_eq_0)

lemma bm_clear: "(d ! (bi div 8) AND bit_mask bi = 0) = (\<not> bm d bi)"
  by (simp add: bm_def bit_mask_test)

lemma bit_bit_mask: "bit (bit_mask bi) j \<longleftrightarrow> j = bi mod 8"
proof -
  have "bi mod 8 < 8" by simp
  then show ?thesis unfolding bit_mask_def by (auto simp: bit_simps)
qed

lemma bm_set: "bi div 8 < length d \<Longrightarrow> bm (set_bit_at bi d) j = (j = bi \<or> bm d j)"
  by (auto simp: bm_def set_bit_at_def nth_list_update bit_simps bit_bit_mask)
    (metis div_mult_mod_eq)+

lemma bm_clear_at: "bi div 8 < length d \<Longrightarrow> bm (clear_bit_at bi d) j = (j \<noteq> bi \<and> bm d j)"
  by (auto simp: bm_def clear_bit_at_def nth_list_update bit_simps bit_bit_mask)
    (metis div_mult_mod_eq)+

lemma set_clear_length [simp]: "length (set_bit_at bi d) = length d" "length (clear_bit_at bi d) = length d"
  by (simp_all add: set_bit_at_def clear_bit_at_def)

text \<open>The search finds the lowest clear bit below the size of the disk.\<close>

lemma bitmap_find_upt:
  assumes "\<And>j. i \<le> j \<Longrightarrow> j < bi \<Longrightarrow> bm d j" "i \<le> bi" "bi < k" "b + bi < sz" "\<not> bm d bi"
  shows "bitmap_find [i..<k] b sz d = Some bi"
  using assms
proof (induction "bi - i" arbitrary: i)
  case 0
  then show ?case by (simp add: upt_conv_Cons bm_clear)
next
  case (Suc m)
  then have "bm d i" "i < bi" "[i..<k] = i # [Suc i..<k]" by (simp_all add: upt_conv_Cons)
  then show ?case using Suc by (simp add: bm_clear)
qed

lemma bitmap_find_none:
  assumes "\<And>j. i \<le> j \<Longrightarrow> j < k \<Longrightarrow> b + j < sz \<Longrightarrow> bm d j"
  shows "bitmap_find [i..<k] b sz d = None"
  using assms
proof (induction "k - i" arbitrary: i)
  case (Suc m)
  then have "[i..<k] = i # [Suc i..<k]" by (simp add: upt_conv_Cons)
  then show ?case using Suc by (simp add: bm_clear)
qed simp

end
