(* ===== verification/TxOps.thy ===== *)
theory TxOps
  imports TxFacts Fs
begin

text \<open>
  Working inside a transaction: reading a block, changing its contents and logging it, and giving it up. Nothing of this
  writes to the disk. \<open>tx_step\<close> collects what every step leaves alone.
\<close>

section \<open>Steps of a transaction\<close>

definition tx_keep :: "'z lgstate_scheme \<Rightarrow> 'z lgstate_scheme \<Rightarrow> bool" where
  "tx_keep s s' \<longleftrightarrow> lgstate.more s' = lgstate.more s \<and> log_start (klog s') = log_start (klog s) \<and> log_size (klog s') = log_size (klog s) \<and>
     log_dev (klog s') = log_dev (klog s) \<and> outstanding (klog s') = outstanding (klog s) \<and> committing (klog s') = committing (klog s)"

lemma tx_keep_refl [simp]: "tx_keep s s"
  by (simp add: tx_keep_def)

lemma tx_keep_trans: "tx_keep s s' \<Longrightarrow> tx_keep s' s'' \<Longrightarrow> tx_keep s s''"
  by (simp add: tx_keep_def)

lemma keep_tx_keep: "keep p s s' \<Longrightarrow> tx_keep s s'"
  by (cases s; cases s') (auto simp: keep_def tx_keep_def)

lemma tx_keep_norm [simp]: "tx_keep s (norm s') = tx_keep s s'"
proof -
  have "lgstate.more (norm s') = lgstate.more s'" by (simp add: norm_def spinlock_defs Let_def)
  then show ?thesis by (simp add: tx_keep_def)
qed

lemma tx_keep_bufs [simp]: "tx_keep s (bufs_update f s') = tx_keep s s'"
  by (simp add: tx_keep_def)

lemma tx_keep_place:
  assumes "tx_keep s s'"
  shows "lpos (klog s') = lpos (klog s)" "area (klog s') = area (klog s)" "ldev s' = ldev s"
proof -
  show p: "lpos (klog s') = lpos (klog s)" using assms by (simp add: tx_keep_def lpos_def fun_eq_iff)
  then show "area (klog s') = area (klog s)" using assms by (simp add: tx_keep_def area_def)
  show "ldev s' = ldev s" using assms by (simp add: tx_keep_def)
qed

lemma tx_keep_fs: "tx_keep s s' \<Longrightarrow> sb s' = sb s" "tx_keep s s' \<Longrightarrow> inodes s' = inodes s"
  by (cases s; cases s'; auto simp: tx_keep_def)+

text \<open>The blocks in use, and those that can still be logged.\<close>

definition tx_fits :: "'z lgstate_scheme \<Rightarrow> u32 set \<Rightarrow> bool" where
  "tx_fits s H \<longleftrightarrow> card H + logged (klog s) < NBUF"

lemma tx_more_refs:
  assumes "tx_fits s H" "finite H"
  shows "more_refs (tx_rc (klog s) H) n"
proof -
  have "card (H \<union> homes (klog s)) \<le> card H + card (homes (klog s))" by (rule card_Un_le)
  also have "\<dots> \<le> card H + logged (klog s)" using card_homes[of "klog s"] by simp
  finally have "card {k. 0 < tx_rc (klog s) H k} < NBUF" unfolding tx_rc_refs using assms(1) by (simp add: tx_fits_def)
  moreover have "finite {k. 0 < tx_rc (klog s) H k}" unfolding tx_rc_refs using assms(2) by simp
  ultimately show ?thesis unfolding more_refs_def using tx_rc_small by blast
qed

lemma tx_rc_insert: "n \<notin> H \<Longrightarrow> (tx_rc l H)(n := tx_rc l H n + 1) = tx_rc l (insert n H)"
  by (auto simp: tx_rc_def fun_eq_iff)

lemma tx_rc_remove: "n \<in> H \<Longrightarrow> (tx_rc l H)(n := tx_rc l H n - 1) = tx_rc l (H - {n})"
  by (auto simp: tx_rc_def fun_eq_iff)

abbreviation unchanged :: "(u32 \<Rightarrow> u8 list) \<Rightarrow> 'z vdstate_scheme \<Rightarrow> bool" where
  "unchanged D \<equiv> crash (\<lambda>E. E = D)"

lemma tx_bread:
  assumes t: "tx_inv p s V H D" and n: "n \<notin> H" "small n" "tx_fits s H"
  shows "safe (disk_rely p) (unchanged D) (\<lambda>b s'. tx_inv p s' V (insert n H) D \<and> hnd (ldev s) s' b n \<and> bdata b s' = V n \<and>
    klog s' = klog s \<and> tx_keep s s' \<and> (\<forall>x k. k \<in> H \<and> hnd (ldev s) s x k \<longrightarrow> hnd (ldev s) s' x k)) (bread (ldev s) n s)"
proof -
  note T = tx_invD[OF t]
  show ?thesis
  proof (rule safe_mono[OF bread_safe[where C = "\<lambda>E. E = D", OF T(1) n(1,2) tx_more_refs[OF n(3) T(4)] refl]])
    fix b s' assume a: "cache_st p (ldev s) s' V ((tx_rc (klog s) H)(n := tx_rc (klog s) H n + 1)) (insert n H) D \<and> hnd (ldev s) s' b n \<and>
      (\<forall>x k. 0 < tx_rc (klog s) H k \<and> hnd (ldev s) s x k \<longrightarrow> hnd (ldev s) s' x k) \<and> keep p s s'"
    then have c: "cache_st p (ldev s) s' V (tx_rc (klog s) (insert n H)) (insert n H) D" and k: "klog s' = klog s"
      using tx_rc_insert[OF n(1)] keep_klog[of p s s'] by simp_all
    have "V k = D k" if "small k" "k \<notin> area (klog s) \<union> insert n H \<union> homes (klog s)" for k using T(5)[OF that(1)] that(2) by simp
    then have "tx_inv p s' V (insert n H) D" unfolding tx_inv_def k using c T(2,3,4) by simp
    moreover have "bdata b s' = V n" using bdata_cache[OF c] a by blast
    moreover have "hnd (ldev s) s' x k" if "k \<in> H" "hnd (ldev s) s x k" for x k using a that by (simp add: tx_rc_def)
    ultimately show "tx_inv p s' V (insert n H) D \<and> hnd (ldev s) s' b n \<and> bdata b s' = V n \<and> klog s' = klog s \<and> tx_keep s s' \<and>
        (\<forall>x k. k \<in> H \<and> hnd (ldev s) s x k \<longrightarrow> hnd (ldev s) s' x k)"
      using a k keep_tx_keep by blast
  qed
qed

lemma tx_set_data:
  assumes t: "tx_inv p s V H D" and h: "hnd (ldev s) s b n" "n \<in> H" and l: "length v = BSIZE"
  shows "tx_inv p (set_data b v s) (V(n := v)) H D" "hnd (ldev s) (set_data b v s) = hnd (ldev s) s" "klog (set_data b v s) = klog s"
    "tx_keep s (set_data b v s)"
proof -
  note T = tx_invD[OF t]
  have c: "cache_st p (ldev s) (set_data b v s) (V(n := v)) (tx_rc (klog s) H) H D" "hnd (ldev s) (set_data b v s) = hnd (ldev s) s"
    "keep p s (set_data b v s)" using set_data_cache[OF T(1) h l] by blast+
  show k: "klog (set_data b v s) = klog s" using keep_klog[OF c(3)] .
  show "hnd (ldev s) (set_data b v s) = hnd (ldev s) s" "tx_keep s (set_data b v s)" using c keep_tx_keep by blast+
  have "(V(n := v)) k = D k" if "small k" "k \<notin> area (klog s) \<union> H \<union> homes (klog s)" for k using T(5)[OF that(1)] that(2) h(2) by auto
  then show "tx_inv p (set_data b v s) (V(n := v)) H D" unfolding tx_inv_def k using c(1) T(2-4) by simp
qed

lemma tx_brelse:
  assumes t: "tx_inv p s V H D" and h: "hnd (ldev s) s b n" "n \<in> H" and c: "n \<in> homes (klog s) \<or> V n = D n"
  shows "\<exists>s'. brelse b s = Ok () s' \<and> tx_inv p s' V (H - {n}) D \<and> hnd (ldev s) s' = hnd (ldev s) s \<and> klog s' = klog s \<and> tx_keep s s'"
proof -
  note T = tx_invD[OF t]
  have "tx_rc (klog s) H n = 1 \<Longrightarrow> V n = D n" using c h(2) by (auto simp: tx_rc_def split: if_splits)
  from brelse_eq[OF T(1) h this] obtain s' where s': "brelse b s = Ok () s'"
    "cache_st p (ldev s) s' V ((tx_rc (klog s) H)(n := tx_rc (klog s) H n - 1)) (H - {n}) D" "hnd (ldev s) s' = hnd (ldev s) s" "keep p s s'" by blast
  have k: "klog s' = klog s" using keep_klog[OF s'(4)] .
  have "V k = D k" if "small k" "k \<notin> area (klog s) \<union> (H - {n}) \<union> homes (klog s)" for k
    using T(5)[OF that(1)] that(2) c by (cases "k = n") auto
  then have "tx_inv p s' V (H - {n}) D" unfolding tx_inv_def k using s'(2) T(2-4) tx_rc_remove[OF h(2)] by simp
  then show ?thesis using s'(1,3) k keep_tx_keep[OF s'(4)] by blast
qed

text \<open>Room for \<open>k\<close> more blocks in the log of an open transaction.\<close>

definition tx_room :: "'z lgstate_scheme \<Rightarrow> nat \<Rightarrow> bool" where
  "tx_room s k \<longleftrightarrow> 1 \<le> outstanding (klog s) \<and> lhn s + int k \<le> log_size (klog s) - 1"

lemma tx_room_fits: "log_ok (klog s) \<Longrightarrow> tx_room s k \<Longrightarrow> card H \<le> k \<Longrightarrow> tx_fits s H"
  by (auto simp: tx_room_def tx_fits_def log_ok_def NBUF_def LOGSIZE_def)

lemma tx_room_less: "tx_room s k \<Longrightarrow> j \<le> k \<Longrightarrow> tx_room s j"
  by (auto simp: tx_room_def)

lemma tx_room_same: "klog s' = klog s \<Longrightarrow> tx_room s' k = tx_room s k"
  by (simp add: tx_room_def)

lemma tx_log_write:
  assumes t: "tx_inv p s V H D" and h: "hnd (ldev s) s b n" "n \<in> H" "n \<notin> area (klog s)" and r: "tx_room s (Suc k)"
  shows "\<exists>s'. log_write b s = Ok () s' \<and> tx_inv p s' V H D \<and> hnd (ldev s) s' = hnd (ldev s) s \<and> tx_keep s s' \<and>
    homes (klog s') = insert n (homes (klog s)) \<and> tx_room s' k"
proof -
  have b: "b_blockno (bufs s b) = n" using h(1) by (simp add: hnd_def)
  have l: "0 \<le> lhn s" "log_size (klog s) \<le> int LOGSIZE" using tx_invD(2)[OF t] by (simp_all add: log_ok_def)
  have g: "lhn s < int LOGSIZE" "lhn s < log_size (klog s) - 1" "1 \<le> outstanding (klog s)"
    using r l(2) by (auto simp: tx_room_def)
  show ?thesis
  proof (cases "n \<in> homes (klog s)")
    case True
    then have "log_write b s = Ok () (norm s)" using log_write_absorb[OF t _ g] b by simp
    moreover have "tx_room (norm s) k" using r by (simp add: tx_room_def)
    ultimately show ?thesis using t True by (intro exI[of _ "norm s"]) (simp add: insert_absorb)
  next
    case False
    let ?u = "(upd_buf b (\<lambda>q. q\<lparr>b_refcnt := b_refcnt q + 1\<rparr>) s)\<lparr>klog := appended n (klog s)\<rparr>"
    have "tx_inv p (norm ?u) V H D" unfolding tx_inv_norm by (rule tx_inv_append[OF t h False g(2)])
    moreover have "hnd (ldev s) (norm ?u) = hnd (ldev s) s" by (auto simp: hnd_def upd_buf_def fun_eq_iff)
    moreover have "tx_keep s (norm ?u)" unfolding tx_keep_norm by (simp add: tx_keep_def upd_buf_def)
    moreover have "homes (klog (norm ?u)) = insert n (homes (klog s))" using homes_appended[OF l(1), of n] by (simp del: appended_simps)
    moreover have "tx_room (norm ?u) k" using r by (simp add: tx_room_def)
    ultimately show ?thesis unfolding log_write_append[OF t b False g] by blast
  qed
qed

text \<open>Changing a block: read it, store new contents, log it and give it up.\<close>

lemma tx_change:
  assumes t: "tx_inv p s V H D" and h: "hnd (ldev s) s b n" "n \<in> H" "n \<notin> area (klog s)" and r: "tx_room s (Suc k)" and l: "length v = BSIZE"
  shows "\<exists>s'. bind (log_write b (set_data b v s)) (\<lambda>_ s. brelse b s) = Ok () s' \<and> tx_inv p s' (V(n := v)) (H - {n}) D \<and>
    hnd (ldev s) s' = hnd (ldev s) s \<and> tx_keep s s' \<and> homes (klog s') = insert n (homes (klog s)) \<and> tx_room s' k"
proof -
  note sd = tx_set_data[OF t h(1,2) l]
  let ?s = "set_data b v s"
  have ld: "ldev ?s = ldev s" using sd(3) by simp
  have "hnd (ldev ?s) ?s b n" "n \<notin> area (klog ?s)" "tx_room ?s (Suc k)" using sd h r by (simp_all add: tx_room_def)
  from tx_log_write[OF sd(1) this(1) h(2) this(2,3)] obtain s1 where 1: "log_write b ?s = Ok () s1" "tx_inv p s1 (V(n := v)) H D"
    "hnd (ldev s) s1 = hnd (ldev s) ?s" "tx_keep ?s s1" "homes (klog s1) = insert n (homes (klog s))" "tx_room s1 k"
    unfolding ld sd(3) by blast
  have k1: "tx_keep s s1" using tx_keep_trans[OF sd(4) 1(4)] .
  have ld1: "ldev s1 = ldev s" using tx_keep_place(3)[OF k1] .
  have "hnd (ldev s1) s1 b n" using 1(3) sd(2) h(1) ld1 by simp
  from tx_brelse[OF 1(2) this h(2)] obtain s2 where 2: "brelse b s1 = Ok () s2" "tx_inv p s2 (V(n := v)) (H - {n}) D"
    "hnd (ldev s) s2 = hnd (ldev s) s1" "klog s2 = klog s1" "tx_keep s1 s2" unfolding 1(5) ld1 by blast
  show ?thesis
    using 1 2 tx_keep_trans[OF k1 2(5)] tx_room_same[OF 2(4)] sd(2) by (intro exI[of _ s2]) simp
qed

lemma tx_update:
  assumes t: "tx_inv p s V H D" and n: "n \<notin> H" "small n" "n \<notin> area (klog s)" "card H \<le> Suc k" "tx_room s (Suc k)"
    and w: "\<And>b s'. tx_keep s s' \<Longrightarrow> bdata b s' = V n \<Longrightarrow> w b s' = set_data b v s'" and l: "length v = BSIZE"
  shows "safe (disk_rely p) (unchanged D) (\<lambda>_ s'. tx_inv p s' (V(n := v)) H D \<and> tx_keep s s' \<and> homes (klog s') = insert n (homes (klog s)) \<and>
    tx_room s' k \<and> (\<forall>x j. j \<in> H \<and> hnd (ldev s) s x j \<longrightarrow> hnd (ldev s) s' x j))
    (bind (bread (ldev s) n s) (\<lambda>b s. bind (log_write b (w b s)) (\<lambda>_ s. brelse b s)))"
proof (rule safe_seq[OF tx_bread[OF t n(1,2) tx_room_fits[OF tx_invD(2)[OF t] n(5,4)]]])
  fix b s1 assume a: "tx_inv p s1 V (insert n H) D \<and> hnd (ldev s) s1 b n \<and> bdata b s1 = V n \<and> klog s1 = klog s \<and> tx_keep s s1 \<and>
    (\<forall>x k. k \<in> H \<and> hnd (ldev s) s x k \<longrightarrow> hnd (ldev s) s1 x k)"
  then have 1: "tx_inv p s1 V (insert n H) D" "hnd (ldev s1) s1 b n" "n \<notin> area (klog s1)" "tx_room s1 (Suc k)" "w b s1 = set_data b v s1"
    using n(3,5) tx_keep_place(3)[of s s1] tx_room_same[of s1 s] w by auto
  have e: "insert n H - {n} = H" using n(1) by simp
  from tx_change[OF 1(1,2) insertI1 1(3,4) l] obtain s2 where 2: "bind (log_write b (set_data b v s1)) (\<lambda>_ s. brelse b s) = Ok () s2"
    "tx_inv p s2 (V(n := v)) H D" "hnd (ldev s1) s2 = hnd (ldev s1) s1" "tx_keep s1 s2" "homes (klog s2) = insert n (homes (klog s1))" "tx_room s2 k"
    unfolding e by blast
  show "safe (disk_rely p) (unchanged D) (\<lambda>_ s'. tx_inv p s' (V(n := v)) H D \<and> tx_keep s s' \<and> homes (klog s') = insert n (homes (klog s)) \<and>
      tx_room s' k \<and> (\<forall>x j. j \<in> H \<and> hnd (ldev s) s x j \<longrightarrow> hnd (ldev s) s' x j)) (bind (log_write b (w b s1)) (\<lambda>_ s. brelse b s))"
    unfolding 1(5) 2(1) using 2 a tx_keep_trans[of s s1 s2] by simp
qed

end
