(* ===== verification/FsOps.thy ===== *)
theory FsOps
  imports TxOps FsFacts
begin

text \<open>
  The block allocator and the inode operations of \<^verbatim>\<open>fs.c\<close> inside a transaction, described by their effect on the
  contents \<open>V\<close> of the blocks.
\<close>

section \<open>Zeroing and allocating blocks\<close>

lemma bzero_safe:
  assumes t: "tx_inv p s V {} D" and n: "small n" "n \<notin> area (klog s)" "tx_room s (Suc k)"
  shows "safe (disk_rely p) (unchanged D) (\<lambda>_ s'. tx_inv p s' (V(n := replicate BSIZE 0)) {} D \<and> tx_keep s s' \<and> tx_room s' k) (bzero (ldev s) n s)"
  unfolding bzero_def
proof (rule safe_mono[OF tx_update[OF t _ n(1,2) _ n(3)]])
  fix b s' assume "bdata b s' = V n"
  moreover have "length (V n) = BSIZE" using bc.block[OF tx_invD(1)[OF t] n(1)] .
  ultimately show "set_data b (put_at (bdata b s') 0 (replicate BSIZE 0)) s' = set_data b (replicate BSIZE 0) s'"
    by (simp add: put_at_def)
qed auto

text \<open>Whether the free map of the file system lists block \<open>b\<close> as in use.\<close>

definition used :: "superblock \<Rightarrow> (u32 \<Rightarrow> u8 list) \<Rightarrow> nat \<Rightarrow> bool" where
  "used sbk V b = bm (V (BBLOCK b sbk)) (b mod BPB)"

text \<open>The bitmap lies outside the log and within reach of the driver.\<close>

definition bitmap_ok :: "klog \<Rightarrow> superblock \<Rightarrow> bool" where
  "bitmap_ok l sbk \<longleftrightarrow> (\<forall>b < unat (sb_size sbk). small (BBLOCK b sbk) \<and> BBLOCK b sbk \<notin> area l)"

lemma BPB_pos: "0 < BPB" "BPB = 8 * BSIZE"
  by (simp_all add: BPB_def BSIZE_def)

lemma BBLOCK_mult: "j < BPB \<Longrightarrow> BBLOCK (m * BPB + j) sbk = BBLOCK (m * BPB) sbk" "j < BPB \<Longrightarrow> (m * BPB + j) mod BPB = j"
  by (simp_all add: BBLOCK_def)

lemma bm_byte: "j < BPB \<Longrightarrow> length d = BSIZE \<Longrightarrow> j div 8 < length d"
  by (simp add: BPB_pos div_less_iff_less_mult mult.commute)

text \<open>The block after \<^verbatim>\<open>balloc\<close> has taken bit \<open>b\<close>.\<close>

definition taken_map :: "superblock \<Rightarrow> nat \<Rightarrow> (u32 \<Rightarrow> u8 list) \<Rightarrow> u32 \<Rightarrow> u8 list" where
  "taken_map sbk b V = V(BBLOCK b sbk := set_bit_at (b mod BPB) (V (BBLOCK b sbk)))"

lemma balloc_hit:
  assumes t: "tx_inv p s V {} D" and sbs: "bitmap_ok (klog s) (sb s)" and r: "tx_room s (Suc (Suc k))"
    and b: "b < unat (sb_size (sb s))" "\<not> used (sb s) V b" "\<And>j. m * BPB \<le> j \<Longrightarrow> j < b \<Longrightarrow> used (sb s) V j" "b div BPB = m"
    and n: "small (of_nat b)" "of_nat b \<notin> area (klog s)"
  shows "safe (disk_rely p) (unchanged D) (\<lambda>a s'. a = of_nat b \<and> tx_inv p s' ((taken_map (sb s) b V)(of_nat b := replicate BSIZE 0)) {} D \<and>
    tx_keep s s' \<and> tx_room s' k) (balloc_loop (m * BPB # bs) (ldev s) s)"
proof -
  let ?n = "BBLOCK b (sb s)" and ?i = "b mod BPB"
  have B: "small ?n" "?n \<notin> area (klog s)" using sbs b(1) by (auto simp: bitmap_ok_def)
  have mb: "b = m * BPB + ?i" using b(4) by (metis div_mult_mod_eq)
  have i: "?i < BPB" using BPB_pos by simp
  have nb: "BBLOCK (m * BPB) (sb s) = ?n" using BBLOCK_mult(1)[OF i, of m] mb by simp
  have fnd: "bitmap_find [0..<BPB] (m * BPB) (unat (sb_size (sb s))) (V ?n) = Some ?i"
  proof (rule bitmap_find_upt)
    fix j assume "j < ?i"
    then have j: "j < BPB" "m * BPB + j < b" using i mb by linarith+
    have "used (sb s) V (m * BPB + j)" using b(3) j(2) by simp
    then show "bm (V ?n) j" using BBLOCK_mult[OF j(1), of m] nb by (simp add: used_def)
  qed (use i b mb in \<open>auto simp: used_def\<close>)
  have len: "length (set_bit_at ?i (V ?n)) = BSIZE" using bc.block[OF tx_invD(1)[OF t] B(1)] by simp
  have f0: "tx_fits s {}" using tx_room_fits[OF tx_invD(2)[OF t] r] by simp
  show ?thesis unfolding balloc_loop.simps nb
  proof (rule safe_seq[OF tx_bread[OF t _ B(1) f0]])
    fix bp s1 assume a: "tx_inv p s1 V {?n} D \<and> hnd (ldev s) s1 bp ?n \<and> bdata bp s1 = V ?n \<and> klog s1 = klog s \<and> tx_keep s s1 \<and>
      (\<forall>x k. k \<in> {} \<and> hnd (ldev s) s x k \<longrightarrow> hnd (ldev s) s1 x k)"
    then have 1: "tx_inv p s1 V {?n} D" "hnd (ldev s1) s1 bp ?n" "?n \<notin> area (klog s1)" "tx_room s1 (Suc (Suc k))" "sb s1 = sb s" "tx_keep s s1"
      using B(2) r tx_keep_place(3)[of s s1] tx_keep_fs(1)[of s s1] tx_room_same[of s1 s] by auto
    from tx_change[OF 1(1,2) _ 1(3,4) len] obtain s2 where 2: "bind (log_write bp (set_data bp (set_bit_at ?i (V ?n)) s1)) (\<lambda>_ s. brelse bp s) = Ok () s2"
      "tx_inv p s2 (taken_map (sb s) b V) {} D" "tx_keep s1 s2" "tx_room s2 (Suc k)"
      by (auto simp: taken_map_def)
    have k2: "tx_keep s s2" using tx_keep_trans[OF 1(6) 2(3)] .
    have n2: "of_nat b \<notin> area (klog s2)" "ldev s2 = ldev s" using n(2) tx_keep_place[OF k2] by simp_all
    have "bind (log_write bp (set_data bp (set_bit_at ?i (bdata bp s1)) s1)) (\<lambda>_ t. bind (brelse bp t) (\<lambda>_ t.
        bind (bzero (ldev s) (of_nat (m * BPB + ?i)) t) (\<lambda>_ s. Ok (of_nat (m * BPB + ?i) :: u32) s))) =
      bind (bind (log_write bp (set_data bp (set_bit_at ?i (V ?n)) s1)) (\<lambda>_ s. brelse bp s)) (\<lambda>_ t.
        bind (bzero (ldev s) (of_nat b) t) (\<lambda>_ s. Ok (of_nat b :: u32) s))"
      using a mb by (simp add: kbind_assoc)
    also have "\<dots> = bind (bzero (ldev s2) (of_nat b) s2) (\<lambda>_ s. Ok (of_nat b :: u32) s)" unfolding 2(1) n2(2) by simp
    finally have run: "(case bitmap_find [0..<BPB] (m * BPB) (unat (sb_size (sb s1))) (bdata bp s1) of
         Some bi \<Rightarrow> bind (log_write bp (set_data bp (set_bit_at bi (bdata bp s1)) s1)) (\<lambda>_ t. bind (brelse bp t) (\<lambda>_ t.
           bind (bzero (ldev s) (of_nat (m * BPB + bi)) t) (\<lambda>_ s. Ok (of_nat (m * BPB + bi)) s)))
       | None \<Rightarrow> bind (brelse bp s1) (\<lambda>_ t. balloc_loop bs (ldev s) t)) = bind (bzero (ldev s2) (of_nat b) s2) (\<lambda>_ s. Ok (of_nat b :: u32) s)"
      using a fnd 1(5) by simp
    show "safe (disk_rely p) (unchanged D) (\<lambda>a s'. a = of_nat b \<and> tx_inv p s' ((taken_map (sb s) b V)(of_nat b := replicate BSIZE 0)) {} D \<and>
        tx_keep s s' \<and> tx_room s' k)
      (case bitmap_find [0..<BPB] (m * BPB) (unat (sb_size (sb s1))) (bdata bp s1) of
         Some bi \<Rightarrow> bind (log_write bp (set_data bp (set_bit_at bi (bdata bp s1)) s1)) (\<lambda>_ t. bind (brelse bp t) (\<lambda>_ t.
           bind (bzero (ldev s) (of_nat (m * BPB + bi)) t) (\<lambda>_ s. Ok (of_nat (m * BPB + bi)) s)))
       | None \<Rightarrow> bind (brelse bp s1) (\<lambda>_ t. balloc_loop bs (ldev s) t))"
      unfolding run by (rule safe_seq[OF bzero_safe[OF 2(2) n(1) n2(1) 2(4)]]) (use tx_keep_trans[OF k2] in auto)
  qed simp
qed

lemma balloc_skip:
  assumes t: "tx_inv p s V {} D" and sbs: "bitmap_ok (klog s) (sb s)" and f: "tx_fits s {}" and m: "m * BPB < unat (sb_size (sb s))"
    and b: "\<And>j. m * BPB \<le> j \<Longrightarrow> j < m * BPB + BPB \<Longrightarrow> j < unat (sb_size (sb s)) \<Longrightarrow> used (sb s) V j"
    and k: "\<And>s'. tx_inv p s' V {} D \<Longrightarrow> tx_keep s s' \<Longrightarrow> klog s' = klog s \<Longrightarrow> safe (disk_rely p) (unchanged D) Q (balloc_loop bs (ldev s) s')"
  shows "safe (disk_rely p) (unchanged D) Q (balloc_loop (m * BPB # bs) (ldev s) s)"
proof -
  let ?n = "BBLOCK (m * BPB) (sb s)"
  have B: "small ?n" "?n \<notin> area (klog s)" using sbs m by (auto simp: bitmap_ok_def)
  have fnd: "bitmap_find [0..<BPB] (m * BPB) (unat (sb_size (sb s))) (V ?n) = None"
  proof (rule bitmap_find_none)
    fix j assume j: "j < BPB" "m * BPB + j < unat (sb_size (sb s))"
    then have "used (sb s) V (m * BPB + j)" by (intro b) auto
    then show "bm (V ?n) j" using BBLOCK_mult[OF j(1), of m] by (simp add: used_def)
  qed
  show ?thesis unfolding balloc_loop.simps
  proof (rule safe_seq[OF tx_bread[OF t _ B(1) f]])
    fix bp s1 assume a: "tx_inv p s1 V {?n} D \<and> hnd (ldev s) s1 bp ?n \<and> bdata bp s1 = V ?n \<and> klog s1 = klog s \<and> tx_keep s s1 \<and>
      (\<forall>x k. k \<in> {} \<and> hnd (ldev s) s x k \<longrightarrow> hnd (ldev s) s1 x k)"
    then have 1: "tx_inv p s1 V {?n} D" "hnd (ldev s1) s1 bp ?n" "sb s1 = sb s" "bdata bp s1 = V ?n"
      using tx_keep_place(3)[of s s1] tx_keep_fs(1)[of s s1] by auto
    have "?n \<in> homes (klog s1) \<or> V ?n = D ?n" using tx_invD(5)[OF t B] a by auto
    from tx_brelse[OF 1(1,2) _ this] obtain s2 where 2: "brelse bp s1 = Ok () s2" "tx_inv p s2 V {} D" "klog s2 = klog s1" "tx_keep s1 s2" by auto
    have "safe (disk_rely p) (unchanged D) Q (balloc_loop bs (ldev s) s2)" using 2 a tx_keep_trans[of s s1 s2] by (intro k) auto
    then show "safe (disk_rely p) (unchanged D) Q (case bitmap_find [0..<BPB] (m * BPB) (unat (sb_size (sb s1))) (bdata bp s1) of
         Some bi \<Rightarrow> bind (log_write bp (set_data bp (set_bit_at bi (bdata bp s1)) s1)) (\<lambda>_ t. bind (brelse bp t) (\<lambda>_ t.
           bind (bzero (ldev s) (of_nat (m * BPB + bi)) t) (\<lambda>_ s. Ok (of_nat (m * BPB + bi)) s)))
       | None \<Rightarrow> bind (brelse bp s1) (\<lambda>_ t. balloc_loop bs (ldev s) t))"
      unfolding 1(3,4) fnd using 2(1) by simp
  qed simp
qed

lemma balloc_from:
  assumes "tx_inv p s V {} D" "bitmap_ok (klog s) (sb s)" "tx_room s (Suc (Suc k))"
    "b < unat (sb_size (sb s))" "\<not> used (sb s) V b" "\<And>j. m * BPB \<le> j \<Longrightarrow> j < b \<Longrightarrow> used (sb s) V j" "m \<le> b div BPB" "b div BPB < M"
    "small (of_nat b)" "of_nat b \<notin> area (klog s)"
  shows "safe (disk_rely p) (unchanged D) (\<lambda>a s'. a = of_nat b \<and> tx_inv p s' ((taken_map (sb s) b V)(of_nat b := replicate BSIZE 0)) {} D \<and>
    tx_keep s s' \<and> tx_room s' k) (balloc_loop (map (\<lambda>k. k * BPB) [m..<M]) (ldev s) s)"
  using assms
proof (induction "b div BPB - m" arbitrary: m s)
  case 0
  have u: "map (\<lambda>k. k * BPB) [m..<M] = m * BPB # map (\<lambda>k. k * BPB) [Suc m..<M]" and m: "b div BPB = m"
    using 0 by (simp_all add: upt_conv_Cons)
  show ?case unfolding u by (rule balloc_hit[OF 0(2-7) m 0(10,11)])
next
  case (Suc x)
  note p = Suc.prems
  have u: "map (\<lambda>k. k * BPB) [m..<M] = m * BPB # map (\<lambda>k. k * BPB) [Suc m..<M]" using Suc.hyps(2) p(8) by (simp add: upt_conv_Cons)
  have "Suc m \<le> b div BPB" using Suc.hyps(2) by simp
  then have mb: "Suc m * BPB \<le> b" using BPB_pos(1) by (metis div_times_less_eq_dividend le_trans mult_le_mono1)
  show ?case unfolding u
  proof (rule balloc_skip[OF p(1,2)])
    show "tx_fits s {}" using tx_room_fits[OF tx_invD(2)[OF p(1)] p(3)] by simp
    show "m * BPB < unat (sb_size (sb s))" using mb p(4) BPB_pos(1) by simp
    show "used (sb s) V j" if "m * BPB \<le> j" "j < m * BPB + BPB" for j using that mb by (intro p(6)) simp_all
    fix s' assume s': "tx_inv p s' V {} D" "tx_keep s s'" "klog s' = klog s"
    have e: "sb s' = sb s" "ldev s' = ldev s" using tx_keep_fs(1)[OF s'(2)] s'(3) by simp_all
    have "safe (disk_rely p) (unchanged D) (\<lambda>a t. a = of_nat b \<and> tx_inv p t ((taken_map (sb s') b V)(of_nat b := replicate BSIZE 0)) {} D \<and>
        tx_keep s' t \<and> tx_room t k) (balloc_loop (map (\<lambda>k. k * BPB) [Suc m..<M]) (ldev s') s')"
    proof (rule Suc.hyps(1)[OF _ s'(1)])
      show "x = b div BPB - Suc m" using Suc.hyps(2) by simp
      show "used (sb s') V j" if "Suc m * BPB \<le> j" "j < b" for j using p(6)[of j] that e(1) by simp
    qed (use p s'(3) e tx_room_same[OF s'(3)] \<open>Suc m \<le> b div BPB\<close> in auto)
    then show "safe (disk_rely p) (unchanged D) (\<lambda>a s'. a = of_nat b \<and> tx_inv p s' ((taken_map (sb s) b V)(of_nat b := replicate BSIZE 0)) {} D \<and>
        tx_keep s s' \<and> tx_room s' k) (balloc_loop (map (\<lambda>k. k * BPB) [Suc m..<M]) (ldev s) s')"
      unfolding e by (rule safe_mono) (use tx_keep_trans[OF s'(2)] in auto)
  qed
qed

lemma balloc_safe:
  assumes "tx_inv p s V {} D" "bitmap_ok (klog s) (sb s)" "tx_room s (Suc (Suc k))"
    "b < unat (sb_size (sb s))" "\<not> used (sb s) V b" "\<And>j. j < b \<Longrightarrow> used (sb s) V j" "small (of_nat b)" "of_nat b \<notin> area (klog s)"
  shows "safe (disk_rely p) (unchanged D) (\<lambda>a s'. a = of_nat b \<and> tx_inv p s' ((taken_map (sb s) b V)(of_nat b := replicate BSIZE 0)) {} D \<and>
    tx_keep s s' \<and> tx_room s' k) (balloc (ldev s) s)"
proof -
  have "b div BPB < (unat (sb_size (sb s)) + BPB - 1) div BPB"
  proof -
    have "b + BPB \<le> unat (sb_size (sb s)) + BPB - 1" using assms(4) by simp
    then have "(b + BPB) div BPB \<le> (unat (sb_size (sb s)) + BPB - 1) div BPB" by (rule div_le_mono)
    moreover have "(b + BPB) div BPB = Suc (b div BPB)" using BPB_pos(1) by (simp add: div_add_self2)
    ultimately show ?thesis by linarith
  qed
  then show ?thesis unfolding balloc_def using assms by (intro balloc_from) auto
qed

section \<open>Freeing blocks\<close>

definition freed_map :: "superblock \<Rightarrow> nat \<Rightarrow> (u32 \<Rightarrow> u8 list) \<Rightarrow> u32 \<Rightarrow> u8 list" where
  "freed_map sbk b V = V(BBLOCK b sbk := clear_bit_at (b mod BPB) (V (BBLOCK b sbk)))"

lemma bfree_safe:
  assumes t: "tx_inv p s V H D" and n: "BBLOCK (unat b) (sb s) \<notin> H" "small (BBLOCK (unat b) (sb s))" "BBLOCK (unat b) (sb s) \<notin> area (klog s)"
    and r: "tx_room s (Suc k)" "card H \<le> Suc k" and u: "used (sb s) V (unat b)"
  shows "safe (disk_rely p) (unchanged D) (\<lambda>_ s'. tx_inv p s' (freed_map (sb s) (unat b) V) H D \<and> tx_keep s s' \<and> tx_room s' k \<and>
    (\<forall>x j. j \<in> H \<and> hnd (ldev s) s x j \<longrightarrow> hnd (ldev s) s' x j)) (bfree (ldev s) b s)"
  unfolding bfree_def
proof (rule safe_seq[OF tx_bread[OF t n(1,2) tx_room_fits[OF tx_invD(2)[OF t] r]]])
  let ?n = "BBLOCK (unat b) (sb s)" and ?i = "unat b mod BPB"
  fix bp s1 assume a: "tx_inv p s1 V (insert ?n H) D \<and> hnd (ldev s) s1 bp ?n \<and> bdata bp s1 = V ?n \<and> klog s1 = klog s \<and> tx_keep s s1 \<and>
    (\<forall>x k. k \<in> H \<and> hnd (ldev s) s x k \<longrightarrow> hnd (ldev s) s1 x k)"
  then have 1: "tx_inv p s1 V (insert ?n H) D" "hnd (ldev s1) s1 bp ?n" "?n \<notin> area (klog s1)" "tx_room s1 (Suc k)"
    using n(3) r(1) tx_keep_place(3)[of s s1] tx_room_same[of s1 s] by auto
  have len: "length (clear_bit_at ?i (V ?n)) = BSIZE" using bc.block[OF tx_invD(1)[OF t] n(2)] by simp
  have e: "insert ?n H - {?n} = H" using n(1) by simp
  from tx_change[OF 1(1,2) insertI1 1(3,4) len] obtain s2 where 2:
    "bind (log_write bp (set_data bp (clear_bit_at ?i (V ?n)) s1)) (\<lambda>_ s. brelse bp s) = Ok () s2"
    "tx_inv p s2 (freed_map (sb s) (unat b) V) H D" "hnd (ldev s1) s2 = hnd (ldev s1) s1" "tx_keep s1 s2" "tx_room s2 k"
    unfolding e freed_map_def by blast
  have bd: "bdata bp s1 = V ?n" using a by simp
  have nz: "\<not> V ?n ! (?i div 8) AND bit_mask ?i = 0" using u unfolding bm_clear by (simp add: used_def)
  show "safe (disk_rely p) (unchanged D) (\<lambda>_ s'. tx_inv p s' (freed_map (sb s) (unat b) V) H D \<and> tx_keep s s' \<and> tx_room s' k \<and>
      (\<forall>x j. j \<in> H \<and> hnd (ldev s) s x j \<longrightarrow> hnd (ldev s) s' x j))
    (let bi = unat b mod BPB in if bdata bp s1 ! (bi div 8) AND bit_mask bi = 0 then Panic ''freeing free block''
       else bind (log_write bp (set_data bp (clear_bit_at bi (bdata bp s1)) s1)) (\<lambda>_ s. brelse bp s))"
    unfolding Let_def if_not_P[OF nz] bd 2(1) using 2 a tx_keep_trans[of s s1 s2] by simp
qed

lemma unat_of_nat_32: "n < 2 ^ 32 \<Longrightarrow> unat (of_nat n :: u32) = n"
  by (simp add: unat_of_nat)

lemma used_taken:
  assumes "length (V (BBLOCK b sbk)) = BSIZE" "b div BPB < 2 ^ 32" "j div BPB < 2 ^ 32"
  shows "used sbk (taken_map sbk b V) j = (j = b \<or> used sbk V j)"
    "used sbk (freed_map sbk b V) j = (j \<noteq> b \<and> used sbk V j)"
proof -
  have m: "b mod BPB < BPB" using BPB_pos by simp
  note S = bm_set[OF bm_byte[OF m assms(1)]] bm_clear_at[OF bm_byte[OF m assms(1)]]
  have e: "BBLOCK j sbk = BBLOCK b sbk \<longleftrightarrow> j div BPB = b div BPB"
    using unat_of_nat_32[OF assms(2)] unat_of_nat_32[OF assms(3)] by (metis BBLOCK_def add_right_cancel)
  have q: "j mod BPB \<noteq> b mod BPB" if "j \<noteq> b" "j div BPB = b div BPB" using that by (metis div_mult_mod_eq)
  show "used sbk (taken_map sbk b V) j = (j = b \<or> used sbk V j)" "used sbk (freed_map sbk b V) j = (j \<noteq> b \<and> used sbk V j)"
    using e q S by (cases "j = b"; cases "j div BPB = b div BPB"; simp add: used_def taken_map_def freed_map_def)+
qed

section \<open>Writing an inode\<close>

definition inode_map :: "superblock \<Rightarrow> inode \<Rightarrow> (u32 \<Rightarrow> u8 list) \<Rightarrow> u32 \<Rightarrow> u8 list" where
  "inode_map sbk i V = V(IBLOCK (i_inum i) sbk := put_dinode i (dip_off (i_inum i)) (V (IBLOCK (i_inum i) sbk)))"

lemma dip_off_fits: "dip_off n + DINODE_SIZE \<le> BSIZE"
proof -
  have "Suc (unat n mod IPB) \<le> IPB" by (simp add: IPB_def BSIZE_def DINODE_SIZE_def Suc_le_eq)
  from mult_le_mono1[OF this, of DINODE_SIZE] have "unat n mod IPB * DINODE_SIZE + DINODE_SIZE \<le> IPB * DINODE_SIZE" by simp
  also have "\<dots> = BSIZE" by (simp add: IPB_def BSIZE_def DINODE_SIZE_def)
  finally show ?thesis by (simp add: dip_off_def)
qed

end
