(* ===== verification/FileFacts.thy ===== *)
theory FileFacts
  imports FsOps FsData
begin

text \<open>
  The contents of files. \<open>file_data i V\<close> is the file an inode describes when the blocks of the disk have the contents \<open>V\<close>:
  the bytes of its blocks, direct ones and those listed in the indirect block, up to its size. Reading returns a
  piece of it, writing replaces one.
\<close>

section \<open>Blocks of a file\<close>

definition file_block :: "inode \<Rightarrow> (u32 \<Rightarrow> u8 list) \<Rightarrow> nat \<Rightarrow> u32" where
  "file_block i V bn = (if bn < NDIRECT then i_addrs i ! bn else get32 (V (i_addrs i ! NDIRECT)) (4 * (bn - NDIRECT)))"

definition file_data :: "inode \<Rightarrow> (u32 \<Rightarrow> u8 list) \<Rightarrow> u8 list" where
  "file_data i V = take (unat (i_size i)) (concat (map (\<lambda>bn. V (file_block i V bn)) [0..<MAXFILE]))"

text \<open>A block number the file may use: not 0, within reach of the driver and outside the log.\<close>

definition data_block :: "klog \<Rightarrow> u32 \<Rightarrow> bool" where
  "data_block l n \<longleftrightarrow> n \<noteq> 0 \<and> small n \<and> n \<notin> area l"

text \<open>The first \<open>k\<close> blocks of the file are allocated.\<close>

definition allocated :: "klog \<Rightarrow> inode \<Rightarrow> (u32 \<Rightarrow> u8 list) \<Rightarrow> nat \<Rightarrow> bool" where
  "allocated l i V k \<longleftrightarrow> k \<le> MAXFILE \<and> (\<forall>bn < k. data_block l (file_block i V bn)) \<and> (NDIRECT < k \<longrightarrow> data_block l (i_addrs i ! NDIRECT))"

text \<open>All blocks up to the size are allocated.\<close>

definition file_ok :: "klog \<Rightarrow> inode \<Rightarrow> (u32 \<Rightarrow> u8 list) \<Rightarrow> bool" where
  "file_ok l i V \<longleftrightarrow> unat (i_size i) \<le> MAXFILE * BSIZE \<and> allocated l i V ((unat (i_size i) + BSIZE - 1) div BSIZE)"

lemma concat_chunk:
  assumes "\<And>x. x \<in> set xs \<Longrightarrow> length x = B" "k < length xs" "j + m \<le> B"
  shows "take m (drop (k * B + j) (concat xs)) = take m (drop j (xs ! k))"
  using assms
proof (induction xs arbitrary: k)
  case (Cons x xs)
  show ?case
  proof (cases k)
    case 0
    then show ?thesis using Cons.prems(1)[of x] Cons.prems(3) by simp
  next
    case (Suc k')
    then show ?thesis using Cons.IH[of k'] Cons.prems by (simp add: add.assoc)
  qed
qed simp

lemma file_data_chunk:
  assumes "\<And>n. small n \<Longrightarrow> length (V n) = BSIZE" "allocated l i V k" "off div BSIZE < k" "off mod BSIZE + m \<le> BSIZE" "off + m \<le> unat (i_size i)"
    "unat (i_size i) \<le> k * BSIZE"
  shows "take m (drop (off mod BSIZE) (V (file_block i V (off div BSIZE)))) = take m (drop off (file_data i V))"
proof -
  let ?f = "\<lambda>bn. V (file_block i V bn)"
  have k: "k \<le> MAXFILE" "\<And>bn. bn < k \<Longrightarrow> length (?f bn) = BSIZE" using assms(1,2) by (auto simp: allocated_def data_block_def)
  have le: "length (concat (map ?f [0..<k])) = k * BSIZE"
  proof -
    have "map (\<lambda>bn. length (?f bn)) [0..<k] = map (\<lambda>_. BSIZE) [0..<k]" using k(2) by (intro map_cong) auto
    then have "sum_list (map (\<lambda>bn. length (?f bn)) [0..<k]) = k * BSIZE" by (simp only: sum_list_triv) simp
    then show ?thesis by (simp add: length_concat comp_def)
  qed
  have "[0..<MAXFILE] = [0..<k] @ [k..<MAXFILE]" using k(1) by (metis le_add_diff_inverse upt_add_eq_append zero_le)
  then have fd: "file_data i V = take (unat (i_size i)) (concat (map ?f [0..<k]))"
    using assms(6) le by (simp add: file_data_def)
  have "take m (drop (off div BSIZE * BSIZE + off mod BSIZE) (concat (map ?f [0..<k]))) = take m (drop (off mod BSIZE) (map ?f [0..<k] ! (off div BSIZE)))"
    by (rule concat_chunk) (use k assms(3,4) in auto)
  then have "take m (drop off (concat (map ?f [0..<k]))) = take m (drop (off mod BSIZE) (?f (off div BSIZE)))" using assms(3) by simp
  moreover have "m \<le> unat (i_size i) - off" using assms(5) by arith
  ultimately show ?thesis unfolding fd by (simp add: drop_take min_absorb1)
qed

section \<open>Mapping\<close>

text \<open>Looking into a block: read it and give it up again.\<close>

definition looking :: "nat \<Rightarrow> 'z lgstate_scheme \<Rightarrow> (u32 \<Rightarrow> u8 list) \<Rightarrow> u32 set \<Rightarrow> (u32 \<Rightarrow> u8 list) \<Rightarrow> u32 \<Rightarrow> nat \<Rightarrow> 'z lgstate_scheme \<Rightarrow> bool" where
  "looking p s V H D n b t \<longleftrightarrow> tx_inv p t V (insert n H) D \<and> hnd (ldev t) t b n \<and> bdata b t = V n \<and> klog t = klog s \<and> tx_keep s t"

lemma looking_norm [simp]: "looking p s V H D n b (norm t) = looking p s V H D n b t"
  by (simp add: looking_def bdata_def hnd_def)

lemma tx_look:
  assumes "tx_inv p s V H D" "n \<notin> H" "small n" "tx_fits s H"
  shows "safe (disk_rely p) (unchanged D) (looking p s V H D n) (bread (ldev s) n s)"
  by (rule safe_mono[OF tx_bread[OF assms]]) (auto simp: looking_def)

lemma looking_brelse:
  assumes t: "tx_inv p s V H D" "n \<notin> H" "small n" "n \<notin> area (klog s)" and l: "looking p s V H D n b t"
  shows "\<exists>s2. brelse b t = Ok () s2 \<and> tx_inv p s2 V H D \<and> klog s2 = klog s \<and> tx_keep s s2"
proof -
  have 1: "tx_inv p t V (insert n H) D" "hnd (ldev t) t b n" "klog t = klog s" "tx_keep s t" using l by (auto simp: looking_def)
  have "n \<in> homes (klog t) \<or> V n = D n" using tx_invD(5)[OF t(1,3,4)] t(2) 1(3) by auto
  from tx_brelse[OF 1(1,2) insertI1 this] obtain s2 where 2: "brelse b t = Ok () s2" "tx_inv p s2 V (insert n H - {n}) D" "klog s2 = klog t" "tx_keep t s2"
    by blast
  have "insert n H - {n} = H" using t(2) by simp
  then show ?thesis using 1(3) 2 tx_keep_trans[OF 1(4) 2(4)] by simp
qed

lemma looking_quiet: "looking p s V H D n b t \<Longrightarrow> curp t = Some p \<and> hart_ok t"
  unfolding looking_def using cache_stD(1)[OF tx_invD(1), of p t V "insert n H" D] quietD(1,2)[of p t] by blast

lemma bmap_safe:
  assumes t: "tx_inv p s V {} D" and f: "tx_fits s {}" and d: "i_dev (inodes s ip) = ldev s"
    and a: "allocated (klog s) (inodes s ip) V k" "bn < k"
  shows "safe (disk_rely p) (unchanged D) (\<lambda>r s'. r = file_block (inodes s ip) V bn \<and> tx_inv p s' V {} D \<and> klog s' = klog s \<and> tx_keep s s') (bmap ip bn s)"
proof (cases "bn < NDIRECT")
  case True
  then show ?thesis using a t by (auto simp: bmap_def file_block_def allocated_def data_block_def)
next
  case False
  let ?n = "i_addrs (inodes s ip) ! NDIRECT"
  have n: "?n \<noteq> 0" "small ?n" "?n \<notin> area (klog s)" using a False by (auto simp: allocated_def data_block_def)
  have bl: "\<not> bn < NDIRECT" "bn - NDIRECT < NINDIRECT" using False a by (auto simp: allocated_def MAXFILE_def)
  have nz: "get32 (V ?n) (4 * (bn - NDIRECT)) \<noteq> 0" using a False by (auto simp: allocated_def data_block_def file_block_def)
  have "safe (disk_rely p) (unchanged D) (\<lambda>r s'. r = file_block (inodes s ip) V bn \<and> tx_inv p s' V {} D \<and> klog s' = klog s \<and> tx_keep s s')
    (bind (bread (ldev s) ?n s) (\<lambda>bp s. let addr = get32 (bdata bp s) (4 * (bn - NDIRECT)) in
      bind (if addr = 0 then bind (balloc (i_dev (inodes s ip)) s) (\<lambda>addr s.
                 if addr \<noteq> 0 then bind (log_write bp (set_data bp (put32 (bdata bp s) (4 * (bn - NDIRECT)) addr) s)) (\<lambda>_ s. Ok addr s)
                 else Ok addr s)
             else Ok addr s) (\<lambda>addr s. bind (brelse bp s) (\<lambda>_ s. Ok addr s))))"
  proof (rule safe_seq[OF tx_look[OF t _ n(2) f]])
    fix bp s1 assume l: "looking p s V {} D ?n bp s1"
    have bd: "bdata bp s1 = V ?n" using l by (simp add: looking_def)
    from looking_brelse[OF t _ n(2,3) l] obtain s2 where b: "brelse bp s1 = Ok () s2" "tx_inv p s2 V {} D" "klog s2 = klog s" "tx_keep s s2" by blast
    show "safe (disk_rely p) (unchanged D) (\<lambda>r s'. r = file_block (inodes s ip) V bn \<and> tx_inv p s' V {} D \<and> klog s' = klog s \<and> tx_keep s s')
      (let addr = get32 (bdata bp s1) (4 * (bn - NDIRECT)) in
      bind (if addr = 0 then bind (balloc (i_dev (inodes s1 ip)) s1) (\<lambda>addr s.
                 if addr \<noteq> 0 then bind (log_write bp (set_data bp (put32 (bdata bp s) (4 * (bn - NDIRECT)) addr) s)) (\<lambda>_ s. Ok addr s)
                 else Ok addr s)
             else Ok addr s1) (\<lambda>addr s. bind (brelse bp s) (\<lambda>_ s. Ok addr s)))"
      unfolding Let_def bd if_not_P[OF nz] using b False by (simp add: file_block_def)
  qed simp
  then show ?thesis unfolding bmap_def if_not_P[OF bl(1)] if_P[OF bl(2)] if_not_P[OF n(1)] using d n(1) by simp
qed

section \<open>Reading\<close>

lemma either_copy_kern:
  assumes "curp s = Some p \<and> hart_ok s"
  shows "either_copyout KernDst bs s = Ok (0, bs) (norm s)" "either_copyin (KernSrc bs) n s = Ok (0, take n bs) (norm s)"
  using assms by (simp_all add: either_copyout_def either_copyin_def myproc_eq)

lemma readi_loop_safe:
  assumes t: "tx_inv p s V {} D" and f: "tx_fits s {}" and d: "i_dev (inodes s ip) = ldev s" and V: "\<And>n. small n \<Longrightarrow> length (V n) = BSIZE"
    and a: "allocated (klog s) (inodes s ip) V k" "unat (i_size (inodes s ip)) \<le> k * BSIZE"
    and n: "tot \<le> n" "off + (n - tot) \<le> unat (i_size (inodes s ip))"
  shows "safe (disk_rely p) (unchanged D) (\<lambda>r s'. r = (to_int n, out @ take (n - tot) (drop off (file_data (inodes s ip) V))) \<and>
    tx_inv p s' V {} D \<and> klog s' = klog s \<and> tx_keep s s') (readi_loop ip n tot KernDst off out s)"
  using t f d a n
proof (induction "n - tot" arbitrary: tot off out s rule: less_induct)
  case less
  note p = less.prems
  let ?i = "inodes s ip" and ?m = "min (n - tot) (BSIZE - off mod BSIZE)"
  let ?F = "file_data ?i V"
  let ?Q = "\<lambda>r s'. r = (to_int n, out @ take (n - tot) (drop off ?F)) \<and> tx_inv p s' V {} D \<and> klog s' = klog s \<and> tx_keep s s'"
  show ?case
  proof (cases "tot < n")
    case True
    have B: "0 < BSIZE" by (simp add: BSIZE_def)
    have ob: "off div BSIZE < k" using p(5,7) True B by (simp add: div_less_iff_less_mult)
    have m: "0 < ?m" "off mod BSIZE + ?m \<le> BSIZE" "off + ?m \<le> unat (i_size ?i)" "tot + ?m \<le> n"
      using chunk_pos[OF True, of off] mod_less_divisor[OF B, of off] p(7) by auto
    let ?n = "file_block ?i V (off div BSIZE)"
    have nb: "?n \<noteq> 0" "small ?n" "?n \<notin> area (klog s)" using p(4) ob by (auto simp: allocated_def data_block_def)
    have app: "take ?m (drop off ?F) @ take (n - (tot + ?m)) (drop (off + ?m) ?F) = take (n - tot) (drop off ?F)"
      using take_add[of ?m "n - (tot + ?m)" "drop off ?F"] m(4) by (simp add: add.commute)
    show ?thesis unfolding readi_loop.simps[of ip n tot] if_P[OF True]
    proof (rule safe_seq[OF bmap_safe[OF p(1,2,3,4) ob]])
      fix addr s1 assume a1: "addr = ?n \<and> tx_inv p s1 V {} D \<and> klog s1 = klog s \<and> tx_keep s s1"
      then have e1: "addr = ?n" "tx_inv p s1 V {} D" "klog s1 = klog s" "tx_keep s s1" by blast+
      have i1: "inodes s1 = inodes s" "?n \<notin> area (klog s1)" "tx_fits s1 {}" using tx_keep_fs(2)[OF e1(4)] e1(3) nb(3) p(2) by (simp_all add: tx_fits_def)
      have d1: "i_dev (inodes s1 ip) = ldev s1" using p(3) i1(1) e1(3) by simp
      show "safe (disk_rely p) (unchanged D) ?Q (if addr = 0 then Ok (to_int tot, out) s1
          else bind (bread (i_dev (inodes s1 ip)) addr s1) (\<lambda>bp t. let m = ?m in
            bind (either_copyout KernDst (take m (drop (off mod BSIZE) (bdata bp t))) t) (\<lambda>(r, bs) t.
              if r = -1 then bind (brelse bp t) (\<lambda>_ t. Ok (-1, out) t)
              else bind (brelse bp t) (\<lambda>_ t. readi_loop ip n (tot + m) (dst_add KernDst m) (off + m) (out @ bs) t))))"
        unfolding e1(1) if_not_P[OF nb(1)] d1 Let_def
      proof (rule safe_seq[OF tx_look[OF e1(2) _ nb(2) i1(3)]])
        fix bp s2 assume l: "looking p s1 V {} D ?n bp s2"
        have bd: "bdata bp s2 = V ?n" using l by (simp add: looking_def)
        have ln: "looking p s1 V {} D ?n bp (norm s2)" using l by simp
        from looking_brelse[OF e1(2) _ nb(2) i1(2) ln] obtain s3 where b: "brelse bp (norm s2) = Ok () s3" "tx_inv p s3 V {} D"
          "klog s3 = klog s" "tx_keep s1 s3" using e1(3) by auto
        have k3: "tx_keep s s3" using tx_keep_trans[OF e1(4) b(4)] .
        have e3: "inodes s3 ip = ?i" "tx_fits s3 {}" "ldev s3 = ldev s" using tx_keep_fs(2)[OF k3] b(3) p(2) by (simp_all add: tx_fits_def)
        let ?bs = "take ?m (drop (off mod BSIZE) (V ?n))"
        have bs: "?bs = take ?m (drop off ?F)" by (rule file_data_chunk[OF V p(4) ob m(2,3) p(5)])
        have run: "bind (either_copyout KernDst ?bs s2) (\<lambda>(r, bs) t. if r = -1 then bind (brelse bp t) (\<lambda>_ t. Ok (-1, out) t)
              else bind (brelse bp t) (\<lambda>_ t. readi_loop ip n (tot + ?m) (dst_add KernDst ?m) (off + ?m) (out @ bs) t)) =
            readi_loop ip n (tot + ?m) KernDst (off + ?m) (out @ ?bs) s3"
          unfolding either_copy_kern(1)[OF looking_quiet[OF l]] by (simp add: b(1))
        have "safe (disk_rely p) (unchanged D) (\<lambda>r s'. r = (to_int n, (out @ ?bs) @ take (n - (tot + ?m)) (drop (off + ?m) ?F)) \<and>
            tx_inv p s' V {} D \<and> klog s' = klog s3 \<and> tx_keep s3 s') (readi_loop ip n (tot + ?m) KernDst (off + ?m) (out @ ?bs) s3)"
        proof (rule less.hyps[OF _ b(2) e3(2), unfolded e3(1)])
          show "n - (tot + ?m) < n - tot" using m(1) True by arith
          show "i_dev ?i = ldev s3" unfolding e3(3) by (rule p(3))
          show "allocated (klog s3) ?i V k" unfolding b(3) by (rule p(4))
          show "off + ?m + (n - (tot + ?m)) \<le> unat (i_size ?i)" using p(7) m(4) by arith
        qed (rule p(5) m(4))+
        then show "safe (disk_rely p) (unchanged D) ?Q (bind (either_copyout KernDst (take ?m (drop (off mod BSIZE) (bdata bp s2))) s2) (\<lambda>(r, bs) t.
              if r = -1 then bind (brelse bp t) (\<lambda>_ t. Ok (-1, out) t)
              else bind (brelse bp t) (\<lambda>_ t. readi_loop ip n (tot + ?m) (dst_add KernDst ?m) (off + ?m) (out @ bs) t)))"
          unfolding bd run unfolding bs append_assoc app by (rule safe_mono) (use b(3) tx_keep_trans[OF k3] in auto)
      qed simp
    qed
  next
    case False
    then show ?thesis unfolding readi_loop.simps[of ip n tot] if_not_P[OF False] using p(1,6) by simp
  qed
qed

lemma MAXFILE_eq: "MAXFILE * BSIZE = 274432"
  by (simp add: MAXFILE_def NDIRECT_def NINDIRECT_def BSIZE_def)

lemma size_blocks: "n \<le> (n + BSIZE - 1) div BSIZE * BSIZE"
proof -
  have "n + BSIZE - 1 < (n + BSIZE - 1) div BSIZE * BSIZE + BSIZE" using div_mod_decomp[of "n + BSIZE - 1" BSIZE] mod_less_divisor[of BSIZE "n + BSIZE - 1"]
    by (simp add: BSIZE_def)
  then show ?thesis by (simp add: BSIZE_def)
qed

lemma length_file_data:
  assumes "\<And>n. small n \<Longrightarrow> length (V n) = BSIZE" "allocated l i V k" "unat (i_size i) \<le> k * BSIZE"
  shows "length (file_data i V) = unat (i_size i)"
proof -
  let ?f = "\<lambda>bn. V (file_block i V bn)"
  have k: "k \<le> MAXFILE" "\<And>bn. bn < k \<Longrightarrow> length (?f bn) = BSIZE" using assms(1,2) by (auto simp: allocated_def data_block_def)
  have "map (\<lambda>bn. length (?f bn)) [0..<k] = map (\<lambda>_. BSIZE) [0..<k]" using k(2) by (intro map_cong) auto
  then have "sum_list (map (\<lambda>bn. length (?f bn)) [0..<k]) = k * BSIZE" by (simp only: sum_list_triv) simp
  moreover have "[0..<MAXFILE] = [0..<k] @ [k..<MAXFILE]" using k(1) by (metis le_add_diff_inverse upt_add_eq_append zero_le)
  ultimately show ?thesis using assms(3) by (simp add: file_data_def length_concat comp_def)
qed

lemma readi_safe:
  assumes t: "tx_inv p s V {} D" "tx_fits s {}" "i_dev (inodes s ip) = ldev s" "file_ok (klog s) (inodes s ip) V"
  shows "safe (disk_rely p) (unchanged D) (\<lambda>r s'.
      r = (let bs = if unat off + unat n < 2 ^ 32 then take (unat n) (drop (unat off) (file_data (inodes s ip) V)) else [] in (int (length bs), bs)) \<and>
      tx_inv p s' V {} D \<and> klog s' = klog s \<and> tx_keep s s') (readi ip KernDst off n s)"
proof -
  let ?i = "inodes s ip" let ?F = "file_data ?i V" and ?k = "(unat (i_size ?i) + BSIZE - 1) div BSIZE"
  have V: "length (V n) = BSIZE" if "small n" for n using bc.block[OF tx_invD(1)[OF t(1)] that] .
  have a: "allocated (klog s) ?i V ?k" "unat (i_size ?i) \<le> ?k * BSIZE" "unat (i_size ?i) \<le> 274432"
    using t(4) size_blocks by (auto simp: file_ok_def MAXFILE_eq)
  note len = length_file_data[OF V a(1,2)]
  have wrap: "off + n < off \<longleftrightarrow> 2 ^ 32 \<le> unat off + unat n"
    using no_olen_add_nat[of off n] by (simp add: not_less flip: not_le)
  show ?thesis
  proof (cases "off > i_size ?i \<or> off + n < off")
    case True
    moreover have "drop (unat off) ?F = []" if "off > i_size ?i" using that len by (simp add: word_less_nat_alt)
    ultimately show ?thesis using t(1) wrap by (auto simp: readi_def)
  next
    case False
    let ?n = "if off + n > i_size ?i then i_size ?i - off else n"
    have s: "unat (off + n) = unat off + unat n" using False unat_plus_simple[of off n] by (simp add: not_less)
    have n: "unat off \<le> unat (i_size ?i)" "unat ?n = min (unat n) (unat (i_size ?i) - unat off)"
      using False s by (auto simp: word_less_nat_alt not_less unat_sub word_le_nat_alt min_def)
    have ti: "to_int (unat ?n) = int (unat ?n)" unfolding to_int_def using sint_of_int_32[of "int (unat ?n)"] n(2) a(3) by simp
    have o: "unat off + (unat ?n - 0) \<le> unat (i_size ?i)" using n by linarith
    have bs: "take (unat ?n) (drop (unat off) ?F) = take (unat n) (drop (unat off) ?F)" using n(2) len by (simp add: min_def)
    have "length (take (unat n) (drop (unat off) ?F)) = unat ?n" using n(2) len by simp
    moreover have "readi ip KernDst off n s = readi_loop ip (unat ?n) 0 KernDst (unat off) [] s" unfolding readi_def if_not_P[OF False] Let_def ..
    ultimately show ?thesis using readi_loop_safe[OF t(1-3) V a(1,2) _ o, of "[]"] ti bs False wrap by (simp add: Let_def)
  qed
qed

end
