(* ===== verification/WriteFacts.thy ===== *)
theory WriteFacts
  imports FileFacts CrashFacts
begin

text \<open>
  Writing to a file whose blocks are allocated: \<^verbatim>\<open>writei\<close> replaces a piece of the contents, grows the size if it has to, and
  writes the inode.
\<close>

section \<open>Overlays of block lists\<close>

lemma put_at_nested: "off + length a \<le> length d \<Longrightarrow> put_at (put_at d off a) (off + length a) b = put_at d off (a @ b)"
  by (simp add: put_at_def add.commute add.left_commute)

lemma put_at_concat:
  assumes "\<And>x. x \<in> set xs \<Longrightarrow> length x = B" "j < length xs" "q + length c \<le> B"
  shows "concat (xs[j := put_at (xs ! j) q c]) = put_at (concat xs) (j * B + q) c"
  using assms
proof (induction xs arbitrary: j)
  case (Cons x xs)
  have x: "length x = B" using Cons.prems(1) by simp
  show ?case
  proof (cases j)
    case 0
    then show ?thesis using x Cons.prems(3) by (simp add: put_at_def)
  next
    case (Suc j')
    then have "concat (xs[j' := put_at (xs ! j') q c]) = put_at (concat xs) (j' * B + q) c" using Cons by simp
    then show ?thesis using Suc x by (simp add: put_at_def add.assoc)
  qed
qed simp

definition file_raw :: "inode \<Rightarrow> (u32 \<Rightarrow> u8 list) \<Rightarrow> nat \<Rightarrow> u8 list" where
  "file_raw i V k = concat (map (\<lambda>bn. V (file_block i V bn)) [0..<k])"

text \<open>The first \<open>k\<close> blocks are different, and the indirect block is none of them.\<close>

definition separate :: "inode \<Rightarrow> (u32 \<Rightarrow> u8 list) \<Rightarrow> nat \<Rightarrow> bool" where
  "separate i V k \<longleftrightarrow> inj_on (file_block i V) {..<k} \<and> (NDIRECT < k \<longrightarrow> i_addrs i ! NDIRECT \<notin> file_block i V ` {..<k})"

lemma file_block_same:
  assumes "NDIRECT < k \<Longrightarrow> V' (i_addrs i ! NDIRECT) = V (i_addrs i ! NDIRECT)" "i_addrs i' = i_addrs i" "bn < k"
  shows "file_block i' V' bn = file_block i V bn"
  using assms by (auto simp: file_block_def)

lemma file_raw_put:
  assumes V: "\<And>n. small n \<Longrightarrow> length (V n) = BSIZE" and a: "allocated l i V k" "separate i V k" and bn: "bn < k" "q + length c \<le> BSIZE"
  shows "file_raw i (V(file_block i V bn := put_at (V (file_block i V bn)) q c)) k = put_at (file_raw i V k) (bn * BSIZE + q) c"
    "allocated l i (V(file_block i V bn := put_at (V (file_block i V bn)) q c)) k"
    "separate i (V(file_block i V bn := put_at (V (file_block i V bn)) q c)) k"
    "x < k \<Longrightarrow> file_block i (V(file_block i V bn := put_at (V (file_block i V bn)) q c)) x = file_block i V x"
proof -
  let ?n = "file_block i V bn" let ?v = "put_at (V ?n) q c" let ?V = "V(?n := ?v)"
  have ind: "NDIRECT < k \<Longrightarrow> ?V (i_addrs i ! NDIRECT) = V (i_addrs i ! NDIRECT)" using a(2) bn(1) by (auto simp: separate_def)
  have fb: "file_block i ?V x = file_block i V x" if "x < k" for x by (rule file_block_same[where k = k]) (erule ind | rule refl | rule that)+
  then show "x < k \<Longrightarrow> file_block i ?V x = file_block i V x" .
  show "allocated l i ?V k" using a(1) fb by (simp add: allocated_def)
  have "file_block i ?V ` {..<k} = file_block i V ` {..<k}" using fb by (intro image_cong) auto
  moreover have "inj_on (file_block i ?V) {..<k} = inj_on (file_block i V) {..<k}" using fb by (intro inj_on_cong) auto
  ultimately show "separate i ?V k" using a(2) by (simp add: separate_def)
  let ?xs = "map (\<lambda>bn. V (file_block i V bn)) [0..<k]"
  have "map (\<lambda>x. ?V (file_block i ?V x)) [0..<k] = ?xs[bn := put_at (?xs ! bn) q c]"
  proof (rule nth_equalityI)
    fix x assume "x < length (map (\<lambda>x. ?V (file_block i ?V x)) [0..<k])"
    then have x: "x < k" by simp
    have "file_block i V x = ?n \<longleftrightarrow> x = bn" using a(2) bn(1) x by (auto simp: separate_def inj_on_def)
    then show "map (\<lambda>x. ?V (file_block i ?V x)) [0..<k] ! x = ?xs[bn := put_at (?xs ! bn) q c] ! x"
      using x bn(1) fb[OF x] by (simp add: nth_list_update del: fun_upd_apply) (auto simp: fb)
  qed simp
  then have m: "map (\<lambda>x. ?V (file_block i ?V x)) [0..<k] = ?xs[bn := put_at (?xs ! bn) q c]" .
  have "concat (?xs[bn := put_at (?xs ! bn) q c]) = put_at (concat ?xs) (bn * BSIZE + q) c"
    by (rule put_at_concat) (use V a(1) bn in \<open>auto simp: allocated_def data_block_def\<close>)
  then show "file_raw i ?V k = put_at (file_raw i V k) (bn * BSIZE + q) c" unfolding file_raw_def m .
qed

lemma length_file_raw:
  assumes "\<And>n. small n \<Longrightarrow> length (V n) = BSIZE" "allocated l i V k"
  shows "length (file_raw i V k) = k * BSIZE"
proof -
  have "map (\<lambda>bn. length (V (file_block i V bn))) [0..<k] = map (\<lambda>_. BSIZE) [0..<k]"
    using assms by (intro map_cong) (auto simp: allocated_def data_block_def)
  then have "sum_list (map (\<lambda>bn. length (V (file_block i V bn))) [0..<k]) = k * BSIZE" by (simp only: sum_list_triv) simp
  then show ?thesis by (simp add: file_raw_def length_concat comp_def)
qed

section \<open>The loop\<close>

text \<open>How many blocks the bytes \<open>off\<close> to \<open>off + r\<close> touch.\<close>

definition nblocks :: "nat \<Rightarrow> nat \<Rightarrow> nat" where
  "nblocks off r = (if r = 0 then 0 else Suc ((off + r - 1) div BSIZE - off div BSIZE))"

lemma nblocks_step:
  assumes "0 < r" "m = min r (BSIZE - off mod BSIZE)"
  shows "nblocks off r = Suc (nblocks (off + m) (r - m)) \<or> (r = m \<and> 0 < nblocks off r)"
proof (cases "m = r")
  case False
  have B: "0 < BSIZE" by (simp add: BSIZE_def)
  then have m: "m = BSIZE - off mod BSIZE" "m < r" "off mod BSIZE < BSIZE" using False assms by (auto simp: min_def)
  have o: "off + m = Suc (off div BSIZE) * BSIZE" unfolding m(1) mult_Suc using m(3) div_mult_mod_eq[of off BSIZE] by linarith
  then have od: "(off + m) div BSIZE = Suc (off div BSIZE)" using B by simp
  have e: "off + m + (r - m) - 1 = off + r - 1" using m(2) by simp
  have "(off + m) div BSIZE \<le> (off + r - 1) div BSIZE" using m(2) by (intro div_le_mono) simp
  then show ?thesis using m(2) od e by (simp add: nblocks_def)
qed (use assms in \<open>simp add: nblocks_def\<close>)

lemma tx_room_step:
  assumes "0 < r" "m = min r (BSIZE - off mod BSIZE)" "tx_room s (k + nblocks off r)"
  shows "\<exists>j. tx_room s (Suc j) \<and> k + nblocks (off + m) (r - m) \<le> j"
  using nblocks_step[OF assms(1,2)] assms(3) by (intro exI[of _ "k + nblocks off r - 1"]) (auto simp: nblocks_def)

text \<open>What the loop does to the blocks of the file \<open>i\<close>: \<open>V'\<close> has the bytes \<open>bs\<close> at \<open>off\<close>.\<close>

definition written :: "klog \<Rightarrow> inode \<Rightarrow> nat \<Rightarrow> nat \<Rightarrow> u8 list \<Rightarrow> (u32 \<Rightarrow> u8 list) \<Rightarrow> (u32 \<Rightarrow> u8 list) \<Rightarrow> bool" where
  "written l i k off bs V V' \<longleftrightarrow> allocated l i V' k \<and> separate i V' k \<and> file_raw i V' k = put_at (file_raw i V k) off bs \<and>
     (\<forall>x < k. file_block i V' x = file_block i V x) \<and> (\<forall>n. n \<notin> file_block i V ` {..<k} \<longrightarrow> V' n = V n)"

lemma written_area: "area l' = area l \<Longrightarrow> allocated l' i V k = allocated l i V k" "area l' = area l \<Longrightarrow> written l' i k off bs V V' = written l i k off bs V V'"
  by (simp_all add: written_def allocated_def data_block_def)

lemma written_Nil: "allocated l i V k \<Longrightarrow> separate i V k \<Longrightarrow> written l i k off [] V V"
  by (simp add: written_def put_at_def)

lemma written_step:
  assumes V: "\<And>n. small n \<Longrightarrow> length (V n) = BSIZE" and a: "allocated l i V k" "separate i V k"
    and o: "off div BSIZE < k" "off mod BSIZE + length c \<le> BSIZE"
    and w: "written l i k (off + length c) bs (V(file_block i V (off div BSIZE) := put_at (V (file_block i V (off div BSIZE))) (off mod BSIZE) c)) V'"
  shows "written l i k off (c @ bs) V V'"
proof -
  let ?n = "file_block i V (off div BSIZE)" let ?V = "V(?n := put_at (V ?n) (off mod BSIZE) c)"
  note P = file_raw_put[OF V a o]
  have "off div BSIZE * BSIZE + BSIZE \<le> k * BSIZE" using mult_le_mono1[of "Suc (off div BSIZE)" k BSIZE] o(1) by simp
  moreover have "length (file_raw i V k) = k * BSIZE" by (rule length_file_raw[OF V a(1)])
  ultimately have "off + length c \<le> length (file_raw i V k)" using o(2) div_mult_mod_eq[of off BSIZE] by linarith
  then have "put_at (put_at (file_raw i V k) off c) (off + length c) bs = put_at (file_raw i V k) off (c @ bs)" by (rule put_at_nested)
  then have "file_raw i V' k = put_at (file_raw i V k) off (c @ bs)" using w P(1) by (simp add: written_def)
  moreover have "file_block i ?V ` {..<k} = file_block i V ` {..<k}" using P(4) by (intro image_cong) auto
  moreover have "?n \<in> file_block i V ` {..<k}" using o(1) by blast
  ultimately show ?thesis using w P(4) unfolding written_def by auto
qed

lemma writei_loop_safe:
  assumes "tx_inv p s V {} D" "i_dev (inodes s ip) = ldev s" "allocated (klog s) (inodes s ip) V k" "separate (inodes s ip) V k"
    "tx_room s (r + nblocks off (n - tot))" "tot \<le> n" "length bs = n - tot" "off + (n - tot) \<le> k * BSIZE"
  shows "safe (disk_rely p) (unchanged D) (\<lambda>v s'. v = (n, off + (n - tot)) \<and> tx_keep s s' \<and> tx_room s' r \<and>
    (\<exists>V'. tx_inv p s' V' {} D \<and> written (klog s) (inodes s ip) k off bs V V')) (writei_loop ip n tot (KernSrc bs) off s)"
  using assms
proof (induction "n - tot" arbitrary: tot off bs s V rule: less_induct)
  case less
  note p = less.prems
  let ?i = "inodes s ip" and ?m = "min (n - tot) (BSIZE - off mod BSIZE)"
  let ?Q = "\<lambda>v s'. v = (n, off + (n - tot)) \<and> tx_keep s s' \<and> tx_room s' r \<and> (\<exists>V'. tx_inv p s' V' {} D \<and> written (klog s) ?i k off bs V V')"
  have V: "length (V n) = BSIZE" if "small n" for n using bc.block[OF tx_invD(1)[OF p(1)] that] .
  show ?case
  proof (cases "tot < n")
    case True
    have B: "0 < BSIZE" by (simp add: BSIZE_def)
    have ob: "off div BSIZE < k" using p(8) True B by (simp add: div_less_iff_less_mult)
    have m: "0 < ?m" "off mod BSIZE + ?m \<le> BSIZE" "tot + ?m \<le> n" "?m \<le> length bs" "off + ?m + (n - (tot + ?m)) = off + (n - tot)"
      using chunk_pos[OF True, of off] mod_less_divisor[OF B, of off] p(7) by auto
    let ?n = "file_block ?i V (off div BSIZE)"
    have nb: "?n \<noteq> 0" "small ?n" "?n \<notin> area (klog s)" using p(3) ob by (auto simp: allocated_def data_block_def)
    have "0 < n - tot" using True by simp
    from tx_room_step[OF this refl p(5)] obtain j where j: "tx_room s (Suc j)" "r + nblocks (off + ?m) (n - tot - ?m) \<le> j" by blast
    have f: "tx_fits s {}" using tx_room_fits[OF tx_invD(2)[OF p(1)] j(1)] by simp
    let ?c = "take ?m bs" let ?v = "put_at (V ?n) (off mod BSIZE) ?c"
    have c: "length ?c = ?m" "length ?v = BSIZE" using m V[OF nb(2)] by simp_all
    show ?thesis unfolding writei_loop.simps[of ip n tot] if_P[OF True]
    proof (rule safe_seq[OF bmap_safe[OF p(1) f p(2,3) ob]])
      fix addr s1 assume a1: "addr = ?n \<and> tx_inv p s1 V {} D \<and> klog s1 = klog s \<and> tx_keep s s1"
      then have e1: "addr = ?n" "tx_inv p s1 V {} D" "klog s1 = klog s" "tx_keep s s1" by blast+
      have i1: "inodes s1 = inodes s" "?n \<notin> area (klog s1)" "tx_fits s1 {}" "tx_room s1 (Suc j)"
        using tx_keep_fs(2)[OF e1(4)] e1(3) nb(3) f j(1) by (simp_all add: tx_fits_def tx_room_def)
      have d1: "i_dev (inodes s1 ip) = ldev s1" using p(2) i1(1) e1(3) by simp
      show "safe (disk_rely p) (unchanged D) ?Q (if addr = 0 then Ok (tot, off) s1
          else bind (bread (i_dev (inodes s1 ip)) addr s1) (\<lambda>bp t. let m = ?m in
            bind (either_copyin (KernSrc bs) m t) (\<lambda>(r, bs') t.
              let t = set_data bp (put_at (bdata bp t) (off mod BSIZE) bs') t in
              if r = -1 then bind (brelse bp t) (\<lambda>_ t. Ok (tot, off) t)
              else bind (log_write bp t) (\<lambda>_ t. bind (brelse bp t) (\<lambda>_ t. writei_loop ip n (tot + m) (src_add (KernSrc bs) m) (off + m) t)))))"
        unfolding e1(1) if_not_P[OF nb(1)] d1 Let_def
      proof (rule safe_seq[OF tx_look[OF e1(2) _ nb(2) i1(3)]])
        fix bp s2 assume l: "looking p s1 V {} D ?n bp s2"
        let ?s = "norm s2"
        have ln: "tx_inv p ?s V {?n} D" "hnd (ldev ?s) ?s bp ?n" "bdata bp ?s = V ?n" "klog ?s = klog s1" "tx_keep s1 ?s"
          using l looking_norm[of p s1 V "{}" D ?n bp s2] unfolding looking_def by blast+
        have "?n \<notin> area (klog ?s)" "tx_room ?s (Suc j)" using i1(2,4) unfolding tx_room_def ln(4) by blast+
        from tx_change[OF ln(1,2) _ this c(2)] obtain s3 where b: "bind (log_write bp (set_data bp ?v ?s)) (\<lambda>_ s. brelse bp s) = Ok () s3"
          "tx_inv p s3 (V(?n := ?v)) {} D" "tx_keep ?s s3" "tx_room s3 j" by auto
        have k3: "tx_keep s s3" using tx_keep_trans[OF tx_keep_trans[OF e1(4) ln(5)] b(3)] .
        have e3: "inodes s3 ip = ?i" "ldev s3 = ldev s" using tx_keep_fs(2)[OF k3] tx_keep_place(3)[OF k3] by simp_all
        have run: "bind (either_copyin (KernSrc bs) ?m s2) (\<lambda>(r, bs') t.
              if r = -1 then bind (brelse bp (set_data bp (put_at (bdata bp t) (off mod BSIZE) bs') t)) (\<lambda>_ t. Ok (tot, off) t)
              else bind (log_write bp (set_data bp (put_at (bdata bp t) (off mod BSIZE) bs') t)) (\<lambda>_ t. bind (brelse bp t) (\<lambda>_ t.
                writei_loop ip n (tot + ?m) (src_add (KernSrc bs) ?m) (off + ?m) t))) =
            bind (bind (log_write bp (set_data bp ?v ?s)) (\<lambda>_ s. brelse bp s)) (\<lambda>_ t. writei_loop ip n (tot + ?m) (KernSrc (drop ?m bs)) (off + ?m) t)"
          unfolding either_copy_kern(2)[OF looking_quiet[OF l]] using ln(3) by (simp add: kbind_assoc)
        show "safe (disk_rely p) (unchanged D) ?Q (bind (either_copyin (KernSrc bs) ?m s2) (\<lambda>(r, bs') t.
              if r = -1 then bind (brelse bp (set_data bp (put_at (bdata bp t) (off mod BSIZE) bs') t)) (\<lambda>_ t. Ok (tot, off) t)
              else bind (log_write bp (set_data bp (put_at (bdata bp t) (off mod BSIZE) bs') t)) (\<lambda>_ t. bind (brelse bp t) (\<lambda>_ t.
                writei_loop ip n (tot + ?m) (src_add (KernSrc bs) ?m) (off + ?m) t))))"
          unfolding run b(1) bind.simps
        proof (rule safe_mono[OF less.hyps[of "tot + ?m" s3 "V(?n := ?v)" "off + ?m" "drop ?m bs"]])
          show "tx_room s3 (r + nblocks (off + ?m) (n - (tot + ?m)))" by (rule tx_room_less[OF b(4) j(2)[unfolded diff_diff_left]])
          show "allocated (klog s3) (inodes s3 ip) (V(?n := ?v)) k" "separate (inodes s3 ip) (V(?n := ?v)) k"
            using file_raw_put(2,3)[OF V p(3,4) ob, of "off mod BSIZE" ?c] m(2) unfolding e3(1) c(1) written_area(1)[OF tx_keep_place(2)[OF k3]] by blast+
          show "n - (tot + ?m) < n - tot" using m(1) True by arith
          show "length (drop ?m bs) = n - (tot + ?m)" unfolding length_drop p(7) diff_diff_left ..
          show "off + ?m + (n - (tot + ?m)) \<le> k * BSIZE" unfolding m(5) by (rule p(8))
          show "i_dev (inodes s3 ip) = ldev s3" unfolding e3 by (rule p(2))
          fix v s' assume a: "v = (n, off + ?m + (n - (tot + ?m))) \<and> tx_keep s3 s' \<and> tx_room s' r \<and>
            (\<exists>V'. tx_inv p s' V' {} D \<and> written (klog s3) (inodes s3 ip) k (off + ?m) (drop ?m bs) (V(?n := ?v)) V')"
          then obtain V' where w: "tx_inv p s' V' {} D" "written (klog s) ?i k (off + ?m) (drop ?m bs) (V(?n := ?v)) V'"
            unfolding e3(1) written_area(2)[OF tx_keep_place(2)[OF k3]] by blast
          have "written (klog s) ?i k off (?c @ drop ?m bs) V V'"
            using written_step[OF V p(3,4) ob, of ?c "drop ?m bs" V'] m(2) w(2) unfolding c(1) by blast
          then show "?Q v s'" using a w(1) tx_keep_trans[OF k3] unfolding m(5) append_take_drop_id by blast
        qed (rule b(2) m(3))+
      qed simp
    qed
  next
    case False
    then show ?thesis unfolding writei_loop.simps[of ip n tot] if_not_P[OF False] using p(1-7)
      by (auto simp: nblocks_def intro: written_Nil)
  qed
qed

section \<open>The inode\<close>

lemma put_dinode_length:
  assumes "off + DINODE_SIZE \<le> length d" "length (i_addrs i) = NDIRECT + 1"
  shows "length (put_dinode i off d) = length d"
proof -
  have l: "off + 12 + 4 * length (i_addrs i) \<le> length d" using assms by (simp add: DINODE_SIZE_def NDIRECT_def)
  then have h: "length (put_head i off d) = length d" using put_head_get(1)[of off d i] by simp
  show ?thesis unfolding put_dinode_eq using l h by simp
qed

lemma iupdate_safe:
  assumes t: "tx_inv p s V {} D" and d: "i_dev (inodes s ip) = ldev s" and r: "tx_room s (Suc k)" and l: "length (i_addrs (inodes s ip)) = NDIRECT + 1"
    and n: "data_block (klog s) (IBLOCK (i_inum (inodes s ip)) (sb s))"
  shows "safe (disk_rely p) (unchanged D) (\<lambda>_ s'. tx_inv p s' (inode_map (sb s) (inodes s ip) V) {} D \<and> tx_keep s s' \<and> tx_room s' k) (iupdate ip s)"
proof -
  let ?i = "inodes s ip" let ?n = "IBLOCK (i_inum ?i) (sb s)"
  have n': "small ?n" "?n \<notin> area (klog s)" using n by (simp_all add: data_block_def)
  have len: "length (put_dinode ?i (dip_off (i_inum ?i)) (V ?n)) = BSIZE"
    using put_dinode_length[OF _ l] dip_off_fits bc.block[OF tx_invD(1)[OF t] n'(1)] by simp
  show ?thesis unfolding iupdate_def Let_def d inode_map_def
  proof (rule safe_mono[OF tx_update[OF t _ n' _ r _ len]])
    show "set_data b (put_dinode (inodes s' ip) (dip_off (i_inum (inodes s' ip))) (bdata b s')) s' =
        set_data b (put_dinode ?i (dip_off (i_inum ?i)) (V ?n)) s'" if "tx_keep s s'" "bdata b s' = V ?n" for b s'
      using that(2) tx_keep_fs(2)[OF that(1)] by simp
  qed auto
qed

lemma tx_inv_inode [simp]: "tx_inv p (upd_inode ip f s) V H D = tx_inv p s V H D"
  by (simp add: tx_inv_def cache_st_def quiet_def hnd_def upd_inode_def hart_ok_def lock_free_def curp_def mycpu_def cpuid_def intr_get_def)

section \<open>Files on the disk\<close>

text \<open>
  An inode of the table whose first \<open>k\<close> blocks are allocated and different from each other, from the indirect block and from
  the block the inode itself is stored in.
\<close>

definition file_at :: "klog \<Rightarrow> superblock \<Rightarrow> inode \<Rightarrow> (u32 \<Rightarrow> u8 list) \<Rightarrow> nat \<Rightarrow> bool" where
  "file_at l sbk i V k \<longleftrightarrow> unat (i_size i) \<le> k * BSIZE \<and> allocated l i V k \<and> separate i V k \<and> length (i_addrs i) = NDIRECT + 1 \<and>
     data_block l (IBLOCK (i_inum i) sbk) \<and> IBLOCK (i_inum i) sbk \<notin> file_block i V ` {..<k} \<and>
     (NDIRECT < k \<longrightarrow> IBLOCK (i_inum i) sbk \<noteq> i_addrs i ! NDIRECT)"

lemma file_data_take:
  assumes "length (file_raw i V k) = k * BSIZE" "k \<le> MAXFILE" "unat (i_size i) \<le> k * BSIZE"
  shows "file_data i V = take (unat (i_size i)) (file_raw i V k)"
proof -
  have "[0..<MAXFILE] = [0..<k] @ [k..<MAXFILE]" using assms(2) by (metis le_add_diff_inverse upt_add_eq_append zero_le)
  then show ?thesis using assms(1,3) by (simp add: file_data_def file_raw_def)
qed

lemma file_data_raw:
  assumes "\<And>n. small n \<Longrightarrow> length (V n) = BSIZE" "allocated l i V k" "unat (i_size i) \<le> k * BSIZE"
  shows "file_data i V = take (unat (i_size i)) (file_raw i V k)"
  by (rule file_data_take[OF length_file_raw[OF assms(1,2)] _ assms(3)]) (use assms(2) in \<open>simp_all add: allocated_def\<close>)

text \<open>A change of other blocks and of the size leaves the blocks of the file.\<close>

lemma file_frame:
  assumes "\<And>n. n \<in> file_block i V ` {..<k} \<Longrightarrow> V' n = V n" "NDIRECT < k \<Longrightarrow> V' (i_addrs i ! NDIRECT) = V (i_addrs i ! NDIRECT)" "i_addrs i' = i_addrs i"
  shows "file_raw i' V' k = file_raw i V k" "allocated l i' V' k = allocated l i V k" "separate i' V' k = separate i V k"
    "x < k \<Longrightarrow> file_block i' V' x = file_block i V x"
proof -
  have fb: "file_block i' V' x = file_block i V x" if "x < k" for x using file_block_same[of k V' i V i' x] assms(2,3) that by blast
  then show "x < k \<Longrightarrow> file_block i' V' x = file_block i V x" .
  show "file_raw i' V' k = file_raw i V k" unfolding file_raw_def using fb assms(1) by (intro arg_cong[where f = concat] map_cong) auto
  show "allocated l i' V' k = allocated l i V k" unfolding allocated_def using fb assms(3) by auto
  have "file_block i' V' ` {..<k} = file_block i V ` {..<k}" using fb by (intro image_cong) auto
  moreover have "inj_on (file_block i' V') {..<k} = inj_on (file_block i V) {..<k}" using fb by (intro inj_on_cong) auto
  ultimately show "separate i' V' k = separate i V k" using assms(3) by (simp add: separate_def)
qed

text \<open>Writing the pieces and then the inode: the file of the new inode has the bytes \<open>bs\<close> at \<open>off\<close>.\<close>

lemma file_written:
  assumes V: "\<And>n. small n \<Longrightarrow> length (V n) = BSIZE" and f: "file_at l sbk i V k" and w: "written l i k off bs V V1"
    and o: "off \<le> unat (i_size i)" "off + length bs \<le> k * BSIZE"
    and i': "i_addrs i' = i_addrs i" "i_inum i' = i_inum i" "unat (i_size i') = max (unat (i_size i)) (off + length bs)"
    and V': "V' = inode_map sbk i' V1" "\<And>n. small n \<Longrightarrow> length (V' n) = BSIZE"
  shows "file_at l sbk i' V' k" "file_data i' V' = put_at (file_data i V) off bs"
    "n \<notin> insert (IBLOCK (i_inum i) sbk) (file_block i V ` {..<k}) \<Longrightarrow> V' n = V n"
proof -
  let ?n = "IBLOCK (i_inum i) sbk"
  have F: "unat (i_size i) \<le> k * BSIZE" "allocated l i V k" "separate i V k" "length (i_addrs i) = NDIRECT + 1" "data_block l ?n"
    "?n \<notin> file_block i V ` {..<k}" "NDIRECT < k \<Longrightarrow> ?n \<noteq> i_addrs i ! NDIRECT" using f by (auto simp: file_at_def)
  have W: "allocated l i V1 k" "separate i V1 k" "file_raw i V1 k = put_at (file_raw i V k) off bs"
    "\<And>x. x < k \<Longrightarrow> file_block i V1 x = file_block i V x" "\<And>n. n \<notin> file_block i V ` {..<k} \<Longrightarrow> V1 n = V n" using w by (auto simp: written_def)
  have im: "file_block i V1 ` {..<k} = file_block i V ` {..<k}" using W(4) by (intro image_cong) auto
  have v: "V' n = V1 n" if "n \<noteq> ?n" for n using that V'(1) i'(2) by (simp add: inode_map_def)
  have v1: "V' n = V1 n" if "n \<in> file_block i V1 ` {..<k}" for n using v[of n] that F(6) unfolding im by blast
  have v2: "V' (i_addrs i ! NDIRECT) = V1 (i_addrs i ! NDIRECT)" if "NDIRECT < k" using F(7)[OF that] v by metis
  note fr = file_frame[where i = i and V = V1 and V' = V' and k = k, OF v1 v2 i'(1)]
  show "n \<notin> insert ?n (file_block i V ` {..<k}) \<Longrightarrow> V' n = V n" using v W(5) by auto
  have im': "file_block i' V' ` {..<k} = file_block i V ` {..<k}" using fr(4) W(4) by (intro image_cong) auto
  have sz: "unat (i_size i') \<le> k * BSIZE" using i'(3) F(1) o(2) by simp
  show "file_at l sbk i' V' k" unfolding file_at_def i'(1,2) im' using sz W(1,2) fr(2,3) F(4,5,6,7) by blast
  have l: "length (file_raw i V k) = k * BSIZE" by (rule length_file_raw[OF V F(2)])
  have "file_data i' V' = take (unat (i_size i')) (file_raw i' V' k)"
    by (rule file_data_raw[where l = l, OF V'(2)]) (use fr(2) W(1) sz in auto)
  also have "\<dots> = take (max (unat (i_size i)) (off + length bs)) (put_at (file_raw i V k) off bs)" using i'(3) fr(1) W(3) by simp
  also have "\<dots> = put_at (take (unat (i_size i)) (file_raw i V k)) off bs"
    using o(1) F(1) l by (auto simp: put_at_def max_def min_def take_Cons' drop_take split: if_splits)
  also have "\<dots> = put_at (file_data i V) off bs" using file_data_raw[OF V F(2,1)] by simp
  finally show "file_data i' V' = put_at (file_data i V) off bs" .
qed

text \<open>What a successful \<^verbatim>\<open>writei\<close> of \<open>bs\<close> at \<open>off\<close> leaves behind.\<close>

definition grown :: "inode \<Rightarrow> nat \<Rightarrow> inode" where
  "grown i e = (if of_nat e > i_size i then i\<lparr>i_size := of_nat e\<rparr> else i)"

definition writei_post :: "nat \<Rightarrow> nat \<Rightarrow> nat \<Rightarrow> nat \<Rightarrow> u8 list \<Rightarrow> (u32 \<Rightarrow> u8 list) \<Rightarrow> (u32 \<Rightarrow> u8 list) \<Rightarrow> 'z fsstate_scheme \<Rightarrow> 'z fsstate_scheme \<Rightarrow> bool" where
  "writei_post p ip k off bs V D s s' \<longleftrightarrow>
     (let i = inodes s ip; i' = grown i (off + length bs) in
      inodes s' = (inodes s)(ip := i') \<and> sb s' = sb s \<and> same_place (klog s) (klog s') \<and>
      outstanding (klog s') = outstanding (klog s) \<and> committing (klog s') = committing (klog s) \<and>
      (\<exists>V'. tx_inv p s' V' {} D \<and> file_at (klog s') (sb s') i' V' k \<and> file_data i' V' = put_at (file_data i V) off bs \<and>
        get_dinode (V' (IBLOCK (i_inum i) (sb s))) (dip_off (i_inum i)) i' = i' \<and>
        (\<forall>n. n \<notin> insert (IBLOCK (i_inum i) (sb s)) (file_block i V ` {..<k}) \<longrightarrow> V' n = V n)))"

lemma grown_simps [simp]: "i_addrs (grown i e) = i_addrs i" "i_inum (grown i e) = i_inum i" "i_dev (grown i e) = i_dev i"
  by (simp_all add: grown_def)

lemma grown_size: "e < 2 ^ 32 \<Longrightarrow> unat (i_size (grown i e)) = max (unat (i_size i)) e"
  using unat_of_nat_32[of e] by (auto simp: grown_def word_less_nat_alt)

lemma file_at_area: "area l' = area l \<Longrightarrow> file_at l' sbk i V k = file_at l sbk i V k"
  by (simp add: file_at_def allocated_def data_block_def)

lemma writei_safe:
  assumes t: "tx_inv p s V {} D" and d: "i_dev (inodes s ip) = ldev s" and f: "file_at (klog s) (sb s) (inodes s ip) V k"
    and n: "length bs = unat n" "unat off \<le> unat (i_size (inodes s ip))" "unat off + unat n \<le> k * BSIZE"
    and r: "tx_room s (Suc r + nblocks (unat off) (unat n))"
  shows "safe (disk_rely p) (unchanged D) (\<lambda>v s'. v = int (unat n) \<and> tx_room s' r \<and> writei_post p ip k (unat off) bs V D s s')
    (writei ip (KernSrc bs) off n s)"
proof -
  let ?i = "inodes s ip" and ?e = "unat off + unat n"
  let ?i' = "grown ?i ?e"
  have V: "length (V n) = BSIZE" if "small n" for n using bc.block[OF tx_invD(1)[OF t] that] .
  have F: "unat (i_size ?i) \<le> k * BSIZE" "allocated (klog s) ?i V k" "separate ?i V k" using f by (auto simp: file_at_def)
  then have "k * BSIZE \<le> MAXFILE * BSIZE" by (simp add: allocated_def)
  then have e: "?e \<le> 274432" "k * BSIZE \<le> 274432" using n(3) by (simp_all add: MAXFILE_eq)
  have s: "unat (off + n) = ?e" "\<not> off + n < off"
    using no_olen_add_nat[of off n] unat_plus_simple[of off n] e(1) by (simp_all add: not_less)
  have g: "\<not> (off > i_size ?i \<or> off + n < off)" "\<not> off + n > of_nat (MAXFILE * BSIZE)"
    using n(2) s e by (simp_all add: word_less_nat_alt MAXFILE_eq)
  have "sint (of_int (int (unat n)) :: u32) = int (unat n)" 
  proof (rule sint_of_int_32)
    have "(2 :: int) ^ 31 = 2147483648" by simp
    then show "- (2 ^ 31) \<le> int (unat n)" "int (unat n) < 2 ^ 31" using e(1) by linarith+
  qed
  then have ti: "to_int (unat n) = int (unat n)" by (simp add: to_int_def)
  show ?thesis unfolding writei_def if_not_P[OF g(1)] if_not_P[OF g(2)]
  proof (rule safe_seq)
    show "safe (disk_rely p) (unchanged D) (\<lambda>v s'. v = (unat n, unat off + (unat n - 0)) \<and> tx_keep s s' \<and> tx_room s' (Suc r) \<and>
      (\<exists>V'. tx_inv p s' V' {} D \<and> written (klog s) ?i k (unat off) bs V V')) (writei_loop ip (unat n) 0 (KernSrc bs) (unat off) s)"
      by (rule writei_loop_safe[OF t d F(2,3)]) (use r n in auto)
    fix v s1 assume a: "v = (unat n, unat off + (unat n - 0)) \<and> tx_keep s s1 \<and> tx_room s1 (Suc r) \<and>
      (\<exists>V'. tx_inv p s1 V' {} D \<and> written (klog s) ?i k (unat off) bs V V')"
    then obtain V1 where v: "v = (unat n, ?e)" and k1: "tx_keep s s1" and r1: "tx_room s1 (Suc r)" and t1: "tx_inv p s1 V1 {} D"
      and w: "written (klog s) ?i k (unat off) bs V V1" by auto
    have i1: "inodes s1 = inodes s" "sb s1 = sb s" using tx_keep_fs[OF k1] by simp_all
    let ?s = "upd_inode ip (\<lambda>_. ?i') s1"
    have up: "(if of_nat ?e > i_size (inodes s1 ip) then upd_inode ip (i_size_update (\<lambda>_. of_nat ?e)) s1 else s1) = ?s"
      by (auto simp: upd_inode_def grown_def i1 simp flip: i1(1))
    have js: "inodes ?s = (inodes s)(ip := ?i')" "sb ?s = sb s" "klog ?s = klog s1" by (simp_all add: upd_inode_def i1)
    have l: "length (i_addrs ?i) = NDIRECT + 1" "data_block (klog s) (IBLOCK (i_inum ?i) (sb s))" using f by (auto simp: file_at_def)
    have pl: "area (klog s1) = area (klog s)" "ldev s1 = ldev s" "outstanding (klog s1) = outstanding (klog s)" "committing (klog s1) = committing (klog s)"
      using tx_keep_place(2,3)[OF k1] k1 by (simp_all add: tx_keep_def)
    have U: "safe (disk_rely p) (unchanged D) (\<lambda>_ s'. tx_inv p s' (inode_map (sb s) ?i' V1) {} D \<and> tx_keep ?s s' \<and> tx_room s' r) (iupdate ip ?s)"
      using iupdate_safe[of p ?s V1 D ip r] t1 d l r1 pl js by (simp add: tx_room_def data_block_def)
    have P: "v' = int (unat n) \<and> tx_room s2 r \<and> writei_post p ip k (unat off) bs V D s s2" if "v' = int (unat n)"
        "tx_inv p s2 (inode_map (sb s) ?i' V1) {} D \<and> tx_keep ?s s2 \<and> tx_room s2 r" for v' s2
    proof -
      let ?V = "inode_map (sb s) ?i' V1"
      have t2: "tx_inv p s2 ?V {} D" and k2: "tx_keep ?s s2" using that by blast+
      have V2: "length (?V n) = BSIZE" if "small n" for n using bc.block[OF tx_invD(1)[OF t2] that] .
      have o: "unat off + length bs \<le> k * BSIZE" using n by simp
      have g: "unat (i_size ?i') = max (unat (i_size ?i)) (unat off + length bs)" using grown_size[of ?e ?i] e(1) n(1) by simp
      note W = file_written[OF V f w n(2) o grown_simps(1,2) g refl V2]
      have pl2: "area (klog s2) = area (klog s)" "same_place (klog s) (klog s2)" "outstanding (klog s2) = outstanding (klog s)" "committing (klog s2) = committing (klog s)"
        using tx_keep_place(2)[OF k2] k2 k1 pl js(3) by (simp_all add: tx_keep_def same_place_def)
      have i2: "inodes s2 = (inodes s)(ip := ?i')" "sb s2 = sb s" using tx_keep_fs[OF k2] js by simp_all
      have "get_dinode (?V (IBLOCK (i_inum ?i) (sb s))) (dip_off (i_inum ?i)) ?i' = ?i'"
      proof -
        have "small (IBLOCK (i_inum ?i) (sb s))" using l(2) by (simp add: data_block_def)
        then have "length (V1 (IBLOCK (i_inum ?i) (sb s))) = BSIZE" using bc.block[OF tx_invD(1)[OF t1]] by blast
        then show ?thesis using get_put_dinode[of "dip_off (i_inum ?i)" "V1 (IBLOCK (i_inum ?i) (sb s))" ?i' ?i'] dip_off_fits[of "i_inum ?i"] l(1)
          by (simp add: inode_map_def)
      qed
      then show ?thesis using that W pl2 i2 t2 n(1) unfolding writei_post_def Let_def file_at_area[OF pl2(1)] i2 by (auto simp del: fun_upd_apply)
    qed
    show "safe (disk_rely p) (unchanged D) (\<lambda>v s'. v = int (unat n) \<and> tx_room s' r \<and> writei_post p ip k (unat off) bs V D s s')
      ((case v of (tot, off) \<Rightarrow> \<lambda>t. let u = if of_nat off > i_size (inodes t ip) then upd_inode ip (i_size_update (\<lambda>_. of_nat off)) t else t in
        bind (iupdate ip u) (\<lambda>_ s. Ok (to_int tot) s)) s1)"
      unfolding v prod.case Let_def up by (rule safe_seq[OF U]) (use P in \<open>simp add: ti\<close>)
  qed
qed

section \<open>Files across crashes\<close>

text \<open>The disk \<open>E\<close> holds the inode \<open>i\<close> and the file \<open>F\<close>.\<close>

definition on_disk :: "superblock \<Rightarrow> inode \<Rightarrow> u8 list \<Rightarrow> (u32 \<Rightarrow> u8 list) \<Rightarrow> bool" where
  "on_disk sbk i F E \<longleftrightarrow> get_dinode (E (IBLOCK (i_inum i) sbk)) (dip_off (i_inum i)) i = i \<and> file_data i E = F"

lemma outside_at: "outside l E = outside l V \<Longrightarrow> n \<notin> area l \<Longrightarrow> small n \<Longrightarrow> E n = V n"
  unfolding outside_def fun_eq_iff by metis

lemma on_disk_outside:
  assumes f: "file_at l sbk i V k" and V: "\<And>n. small n \<Longrightarrow> length (V n) = BSIZE" and e: "outside l E = outside l V"
  shows "on_disk sbk i F E = on_disk sbk i F V"
proof -
  have F: "unat (i_size i) \<le> k * BSIZE" "allocated l i V k" "data_block l (IBLOCK (i_inum i) sbk)" using f by (auto simp: file_at_def)
  have d: "E n = V n" if "data_block l n" for n using outside_at[OF e] that by (simp add: data_block_def)
  have b: "E n = V n" if "n \<in> file_block i V ` {..<k}" for n using that F(2) d by (auto simp: allocated_def)
  have c: "E (i_addrs i ! NDIRECT) = V (i_addrs i ! NDIRECT)" if "NDIRECT < k" using that F(2) d by (auto simp: allocated_def)
  have r: "file_raw i E k = file_raw i V k" by (rule file_frame(1)[where V' = E, OF b c refl])
  have l: "length (file_raw i V k) = k * BSIZE" by (rule length_file_raw[OF V F(2)])
  have k: "k \<le> MAXFILE" using F(2) by (simp add: allocated_def)
  have "file_data i E = file_data i V" using file_data_take[OF _ k F(1), of E] file_data_take[OF _ k F(1), of V] l r by simp
  then show ?thesis using d[OF F(3)] by (simp add: on_disk_def)
qed

end
