(* ===== verification/ExampleFs.thy ===== *)
theory ExampleFs
  imports WriteFacts
begin

text \<open>
  A concrete file system on the machine of the examples: the inodes start at block 32, the free map is block 45 and lists
  blocks 0 to 50 as in use. Inode 1 is a file of two zero bytes in block 50, stored on the disk.
\<close>

definition ex_inode :: inode where
  "ex_inode = \<lparr>i_dev = 1, i_inum = 1, i_ref = 1, i_valid = 1, i_type = 2, i_major = 0, i_minor = 0, i_nlink = 1, i_size = 2,
     i_addrs = 50 # replicate 12 0\<rparr>"

definition ex_sb :: superblock where
  "ex_sb = \<lparr>sb_magic = FSMAGIC, sb_size = 1000, sb_nblocks = 954, sb_ninodes = 200, sb_nlog = 30, sb_logstart = 2, sb_inodestart = 32, sb_bmapstart = 45\<rparr>"

definition ex_iblock :: "u8 list" where
  "ex_iblock = put_dinode ex_inode (dip_off 1) (zeros 32)"

definition ex_bitmap :: "u8 list" where
  "ex_bitmap = replicate 6 255 @ [7] @ replicate (BSIZE - 7) 0"

definition ex_disk :: "u32 \<Rightarrow> u8 list" where
  "ex_disk = zeros(32 := ex_iblock, 45 := ex_bitmap)"

definition ex_fs :: "int \<Rightarrow> fsstate" where
  "ex_fs k = lgstate.extend ((ex_lg ex_buf (ex_log k 0))\<lparr>medium := dput 45 ex_bitmap (dput 32 ex_iblock (\<lambda>_. replicate 512 0))\<rparr>) (fsstate.fields ex_sb (\<lambda>_. ex_inode) [])"

lemma ex_extend:
  fixes s :: lgstate
  shows "cache_st p d (lgstate.extend s z) V rc H D = cache_st p d s V rc H D" "klog (lgstate.extend s z) = klog s"
  by (cases s; simp add: lgstate.defs cache_st_def quiet_def hnd_def hart_ok_def lock_free_def curp_def mycpu_def cpuid_def intr_get_def)+

lemma ex_fs_simps [simp]: "sb (ex_fs k) = ex_sb" "inodes (ex_fs k) = (\<lambda>_. ex_inode)" "klog (ex_fs k) = ex_log k 0"
  by (simp_all add: ex_fs_def lgstate.defs fsstate.defs)

lemma ex_iblock_len: "length ex_iblock = BSIZE"
  unfolding ex_iblock_def using put_dinode_length[of "dip_off 1" "zeros 32" ex_inode] dip_off_fits[of 1]
  by (simp add: zeros_def ex_inode_def NDIRECT_def)

lemma ex_disk_len: "length (ex_disk n) = BSIZE"
  using ex_iblock_len by (simp add: ex_disk_def zeros_def ex_bitmap_def BSIZE_def)

lemma ex_fs_cache: "cache_st 0 1 (ex_fs k) ex_disk (\<lambda>_. 0) {} ex_disk"
  unfolding ex_fs_def ex_extend
proof -
  let ?s = "(ex_lg ex_buf (ex_log k 0))\<lparr>medium := dput 45 ex_bitmap (dput 32 ex_iblock (\<lambda>_. replicate 512 0))\<rparr>"
  have sm: "small 32" "small 45" by (simp_all add: small_def)
  have c: "cache_st 0 1 (ex_lg ex_buf (ex_log k 0)) zeros (\<lambda>_. 0) {} zeros"
    by (rule cache_stI[of _ _ "[0..<NBUF]"]) (auto simp: ex_quiet ex_lru ex_dblock hnd_def, simp_all add: ex_buf_def zeros_def)
  have "quiet 0 ?s" using cache_stD(1)[OF c] by (simp add: quiet_def mycpu_def cpuid_def curp_def)
  moreover have hn: "hnd 1 ?s = hnd 1 (ex_lg ex_buf (ex_log k 0))" by (simp add: hnd_def fun_eq_iff)
  moreover have "dblock (medium ?s) n = ex_disk n" if "small n" for n
    using dblock_dput[OF sm(1) that] dblock_dput[OF sm(2) that] ex_iblock_len ex_dblock by (simp add: ex_disk_def)
  moreover have "length (ex_disk n) = BSIZE" for n by (rule ex_disk_len)
  moreover have "\<not> hnd 1 (ex_lg ex_buf (ex_log k 0)) b n" for b n by (simp add: hnd_def ex_buf_def)
  ultimately show "cache_st 0 1 ?s ex_disk (\<lambda>_. 0) {} ex_disk"
    using c unfolding cache_st_def by simp
qed

lemma ex_lpos: "lpos (ex_log k n) i = of_int (2 + int i)"
  by (simp add: lpos_def ex_log_def)

lemma ex_block_area: "unat b \<ge> 32 \<Longrightarrow> b \<notin> area (ex_log k n)"
proof
  assume b: "32 \<le> unat b" "b \<in> area (ex_log k n)"
  then obtain i where i: "i < 30" "b = of_int (2 + int i)" by (auto simp: area_def lpos_def ex_log_def)
  then have "unat b = nat (2 + int i)" using unat_of_int_32[of "2 + int i"] by simp
  then show False using i(1) b(1) by simp
qed

lemma ex_data_block: "32 \<le> unat b \<Longrightarrow> unat b < 1000 \<Longrightarrow> data_block (ex_log k n) b"
  using ex_block_area[of b k n] by (auto simp: data_block_def small_def)

lemma ex_fs_tx: "tx_inv 0 (ex_fs k) ex_disk {} ex_disk"
proof -
  have d: "of_int (log_dev (ex_log k 0)) = (1 :: u32)" by (simp add: ex_log_def)
  have r: "tx_rc (ex_log k 0) {} = (\<lambda>_. 0)" by (simp add: tx_rc_def ex_homes fun_eq_iff)
  have h: "get32 (ex_disk (lpos (ex_log k 0) 0)) 0 = 0" using ex_head by (simp add: ex_disk_def ex_lpos)
  show ?thesis unfolding tx_inv_def ex_fs_simps d r using ex_fs_cache ex_log_ok(1) h by simp
qed

lemma ex_file_at: "file_at (ex_log k n) ex_sb ex_inode ex_disk 1"
proof -
  have "file_block ex_inode ex_disk 0 = 50" by (simp add: file_block_def ex_inode_def NDIRECT_def)
  moreover have "IBLOCK 1 ex_sb = 32" by (simp add: IBLOCK_def ex_sb_def IPB_def BSIZE_def DINODE_SIZE_def)
  ultimately show ?thesis
    using ex_data_block[of 50 k n] ex_data_block[of 32 k n]
    by (simp add: file_at_def allocated_def separate_def lessThan_Suc NDIRECT_def ex_inode_def MAXFILE_def BSIZE_def)
qed

lemma ex_on_disk: "on_disk ex_sb ex_inode [0, 0] ex_disk"
proof -
  have b: "IBLOCK 1 ex_sb = 32" by (simp add: IBLOCK_def ex_sb_def IPB_def BSIZE_def DINODE_SIZE_def)
  have n: "i_inum ex_inode = 1" "length (i_addrs ex_inode) = NDIRECT + 1" by (simp_all add: ex_inode_def NDIRECT_def)
  have "get_dinode ex_iblock (dip_off 1) ex_inode = ex_inode"
    unfolding ex_iblock_def using get_put_dinode[OF _ n(2), of "dip_off 1" "zeros 32" ex_inode] dip_off_fits[of 1] by (simp add: zeros_def)
  moreover have "file_data ex_inode ex_disk = [0, 0]"
  proof -
    have V: "small n \<Longrightarrow> length (ex_disk n) = BSIZE" for n by (rule ex_disk_len)
    have "file_data ex_inode ex_disk = take (unat (i_size ex_inode)) (file_raw ex_inode ex_disk 1)"
      using ex_file_at[of 0 0] by (intro file_data_raw[OF V]) (auto simp: file_at_def)
    also have "file_raw ex_inode ex_disk 1 = replicate BSIZE 0"
      by (simp add: file_raw_def file_block_def ex_inode_def NDIRECT_def ex_disk_def zeros_def)
    finally have "file_data ex_inode ex_disk = take 2 (replicate BSIZE 0)" by (simp add: ex_inode_def)
    then show ?thesis by (simp add: BSIZE_def min_def numeral_2_eq_2)
  qed
  ultimately show ?thesis by (simp add: on_disk_def n b ex_disk_def)
qed

lemma bm_ex_bitmap:
  assumes "j < BPB"
  shows "bm ex_bitmap j \<longleftrightarrow> j < 51"
proof -
  have b: "bit (255 :: u8) m \<longleftrightarrow> m < 8" "bit (7 :: u8) m \<longleftrightarrow> m < 3" for m
    using bit_mask_iff[where 'a = u8, of 8 m] bit_mask_iff[where 'a = u8, of 3 m] by (auto simp: mask_eq_exp_minus_1 possible_bit_word)
  have j: "j = j div 8 * 8 + j mod 8" "j mod 8 < 8" "j div 8 < BSIZE" using bm_byte[OF assms, of "replicate BSIZE 0"] by simp_all
  consider "j div 8 < 6" | "j div 8 = 6" | "6 < j div 8" by linarith
  then show ?thesis
  proof cases
    case 1
    then have "j < 51" using j by linarith
    then show ?thesis using 1 b(1)[of "j mod 8"] j(2) by (simp add: bm_def ex_bitmap_def nth_append)
  next
    case 2
    then have "j < 51 \<longleftrightarrow> j mod 8 < 3" using j by linarith
    then show ?thesis using 2 b(2)[of "j mod 8"] by (simp add: bm_def ex_bitmap_def nth_append)
  next
    case 3
    then have "\<not> j < 51" "j div 8 - 7 < BSIZE - 7" using j by linarith+
    then show ?thesis using 3 by (simp add: bm_def ex_bitmap_def nth_append)
  qed
qed

end
