(* ===== verification/FileProps.thy ===== *)
theory FileProps
  imports ExampleFs
begin

text \<open>
  Properties of the file system that rest on all layers below it: the free map, reading, writing, and a write that is
  interrupted by a crash.
\<close>

section \<open>Writing across a crash\<close>

lemma begin_op_tx:
  assumes t: "tx_inv p s V {} D" and l: "committing (klog s) = 0" "outstanding (klog s) = 0" "lhn s = 0"
  shows "\<exists>s'. begin_op s = Ok () s' \<and> tx_inv p s' V {} D \<and> same_place (klog s) (klog s') \<and> outstanding (klog s') = 1 \<and>
    committing (klog s') = 0 \<and> lhn s' = 0 \<and> lgstate.more s' = lgstate.more s"
proof -
  let ?s = "norm (s\<lparr>klog := (klog s)\<lparr>outstanding := outstanding (klog s) + 1\<rparr>\<rparr>)"
  have q: "quiet p s" using cache_stD(1)[OF tx_invD(1)[OF t]] .
  have b: "begin_op s = Ok () ?s" using begin_op_run[OF q l(1)] l(2,3) by (simp add: LOGSIZE_def MAXOPBLOCKS_def)
  have "tx_inv p ?s V {} D" using t by (simp add: tx_inv_def)
  moreover have "lgstate.more ?s = lgstate.more s" by (simp add: norm_def spinlock_defs Let_def)
  ultimately show ?thesis using b l by (simp add: same_place_def)
qed

lemma same_place_atomic:
  assumes "same_place l m" "atomic m V D E"
  shows "log_ok (disk_log l E)" "outside l (replay l E) = outside l D \<or> outside l (replay l E) = outside l (updated m V D)"
  using assms same_place_eqs[OF assms(1)] log_ok_disk_place[OF assms(1), of E E] by (auto simp: atomic_def)

text \<open>Whatever machine is started with the disk of \<open>t\<close>: its recovery returns, and then \<open>P\<close> holds of the disk.\<close>

definition recovers_to :: "klog \<Rightarrow> ((u32 \<Rightarrow> u8 list) \<Rightarrow> bool) \<Rightarrow> 'z lgstate_scheme \<Rightarrow> bool" where
  "recovers_to l P t \<longleftrightarrow> (\<forall>q (r :: 'z lgstate_scheme). reboot q l t r \<longrightarrow>
     post (disk_rely q) (\<lambda>_ r'. fresh q (of_int (log_dev l)) r' \<and> P (dblock (medium r'))) (recover_from_log r))"

lemma recovers_toI:
  assumes "\<And>n. small n \<Longrightarrow> dblock (medium t) n = E n" "log_ok (disk_log l E)" "\<And>X. outside l X = outside l (replay l E) \<Longrightarrow> P X"
  shows "recovers_to l P t"
  unfolding recovers_to_def
proof (intro allI impI)
  fix q r assume r: "reboot q l t r"
  show "post (disk_rely q) (\<lambda>_ r'. fresh q (of_int (log_dev l)) r' \<and> P (dblock (medium r'))) (recover_from_log r)"
    by (rule safe_mono[OF reboot_recovers[OF r assms(1,2)]]) (use assms(3) in auto)
qed

text \<open>Before \<^verbatim>\<open>end_op\<close> the disk is as it was; \<^verbatim>\<open>end_op\<close> takes it from the old contents to the new ones.\<close>

lemma recovers_to_old:
  assumes t: "tx_inv p s V {} D" and P: "\<And>X. outside (klog s) X = outside (klog s) D \<Longrightarrow> P X" and c: "unchanged D t"
  shows "recovers_to (klog s) P t"
  using c tx_invD(2,3)[OF t] log_ok_disk_empty[of "klog s" D D] replay_empty[of D "klog s"] P
  unfolding crash_def by (auto intro!: recovers_toI[where E = D])

lemma end_op_to:
  fixes s :: "'z lgstate_scheme"
  assumes t: "tx_inv p s V {} D" and o: "outstanding (klog s) = 1" "committing (klog s) = 0" and sp: "same_place l (klog s)"
    and P: "\<And>X. outside l X = outside l D \<Longrightarrow> P X" "\<And>X. outside l X = outside l V \<Longrightarrow> P X" and Q: "\<And>X. outside l X = outside l V \<Longrightarrow> Q X"
  shows "safe (disk_rely p) (recovers_to l P) (\<lambda>_ s'. Q (dblock (medium s'))) (end_op s)"
proof (rule safe_mono[OF end_op_safe[OF t o]])
  note pe = same_place_eqs[OF sp]
  have u: "outside l (updated (klog s) V D) = outside l V" using tx_updated[OF t] unfolding pe .
  fix x :: "'z lgstate_scheme" assume "crash (atomic (klog s) V D) x"
  then obtain E where E: "\<And>n. small n \<Longrightarrow> dblock (medium x) n = E n" "atomic (klog s) V D E" by (auto simp: crash_def)
  note at = same_place_atomic[OF sp E(2)]
  show "recovers_to l P x" by (rule recovers_toI[OF E(1) at(1)]) (use at(2) u P in auto)
next
  note pe = same_place_eqs[OF sp]
  fix u s' assume "\<exists>V' D'. tx_inv p s' V' {} D' \<and> outside (klog s) D' = outside (klog s) V \<and> outside (klog s) V' = outside (klog s) V \<and>
    klog s' = (cleared (klog s))\<lparr>outstanding := 0\<rparr>"
  then obtain V' D' where d: "tx_inv p s' V' {} D'" "outside l D' = outside l V" unfolding pe by blast
  have "outside l (dblock (medium s')) = outside l D'" using cache_stD(3)[OF tx_invD(1)[OF d(1)]] by (intro outside_eq) simp
  then show "Q (dblock (medium s'))" using d(2) Q by simp
qed



text \<open>
  C24: Reading a file into kernel memory. For an inode whose blocks up to its size are allocated, \<^verbatim>\<open>readi\<close> always returns; it
  delivers the bytes of the file from \<open>off\<close> on, at most \<open>n\<close> and none beyond the end, and their number; nothing at all if
  \<open>off + n\<close> overflows. Contents and disk are unchanged.
\<close>

theorem readi_returns_file:
  assumes "tx_inv p s V {} D" "tx_fits s {}" "i_dev (inodes s ip) = ldev s" "file_ok (klog s) (inodes s ip) V"
  shows "safe (disk_rely p) (unchanged D) (\<lambda>(r, bs) s'.
      bs = (if unat off + unat n < 2 ^ 32 then take (unat n) (drop (unat off) (file_data (inodes s ip) V)) else []) \<and> r = int (length bs) \<and>
      tx_inv p s' V {} D) (readi ip KernDst off n s)"
  by (rule safe_mono[OF readi_safe[OF assms]]) (auto simp: Let_def)

lemma ex_fits: "tx_fits (ex_fs k) {}"
  by (simp add: tx_fits_def ex_log_def NBUF_def MAXOPBLOCKS_def)

theorem readi_returns_file_witness:
  "safe (disk_rely 0) (unchanged ex_disk) (\<lambda>(r, bs) s'. bs = [0] \<and> r = 1 \<and> tx_inv 0 s' ex_disk {} ex_disk) (readi 0 KernDst 1 5 (ex_fs 1))"
proof -
  have i: "i_dev (inodes (ex_fs 1) 0) = ldev (ex_fs 1)" by (simp add: ex_inode_def ex_log_def)
  have "file_ok (klog (ex_fs 1)) (inodes (ex_fs 1) 0) ex_disk"
    using ex_file_at[of 1 0] by (simp add: file_at_def file_ok_def ex_inode_def MAXFILE_def NDIRECT_def NINDIRECT_def BSIZE_def)
  from readi_returns_file[OF ex_fs_tx ex_fits i this, of 1 5] show ?thesis
    using ex_on_disk by (auto simp: on_disk_def split_beta elim!: safe_mono)
qed

lemma file_at_ok:
  assumes "file_at l sbk i V k"
  shows "file_ok l i V"
proof -
  have a: "unat (i_size i) \<le> k * BSIZE" "allocated l i V k" using assms by (auto simp: file_at_def)
  have "(unat (i_size i) + BSIZE - 1) div BSIZE \<le> (k * BSIZE + BSIZE - 1) div BSIZE" using a(1) by (intro div_le_mono) simp
  also have "\<dots> = k" by (simp add: BSIZE_def)
  finally have c: "(unat (i_size i) + BSIZE - 1) div BSIZE \<le> k" .
  have "k * BSIZE \<le> MAXFILE * BSIZE" using a(2) by (simp add: allocated_def)
  then have "unat (i_size i) \<le> MAXFILE * BSIZE" using a(1) by (rule order_trans[rotated])
  then show ?thesis using a c by (auto simp: file_ok_def allocated_def)
qed

text \<open>
  C25: What was written is read back. After a successful \<^verbatim>\<open>writei\<close> into allocated blocks, \<^verbatim>\<open>readi\<close> of the same range returns
  exactly the bytes that were written; the disk is unchanged before the transaction ends.
\<close>

theorem writei_readi_roundtrip:
  assumes t: "tx_inv p s V {} D" and i: "i_dev (inodes s ip) = ldev s" "file_at (klog s) (sb s) (inodes s ip) V k"
    and n: "length bs = unat n" "unat off \<le> unat (i_size (inodes s ip))" "unat off + unat n \<le> k * BSIZE"
    and r: "tx_room s (Suc (nblocks (unat off) (unat n)))"
  shows "safe (disk_rely p) (unchanged D) (\<lambda>(r, bs') s'. bs' = bs \<and> r = int (unat n))
    (bind (writei ip (KernSrc bs) off n s) (\<lambda>_ s. readi ip KernDst off n s))"
proof (rule safe_seq[OF writei_safe[OF t i n, of 0]])
  show "tx_room s (Suc 0 + nblocks (unat off) (unat n))" using r by simp
  fix v s1 assume a: "v = int (unat n) \<and> tx_room s1 0 \<and> writei_post p ip k (unat off) bs V D s s1"
  let ?i = "grown (inodes s ip) (unat off + length bs)" and ?F = "file_data (inodes s ip) V"
  from a obtain V1 where 1: "tx_inv p s1 V1 {} D" "file_at (klog s1) (sb s1) ?i V1 k" "file_data ?i V1 = put_at ?F (unat off) bs"
    "inodes s1 ip = ?i" "same_place (klog s) (klog s1)" unfolding writei_post_def Let_def by auto
  have F: "allocated (klog s) (inodes s ip) V k" "unat (i_size (inodes s ip)) \<le> k * BSIZE" using i(2) by (auto simp: file_at_def)
  then have "k * BSIZE \<le> MAXFILE * BSIZE" by (simp add: allocated_def)
  then have w: "unat off + unat n < 2 ^ 32" using n(3) by (simp add: MAXFILE_eq)
  have d: "i_dev (inodes s1 ip) = ldev s1" using i(1) 1(4,5) by (simp add: same_place_def)
  have f: "tx_fits s1 {}" using tx_room_fits[OF tx_invD(2)[OF 1(1)], of 0 "{}"] a by simp
  have "length ?F = unat (i_size (inodes s ip))" by (rule length_file_data[OF bc.block[OF tx_invD(1)[OF t]] F])
  then have "take (unat n) (drop (unat off) (put_at ?F (unat off) bs)) = bs" using n(1,2) by (simp add: put_at_def)
  then show "safe (disk_rely p) (unchanged D) (\<lambda>(r, bs') s'. bs' = bs \<and> r = int (unat n)) (readi ip KernDst off n s1)"
    using readi_safe[OF 1(1) f d, of off n] file_at_ok[OF 1(2)] 1(3,4) w n(1) by (auto simp: Let_def elim!: safe_mono)
qed

theorem writei_readi_roundtrip_witness:
  "safe (disk_rely 0) (unchanged ex_disk) (\<lambda>(r, bs') s'. bs' = [7, 8, 9] \<and> r = 3)
    (bind (writei 0 (KernSrc [7, 8, 9]) 1 3 (ex_fs 1)) (\<lambda>_ s. readi 0 KernDst 1 3 s))"
proof -
  have i: "i_dev (inodes (ex_fs 1) 0) = ldev (ex_fs 1)" by (simp add: ex_inode_def ex_log_def)
  have f: "file_at (klog (ex_fs 1)) (sb (ex_fs 1)) (inodes (ex_fs 1) 0) ex_disk 1" using ex_file_at by simp
  have "tx_room (ex_fs 1) (Suc (nblocks (unat (1 :: u32)) (unat (3 :: u32))))" by (simp add: tx_room_def ex_log_def nblocks_def BSIZE_def)
  from writei_readi_roundtrip[OF ex_fs_tx i f _ _ _ this, of "[7, 8, 9]"] show ?thesis by (simp add: ex_inode_def BSIZE_def)
qed

section \<open>The free map\<close>

lemma unat_lt2p_32: "unat (w :: u32) < 2 ^ 32"
  using unsigned_less[of w] by simp

text \<open>The blocks of the free map are listed as in use themselves.\<close>

definition map_in_use :: "superblock \<Rightarrow> (u32 \<Rightarrow> u8 list) \<Rightarrow> bool" where
  "map_in_use sbk V \<longleftrightarrow> (\<forall>j < unat (sb_size sbk). used sbk V (unat (BBLOCK j sbk)))"

lemma used_after:
  assumes V: "\<And>n. small n \<Longrightarrow> length (V n) = BSIZE" and b: "bitmap_ok l sbk" "b < unat (sb_size sbk)" "of_nat b \<notin> (\<lambda>j. BBLOCK j sbk) ` {..<unat (sb_size sbk)}"
    and j: "j < unat (sb_size sbk)"
  shows "used sbk ((taken_map sbk b V)(of_nat b := v)) j = (j = b \<or> used sbk V j)"
proof -
  have "BBLOCK j sbk \<noteq> of_nat b" using b(3) j by force
  then have "used sbk ((taken_map sbk b V)(of_nat b := v)) j = used sbk (taken_map sbk b V) j" by (simp add: used_def)
  also have "\<dots> = (j = b \<or> used sbk V j)"
  proof (rule used_taken(1))
    show "length (V (BBLOCK b sbk)) = BSIZE" using V b(1,2) by (simp add: bitmap_ok_def)
    have "j div BPB \<le> j" "b div BPB \<le> b" "unat (sb_size sbk) < 2 ^ 32" using unat_lt2p_32 by simp_all
    then show "b div BPB < 2 ^ 32" "j div BPB < 2 ^ 32" using b(2) j by linarith+
  qed
  finally show ?thesis .
qed

text \<open>
  C26: \<^verbatim>\<open>balloc\<close> takes the lowest free block. If the free map has a clear bit, \<^verbatim>\<open>balloc\<close> returns the number of the lowest one;
  the block is then zero and listed as in use, no other bit of the map and no other block changes, and the disk is unchanged.
\<close>

theorem balloc_takes_lowest:
  assumes t: "tx_inv p s V {} D" and m: "bitmap_ok (klog s) (sb s)" "map_in_use (sb s) V" and r: "tx_room s 2"
    and b: "b < unat (sb_size (sb s))" "\<not> used (sb s) V b" "\<forall>j < b. used (sb s) V j" "data_block (klog s) (of_nat b)"
  shows "safe (disk_rely p) (unchanged D) (\<lambda>a s'. a = of_nat b \<and> (\<exists>V'. tx_inv p s' V' {} D \<and> V' (of_nat b) = replicate BSIZE 0 \<and>
      (\<forall>j < unat (sb_size (sb s)). used (sb s) V' j = (j = b \<or> used (sb s) V j)) \<and>
      (\<forall>n. n \<noteq> of_nat b \<and> n \<noteq> BBLOCK b (sb s) \<longrightarrow> V' n = V n))) (balloc (ldev s) s)"
proof (rule safe_mono)
  have n: "small (of_nat b)" "of_nat b \<notin> area (klog s)" using b(4) by (simp_all add: data_block_def)
  show "safe (disk_rely p) (unchanged D) (\<lambda>a s'. a = of_nat b \<and> tx_inv p s' ((taken_map (sb s) b V)(of_nat b := replicate BSIZE 0)) {} D \<and>
      tx_keep s s' \<and> tx_room s' 0) (balloc (ldev s) s)"
    using b r by (intro balloc_safe[OF t m(1) _ _ _ _ n]) (auto simp: numeral_2_eq_2)
  fix a s' assume a: "a = of_nat b \<and> tx_inv p s' ((taken_map (sb s) b V)(of_nat b := replicate BSIZE 0)) {} D \<and> tx_keep s s' \<and> tx_room s' 0"
  have "unat (sb_size (sb s)) < 2 ^ 32" by (rule unat_lt2p_32)
  then have u: "unat (of_nat b :: u32) = b" using b(1) by (intro unat_of_nat_32) simp
  have nb: "of_nat b \<notin> (\<lambda>j. BBLOCK j (sb s)) ` {..<unat (sb_size (sb s))}" using m(2) b(2) u by (auto simp: map_in_use_def)
  note ua = used_after[OF bc.block[OF tx_invD(1)[OF t]] m(1) b(1) nb]
  let ?V = "(taken_map (sb s) b V)(of_nat b := replicate BSIZE 0)"
  have "?V n = V n" if "n \<noteq> of_nat b" "n \<noteq> BBLOCK b (sb s)" for n using that by (simp add: taken_map_def)
  then show "a = of_nat b \<and> (\<exists>V'. tx_inv p s' V' {} D \<and> V' (of_nat b) = replicate BSIZE 0 \<and>
      (\<forall>j < unat (sb_size (sb s)). used (sb s) V' j = (j = b \<or> used (sb s) V j)) \<and>
      (\<forall>n. n \<noteq> of_nat b \<and> n \<noteq> BBLOCK b (sb s) \<longrightarrow> V' n = V n))"
    using a ua by (intro conjI exI[of _ ?V]) auto
qed auto

lemma ex_BBLOCK: "b < 1000 \<Longrightarrow> BBLOCK b ex_sb = 45"
  by (simp add: BBLOCK_def ex_sb_def BPB_def BSIZE_def)

lemma ex_used: "j < 1000 \<Longrightarrow> used ex_sb ex_disk j = (j < 51)"
  using bm_ex_bitmap[of j] by (simp add: used_def ex_BBLOCK ex_disk_def BPB_def BSIZE_def)

lemma ex_map: "bitmap_ok (ex_log k 0) ex_sb" "map_in_use ex_sb ex_disk" "sb_size ex_sb = 1000"
proof -
  show s: "sb_size ex_sb = 1000" by (simp add: ex_sb_def)
  show "bitmap_ok (ex_log k 0) ex_sb" unfolding bitmap_ok_def s using ex_data_block[of 45 k 0] by (simp add: ex_BBLOCK data_block_def)
  show "map_in_use ex_sb ex_disk" unfolding map_in_use_def s by (simp add: ex_BBLOCK ex_used)
qed

theorem balloc_takes_lowest_witness:
  "safe (disk_rely 0) (unchanged ex_disk) (\<lambda>a s'. a = 51 \<and> (\<exists>V'. tx_inv 0 s' V' {} ex_disk \<and> V' 51 = replicate BSIZE 0 \<and>
      (\<forall>j < 1000. used ex_sb V' j = (j = 51 \<or> used ex_sb ex_disk j)) \<and> (\<forall>n. n \<noteq> 51 \<and> n \<noteq> 45 \<longrightarrow> V' n = ex_disk n))) (balloc 1 (ex_fs 1))"
proof -
  have m: "bitmap_ok (klog (ex_fs 1)) (sb (ex_fs 1))" "map_in_use (sb (ex_fs 1)) ex_disk" using ex_map by simp_all
  have r: "tx_room (ex_fs 1) 2" by (simp add: tx_room_def ex_log_def)
  have b: "51 < unat (sb_size (sb (ex_fs 1)))" "\<not> used (sb (ex_fs 1)) ex_disk 51" "\<forall>j < 51. used (sb (ex_fs 1)) ex_disk j"
    using ex_used by (simp_all add: ex_map)
  have d: "data_block (klog (ex_fs 1)) (of_nat 51)" using ex_data_block[of 51 1 0] by simp
  show ?thesis using balloc_takes_lowest[OF ex_fs_tx m r b d] by (simp add: ex_map ex_BBLOCK ex_log_def)
qed

lemma clear_set_bit: "\<not> bm d i \<Longrightarrow> i div 8 < length d \<Longrightarrow> clear_bit_at i (set_bit_at i d) = d"
proof -
  assume b: "\<not> bm d i" "i div 8 < length d"
  have "(d ! (i div 8) OR bit_mask i) AND NOT (bit_mask i) = d ! (i div 8)"
    using b(1) by (intro bit_eqI) (auto simp: bit_or_iff bit_and_iff bit_not_iff bit_bit_mask bm_def)
  then show ?thesis using b(2) by (simp add: clear_bit_at_def set_bit_at_def)
qed

text \<open>
  C27: \<^verbatim>\<open>bfree\<close> undoes \<^verbatim>\<open>balloc\<close>. Freeing the block that \<^verbatim>\<open>balloc\<close> has just returned never panics and restores the free map and
  every block but the one that was allocated.
\<close>

theorem bfree_undoes_balloc:
  assumes t: "tx_inv p s V {} D" and m: "bitmap_ok (klog s) (sb s)" "map_in_use (sb s) V" and r: "tx_room s 3"
    and b: "b < unat (sb_size (sb s))" "\<not> used (sb s) V b" "\<forall>j < b. used (sb s) V j" "data_block (klog s) (of_nat b)"
  shows "safe (disk_rely p) (unchanged D) (\<lambda>_ s'. \<exists>V'. tx_inv p s' V' {} D \<and> (\<forall>n. n \<noteq> of_nat b \<longrightarrow> V' n = V n))
    (bind (balloc (ldev s) s) (\<lambda>a s. bfree (ldev s) a s))"
proof -
  have n: "small (of_nat b)" "of_nat b \<notin> area (klog s)" using b(4) by (simp_all add: data_block_def)
  let ?V = "(taken_map (sb s) b V)(of_nat b := replicate BSIZE 0)" and ?B = "BBLOCK b (sb s)"
  have "unat (sb_size (sb s)) < 2 ^ 32" by (rule unat_lt2p_32)
  then have u: "unat (of_nat b :: u32) = b" using b(1) by (intro unat_of_nat_32) simp
  have nb: "of_nat b \<notin> (\<lambda>j. BBLOCK j (sb s)) ` {..<unat (sb_size (sb s))}" using m(2) b(2) u by (auto simp: map_in_use_def)
  then have B: "of_nat b \<noteq> ?B" "small ?B" "?B \<notin> area (klog s)" using m(1) b(1) by (force simp: bitmap_ok_def)+
  have len: "length (V ?B) = BSIZE" using bc.block[OF tx_invD(1)[OF t] B(2)] .
  have us: "used (sb s) ?V b" using used_after[OF bc.block[OF tx_invD(1)[OF t]] m(1) b(1) nb b(1)] by simp
  have "clear_bit_at (b mod BPB) (set_bit_at (b mod BPB) (V ?B)) = V ?B"
    using b(2) bm_byte[OF _ len, of "b mod BPB"] BPB_pos by (intro clear_set_bit) (auto simp: used_def)
  then have eq: "freed_map (sb s) b ?V n = V n" if "n \<noteq> of_nat b" for n using that B(1) by (simp add: freed_map_def taken_map_def)
  show ?thesis
  proof (rule safe_seq)
    show "safe (disk_rely p) (unchanged D) (\<lambda>a s'. a = of_nat b \<and> tx_inv p s' ?V {} D \<and> tx_keep s s' \<and> tx_room s' 1) (balloc (ldev s) s)"
      using b r by (intro balloc_safe[OF t m(1) _ _ _ _ n]) (auto simp: numeral_3_eq_3)
    fix a :: u32 and s1 assume a: "a = of_nat b \<and> tx_inv p s1 ?V {} D \<and> tx_keep s s1 \<and> tx_room s1 1"
    then have k: "sb s1 = sb s" "area (klog s1) = area (klog s)" "ldev s1 = ldev s" using tx_keep_fs(1)[of s s1] tx_keep_place[of s s1] by auto
    have "safe (disk_rely p) (unchanged D) (\<lambda>_ s'. tx_inv p s' (freed_map (sb s1) (unat (of_nat b :: u32)) ?V) {} D \<and> tx_keep s1 s' \<and> tx_room s' 0 \<and>
        (\<forall>x j. j \<in> {} \<and> hnd (ldev s1) s1 x j \<longrightarrow> hnd (ldev s1) s' x j)) (bfree (ldev s1) (of_nat b) s1)"
      using a B us u k by (intro bfree_safe) auto
    then show "safe (disk_rely p) (unchanged D) (\<lambda>_ s'. \<exists>V'. tx_inv p s' V' {} D \<and> (\<forall>n. n \<noteq> of_nat b \<longrightarrow> V' n = V n)) (bfree (ldev s1) a s1)"
      using a eq unfolding u k by (auto elim!: safe_mono simp del: fun_upd_apply)
  qed
qed

theorem bfree_undoes_balloc_witness:
  "safe (disk_rely 0) (unchanged ex_disk) (\<lambda>_ s'. \<exists>V'. tx_inv 0 s' V' {} ex_disk \<and> (\<forall>n. n \<noteq> 51 \<longrightarrow> V' n = ex_disk n))
    (bind (balloc 1 (ex_fs 1)) (\<lambda>a s. bfree (ldev s) a s))"
proof -
  have m: "bitmap_ok (klog (ex_fs 1)) (sb (ex_fs 1))" "map_in_use (sb (ex_fs 1)) ex_disk" using ex_map by simp_all
  have r: "tx_room (ex_fs 1) 3" by (simp add: tx_room_def ex_log_def)
  have b: "51 < unat (sb_size (sb (ex_fs 1)))" "\<not> used (sb (ex_fs 1)) ex_disk 51" "\<forall>j < 51. used (sb (ex_fs 1)) ex_disk j"
    using ex_used by (simp_all add: ex_map)
  have d: "data_block (klog (ex_fs 1)) (of_nat 51)" using ex_data_block[of 51 1 0] by simp
  have l: "ldev (ex_fs 1) = 1" by (simp add: ex_log_def)
  show ?thesis using bfree_undoes_balloc[OF ex_fs_tx m r b d] unfolding l by (simp del: safe_bind)
qed

end
