(* ===== verification/DirFacts.thy ===== *)
theory DirFacts
  imports FileProps
begin

text \<open>
  The table of inodes and directories. The table never holds two entries for one inode; \<^verbatim>\<open>dirlookup\<close> finds the first entry
  of a directory with a given name.
\<close>

section \<open>The inode table\<close>

lemma iget_find_hit:
  "find (\<lambda>ip. i_ref (inodes s ip) > 0 \<and> i_dev (inodes s ip) = dev \<and> i_inum (inodes s ip) = inum) ips = Some ip \<Longrightarrow>
     \<exists>q. iget_find ips dev inum sp s = (Some ip, q)"
  by (induction ips arbitrary: sp) (auto split: if_splits)

lemma iget_find_miss:
  "find (\<lambda>ip. i_ref (inodes s ip) > 0 \<and> i_dev (inodes s ip) = dev \<and> i_inum (inodes s ip) = inum) ips = None \<Longrightarrow>
     iget_find ips dev inum sp s = (None, if sp = None then find (\<lambda>ip. i_ref (inodes s ip) = 0) ips else sp)"
  by (induction ips arbitrary: sp) (auto split: if_splits)

definition itable_ok :: "(nat \<Rightarrow> inode) \<Rightarrow> bool" where
  "itable_ok tab \<longleftrightarrow> (\<forall>a < NINODE. 0 \<le> i_ref (tab a)) \<and>
     (\<forall>a < NINODE. \<forall>b < NINODE. 0 < i_ref (tab a) \<and> 0 < i_ref (tab b) \<and> i_dev (tab a) = i_dev (tab b) \<and> i_inum (tab a) = i_inum (tab b) \<longrightarrow> a = b)"

text \<open>The entry for an inode, and the lowest entry that is not in use.\<close>

definition cached :: "(nat \<Rightarrow> inode) \<Rightarrow> u32 \<Rightarrow> u32 \<Rightarrow> nat option" where
  "cached tab dev inum = find (\<lambda>ip. i_ref (tab ip) > 0 \<and> i_dev (tab ip) = dev \<and> i_inum (tab ip) = inum) [0..<NINODE]"

definition spare :: "(nat \<Rightarrow> inode) \<Rightarrow> nat option" where
  "spare tab = find (\<lambda>ip. i_ref (tab ip) = 0) [0..<NINODE]"

lemma find_upt_Some: "find P [0..<n] = Some i \<Longrightarrow> i < n \<and> P i \<and> (\<forall>j < i. \<not> P j)"
  by (auto simp: find_Some_iff)

lemma find_upt_None: "find P [0..<n] = None \<longleftrightarrow> (\<forall>j < n. \<not> P j)"
  by (auto simp: find_None_iff)

text \<open>What \<^verbatim>\<open>iget\<close> does to the table.\<close>

definition iget_entry :: "u32 \<Rightarrow> u32 \<Rightarrow> (nat \<Rightarrow> inode) \<Rightarrow> (nat \<times> inode) option" where
  "iget_entry dev inum tab =
     (case cached tab dev inum of
        Some ip \<Rightarrow> Some (ip, (tab ip)\<lparr>i_ref := i_ref (tab ip) + 1\<rparr>)
      | None \<Rightarrow> map_option (\<lambda>ip. (ip, (tab ip)\<lparr>i_dev := dev, i_inum := inum, i_ref := 1, i_valid := 0\<rparr>)) (spare tab))"

lemma iget_eq:
  assumes "hart_ok s" "lock_free ItableLock s"
  shows "iget dev inum s = (case iget_entry dev inum (inodes s) of
      Some (ip, e) \<Rightarrow> Ok ip (norm (s\<lparr>inodes := (inodes s)(ip := e)\<rparr>)) | None \<Rightarrow> Panic ''iget: no inodes'')"
proof -
  let ?s = "grab ItableLock s" and ?f = "\<lambda>s :: 'a fsstate_scheme. case iget_find [0..<NINODE] dev inum None s of
         (Some ip, _) \<Rightarrow> Ok ip (upd_inode ip (\<lambda>i. i\<lparr>i_ref := i_ref i + 1\<rparr>) s)
       | (None, None) \<Rightarrow> Panic ''iget: no inodes''
       | (None, Some ip) \<Rightarrow> Ok ip (upd_inode ip (\<lambda>i. i\<lparr>i_dev := dev, i_inum := inum, i_ref := 1, i_valid := 0\<rparr>) s)"
  have ok: "iget dev inum s = Ok ip (norm (s\<lparr>inodes := (inodes s)(ip := e)\<rparr>))" if "?f ?s = Ok ip (grab ItableLock (s\<lparr>inodes := (inodes s)(ip := e)\<rparr>))" for ip e
    unfolding iget_def by (rule with_lock_pure) (fact assms | rule that | simp add: assms)+
  show ?thesis
  proof (cases "cached (inodes s) dev inum")
    case (Some ip)
    then obtain q where "iget_find [0..<NINODE] dev inum None ?s = (Some ip, q)"
      using iget_find_hit[of ?s dev inum "[0..<NINODE]" ip None] by (auto simp: cached_def)
    then have "?f ?s = Ok ip (grab ItableLock (s\<lparr>inodes := (inodes s)(ip := (inodes s ip)\<lparr>i_ref := i_ref (inodes s ip) + 1\<rparr>)\<rparr>))"
      by (simp add: upd_inode_def)
    from ok[OF this] show ?thesis using Some by (simp add: iget_entry_def)
  next
    case None
    then have f: "iget_find [0..<NINODE] dev inum None ?s = (None, spare (inodes s))"
      using iget_find_miss[of ?s dev inum "[0..<NINODE]" None] by (simp add: cached_def spare_def)
    show ?thesis
    proof (cases "spare (inodes s)")
      case None': None
      show ?thesis using f None None' assms by (simp add: iget_def with_lock_def acquire_lock_free iget_entry_def)
    next
      case (Some ip)
      then have "?f ?s = Ok ip (grab ItableLock (s\<lparr>inodes := (inodes s)(ip := (inodes s ip)\<lparr>i_dev := dev, i_inum := inum, i_ref := 1, i_valid := 0\<rparr>)\<rparr>))"
        using f by (simp add: upd_inode_def)
      from ok[OF this] show ?thesis using Some None by (simp add: iget_entry_def)
    qed
  qed
qed

lemma itable_ok_upd:
  assumes t: "itable_ok tab" and e: "0 \<le> i_ref e"
    and u: "\<And>b. b < NINODE \<Longrightarrow> b \<noteq> ip \<Longrightarrow> 0 < i_ref (tab b) \<Longrightarrow> i_dev (tab b) = i_dev e \<Longrightarrow> i_inum (tab b) = i_inum e \<Longrightarrow> False"
  shows "itable_ok (tab(ip := e))"
  unfolding itable_ok_def
proof (intro conjI allI impI)
  fix a b assume a: "a < NINODE" "b < NINODE" "0 < i_ref ((tab(ip := e)) a) \<and> 0 < i_ref ((tab(ip := e)) b) \<and>
    i_dev ((tab(ip := e)) a) = i_dev ((tab(ip := e)) b) \<and> i_inum ((tab(ip := e)) a) = i_inum ((tab(ip := e)) b)"
  show "a = b"
  proof (cases "a = ip \<or> b = ip")
    case True
    then show ?thesis using a u[of a] u[of b] by (auto split: if_splits)
  next
    case False
    then show ?thesis using a t unfolding itable_ok_def by simp
  qed
qed (use t e in \<open>simp add: itable_ok_def\<close>)

lemma iget_entry_ok:
  assumes t: "itable_ok tab" and e: "iget_entry dev inum tab = Some (ip, e)"
  shows "ip < NINODE" "itable_ok (tab(ip := e))" "i_dev e = dev" "i_inum e = inum" "0 < i_ref e"
proof -
  consider "cached tab dev inum = Some ip" "e = (tab ip)\<lparr>i_ref := i_ref (tab ip) + 1\<rparr>"
    | "cached tab dev inum = None" "spare tab = Some ip" "e = (tab ip)\<lparr>i_dev := dev, i_inum := inum, i_ref := 1, i_valid := 0\<rparr>"
    using e by (auto simp: iget_entry_def split: option.splits)
  then have "ip < NINODE \<and> itable_ok (tab(ip := e)) \<and> i_dev e = dev \<and> i_inum e = inum \<and> 0 < i_ref e"
  proof cases
    case 1
    then have c: "ip < NINODE" "0 < i_ref (tab ip)" "i_dev (tab ip) = dev" "i_inum (tab ip) = inum" by (auto simp: cached_def dest: find_upt_Some)
    have u: "a = ip" if "a < NINODE" "0 < i_ref (tab a)" "i_dev (tab a) = dev" "i_inum (tab a) = inum" for a
      using t c that unfolding itable_ok_def by blast
    have "itable_ok (tab(ip := e))"
    proof (rule itable_ok_upd[OF t])
      show "0 \<le> i_ref e" using 1(2) c(2) by simp
      show False if "b < NINODE" "b \<noteq> ip" "0 < i_ref (tab b)" "i_dev (tab b) = i_dev e" "i_inum (tab b) = i_inum e" for b
        using u[OF that(1,3)] that(2,4,5) 1(2) c(3,4) by simp
    qed
    then show ?thesis using 1(2) c by simp
  next
    case 2
    then have c: "ip < NINODE" "i_ref (tab ip) = 0" by (auto simp: spare_def dest: find_upt_Some)
    have u: "\<not> (0 < i_ref (tab a) \<and> i_dev (tab a) = dev \<and> i_inum (tab a) = inum)" if "a < NINODE" for a
      using 2(1) that by (auto simp: cached_def find_upt_None)
    have "itable_ok (tab(ip := e))"
    proof (rule itable_ok_upd[OF t])
      show "0 \<le> i_ref e" using 2(3) by simp
      show False if "b < NINODE" "b \<noteq> ip" "0 < i_ref (tab b)" "i_dev (tab b) = i_dev e" "i_inum (tab b) = i_inum e" for b
        using u[OF that(1)] that(3-5) 2(3) by simp
    qed
    then show ?thesis using 2(3) c by simp
  qed
  then show "ip < NINODE" "itable_ok (tab(ip := e))" "i_dev e = dev" "i_inum e = inum" "0 < i_ref e" by auto
qed

text \<open>
  C28: The inode table never holds an inode twice. \<^verbatim>\<open>iget\<close> returns the entry of the inode with one more reference, or the lowest
  unused entry filled in with one reference and marked as not read; no other entry changes. It panics exactly when the inode
  is not in the table and every entry is in use.
\<close>

theorem iget_keeps_unique:
  assumes "hart_ok s" "lock_free ItableLock s" "itable_ok (inodes s)"
  shows "case iget dev inum s of
      Ok ip s' \<Rightarrow> ip < NINODE \<and> itable_ok (inodes s') \<and> i_dev (inodes s' ip) = dev \<and> i_inum (inodes s' ip) = inum \<and>
        (if cached (inodes s) dev inum = Some ip then i_ref (inodes s' ip) = i_ref (inodes s ip) + 1 \<and> i_valid (inodes s' ip) = i_valid (inodes s ip)
         else cached (inodes s) dev inum = None \<and> spare (inodes s) = Some ip \<and> i_ref (inodes s' ip) = 1 \<and> i_valid (inodes s' ip) = 0) \<and>
        (\<forall>a. a \<noteq> ip \<longrightarrow> inodes s' a = inodes s a)
    | Panic m \<Rightarrow> m = ''iget: no inodes'' \<and> cached (inodes s) dev inum = None \<and> spare (inodes s) = None
    | _ \<Rightarrow> False"
proof (cases "iget_entry dev inum (inodes s)")
  case None
  then show ?thesis unfolding iget_eq[OF assms(1,2)] by (simp add: iget_entry_def split: option.splits)
next
  case (Some pe)
  obtain ip e where pe: "pe = (ip, e)" by (cases pe)
  note ok = iget_entry_ok[OF assms(3) Some[unfolded pe]]
  have "cached (inodes s) dev inum = Some ip \<and> e = (inodes s ip)\<lparr>i_ref := i_ref (inodes s ip) + 1\<rparr> \<or>
      cached (inodes s) dev inum = None \<and> spare (inodes s) = Some ip \<and> i_ref e = 1 \<and> i_valid e = 0"
    using Some pe by (auto simp: iget_entry_def split: option.splits)
  then show ?thesis unfolding iget_eq[OF assms(1,2)] using Some pe ok by auto
qed

section \<open>Names\<close>

lemma strncmp_zero: "strncmp p q n = 0 \<longleftrightarrow> takeWhile (\<lambda>c. c \<noteq> 0) (map p [0..<n]) = takeWhile (\<lambda>c. c \<noteq> 0) (map q [0..<n])"
proof (induction n arbitrary: p q)
  case (Suc n)
  have "[0..<Suc n] = 0 # map Suc [0..<n]" by (simp add: map_Suc_upt upt_conv_Cons del: upt_Suc)
  moreover have "uint (p 0) - uint (q 0) = 0 \<longleftrightarrow> p 0 = q 0" by (simp add: word_uint_eq_iff)
  ultimately show ?case using Suc[of "\<lambda>i. p (Suc i)" "\<lambda>i. q (Suc i)"] by (simp add: comp_def uint_0_iff del: upt_Suc right_minus_eq)
qed simp

lemma takeWhile_rd: "takeWhile (\<lambda>c. c \<noteq> 0) (map (rd bs) [0..<n]) = takeWhile (\<lambda>c. c \<noteq> 0) (take n bs)"
proof -
  have "map (rd bs) [0..<n] = take n bs @ replicate (n - length bs) 0"
    by (rule nth_equalityI) (auto simp: rd_def nth_append)
  moreover have "takeWhile (\<lambda>c. c \<noteq> 0) (xs @ replicate k 0) = takeWhile (\<lambda>c. c \<noteq> (0 :: u8)) xs" for xs k
    by (induction xs) (auto simp: takeWhile_eq_Nil_iff)
  ultimately show ?thesis by simp
qed

lemma namecmp_cname: "namecmp a b = 0 \<longleftrightarrow> cname a = cname b"
  by (simp add: namecmp_def strncmp_zero takeWhile_rd cname_def)

section \<open>Directories\<close>

text \<open>Entry \<open>k\<close> of a directory with contents \<open>F\<close>, and the search for a name: the first entry in use that has it.\<close>

definition dir_entry :: "u8 list \<Rightarrow> nat \<Rightarrow> u8 list" where
  "dir_entry F k = take DIRENT_SIZE (drop (k * DIRENT_SIZE) F)"

definition has_name :: "u8 list \<Rightarrow> u8 list \<Rightarrow> nat \<Rightarrow> bool" where
  "has_name F name k \<longleftrightarrow> de_inum (dir_entry F k) \<noteq> 0 \<and> cname (de_name (dir_entry F k)) = cname name"

definition dir_find :: "u8 list \<Rightarrow> u8 list \<Rightarrow> nat option" where
  "dir_find F name = find (has_name F name) [0..<length F div DIRENT_SIZE]"

text \<open>The answer of \<^verbatim>\<open>dirlookup\<close>: the offset of the entry, and an inode of the table with its number.\<close>

definition dir_answer :: "nat \<Rightarrow> (u32 \<Rightarrow> u8 list) \<Rightarrow> (u32 \<Rightarrow> u8 list) \<Rightarrow> u8 list \<Rightarrow> u32 \<Rightarrow> nat option \<Rightarrow> (nat \<times> u32) option \<Rightarrow> 'z fsstate_scheme \<Rightarrow> bool" where
  "dir_answer p V D F dev k r s' \<longleftrightarrow> tx_inv p s' V {} D \<and> itable_ok (inodes s') \<and>
     (case k of None \<Rightarrow> r = None
      | Some k \<Rightarrow> \<exists>ip. r = Some (ip, of_nat (k * DIRENT_SIZE)) \<and> ip < NINODE \<and> 0 < i_ref (inodes s' ip) \<and> i_dev (inodes s' ip) = dev \<and>
          i_inum (inodes s' ip) = ucast (de_inum (dir_entry F k)))"

lemma dirlookup_loop_safe:
  assumes t: "tx_inv p s V {} D" "tx_fits s {}" "i_dev (inodes s dp) = ldev s" "file_ok (klog s) (inodes s dp) V" "itable_ok (inodes s)"
    and sz: "unat (i_size (inodes s dp)) = N * DIRENT_SIZE" "k + fuel = N" and room: "spare (inodes s) \<noteq> None"
  shows "safe (disk_rely p) (unchanged D) (dir_answer p V D (file_data (inodes s dp) V) (ldev s) (find (has_name (file_data (inodes s dp) V) name) [k..<N]))
    (dirlookup_loop fuel dp name (k * DIRENT_SIZE) s)"
  using assms
proof (induction fuel arbitrary: k s)
  case 0
  then show ?case by (subst dirlookup_loop.simps) (simp add: dir_answer_def)
next
  case (Suc fuel)
  note p = Suc.prems
  let ?i = "inodes s dp" let ?F = "file_data ?i V" and ?n = "of_nat (k * DIRENT_SIZE) :: u32"
  have kN: "k < N" "k * DIRENT_SIZE < unat (i_size ?i)" using p(6,7) by (simp_all add: DIRENT_SIZE_def)
  have lt: "unat (i_size ?i) \<le> 274432" using p(4) by (simp add: file_ok_def MAXFILE_eq)
  have u: "unat ?n = k * DIRENT_SIZE" by (rule unat_of_nat_32) (use kN(2) lt in simp)
  have u': "unat (of_nat DIRENT_SIZE :: u32) = 16" by (simp add: DIRENT_SIZE_def)
  have al: "allocated (klog s) ?i V ((unat (i_size ?i) + BSIZE - 1) div BSIZE)" using p(4) by (simp add: file_ok_def)
  have lF: "length ?F = N * DIRENT_SIZE"
    using length_file_data[OF bc.block[OF tx_invD(1)[OF p(1)]] al size_blocks] p(6) by simp
  have "k * 16 + 16 \<le> N * 16" using kN(1) by linarith
  then have e: "length (dir_entry ?F k) = 16" by (simp add: dir_entry_def lF DIRENT_SIZE_def)
  have rd: "(let bs = if unat ?n + unat (of_nat DIRENT_SIZE :: u32) < 2 ^ 32 then take (unat (of_nat DIRENT_SIZE :: u32)) (drop (unat ?n) ?F) else [] in (int (length bs), bs)) =
      (int DIRENT_SIZE, dir_entry ?F k)"
    unfolding u u' using kN(2) lt e by (simp add: dir_entry_def DIRENT_SIZE_def Let_def)
  have up: "[k..<N] = k # [Suc k..<N]" using kN(1) by (simp add: upt_conv_Cons)
  show ?case unfolding dirlookup_loop.simps[of "Suc fuel"] if_P[OF kN(2)] nat.case
  proof (rule safe_seq[OF readi_safe[OF p(1-4)]])
    fix v s1 assume a: "v = (let bs = if unat ?n + unat (of_nat DIRENT_SIZE :: u32) < 2 ^ 32 then take (unat (of_nat DIRENT_SIZE :: u32)) (drop (unat ?n) ?F) else []
      in (int (length bs), bs)) \<and> tx_inv p s1 V {} D \<and> klog s1 = klog s \<and> tx_keep s s1"
    then have v: "v = (int DIRENT_SIZE, dir_entry ?F k)" and t1: "tx_inv p s1 V {} D" and k1: "klog s1 = klog s" and i1: "inodes s1 = inodes s"
      unfolding rd using tx_keep_fs(2)[of s s1] by auto
    show "safe (disk_rely p) (unchanged D) (dir_answer p V D ?F (ldev s) (find (has_name ?F name) [k..<N]))
      ((case v of (r, de) \<Rightarrow> \<lambda>s. if r \<noteq> int DIRENT_SIZE then Panic ''dirlookup read''
               else if de_inum de = 0 then dirlookup_loop fuel dp name (k * DIRENT_SIZE + DIRENT_SIZE) s
               else if namecmp name (de_name de) = 0 then
                 bind (iget (i_dev (inodes s dp)) (ucast (de_inum de)) s) (\<lambda>ip s. Ok (Some (ip, of_nat (k * DIRENT_SIZE))) s)
               else dirlookup_loop fuel dp name (k * DIRENT_SIZE + DIRENT_SIZE) s) s1)"
    proof (cases "has_name ?F name k")
      case True
      have h: "hart_ok s1" "lock_free ItableLock s1" using quietD(1,4)[OF cache_stD(1)[OF tx_invD(1)[OF t1]]] by auto
      obtain ip en where ie: "iget_entry (ldev s) (ucast (de_inum (dir_entry ?F k))) (inodes s) = Some (ip, en)"
        using p(8) by (cases "cached (inodes s) (ldev s) (ucast (de_inum (dir_entry ?F k)))") (auto simp: iget_entry_def)
      note ok = iget_entry_ok[OF p(5) ie]
      have ig: "iget (ldev s) (ucast (de_inum (dir_entry ?F k))) s1 = Ok ip (norm (s1\<lparr>inodes := (inodes s)(ip := en)\<rparr>))"
        unfolding iget_eq[OF h] i1 ie by simp
      have "tx_inv p (upd_inode ip (\<lambda>_. en) s1) V {} D" using t1 by simp
      then have t2: "tx_inv p (norm (s1\<lparr>inodes := (inodes s)(ip := en)\<rparr>)) V {} D" unfolding tx_inv_norm by (simp add: upd_inode_def i1)
      have d: "i_dev (inodes s1 dp) = ldev s" using p(3) i1 by simp
      have fd: "find (has_name ?F name) [k..<N] = Some k" using True up by simp
      have nm: "de_inum (dir_entry ?F k) \<noteq> 0" "namecmp name (de_name (dir_entry ?F k)) = 0" using True by (simp_all add: has_name_def namecmp_cname)
      show ?thesis unfolding v prod.case fd d using nm ig t2 ok by (simp add: dir_answer_def)
    next
      case False
      have fd: "find (has_name ?F name) [k..<N] = find (has_name ?F name) [Suc k..<N]" using False up by simp
      have f1: "tx_fits s1 {}" using p(2) k1 by (simp add: tx_fits_def)
      have "safe (disk_rely p) (unchanged D) (dir_answer p V D (file_data (inodes s1 dp) V) (ldev s1) (find (has_name (file_data (inodes s1 dp) V) name) [Suc k..<N]))
          (dirlookup_loop fuel dp name (Suc k * DIRENT_SIZE) s1)"
        by (rule Suc.IH[OF t1 f1]) (use p(3-8) i1 k1 in auto)
      then show ?thesis unfolding v prod.case fd using False i1 k1 by (auto simp: has_name_def namecmp_cname add.commute)
    qed
  qed
qed

text \<open>
  C29: \<^verbatim>\<open>dirlookup\<close> agrees with a search in the list of entries. For a directory of whole entries it returns; the answer is the
  null pointer if no entry in use has the name, and otherwise the offset of the first such entry and a referenced inode of
  the table with its number. Names are compared up to their terminating NUL or 14 bytes.
\<close>

theorem dirlookup_finds_first:
  assumes "tx_inv p s V {} D" "tx_fits s {}" "i_dev (inodes s dp) = ldev s" "file_ok (klog s) (inodes s dp) V" "itable_ok (inodes s)"
    "i_type (inodes s dp) = T_DIR" "DIRENT_SIZE dvd unat (i_size (inodes s dp))" "spare (inodes s) \<noteq> None"
  shows "safe (disk_rely p) (unchanged D) (dir_answer p V D (file_data (inodes s dp) V) (ldev s) (dir_find (file_data (inodes s dp) V) name))
    (dirlookup dp name s)"
proof -
  let ?i = "inodes s dp" let ?N = "unat (i_size ?i) div DIRENT_SIZE"
  have "0 < DIRENT_SIZE" by (simp add: DIRENT_SIZE_def)
  then have N: "unat (i_size ?i) = ?N * DIRENT_SIZE" "dirents dp s = ?N"
    using assms(7) by (auto simp: dirents_def elim!: dvdE) (simp add: DIRENT_SIZE_def)
  have al: "allocated (klog s) ?i V ((unat (i_size ?i) + BSIZE - 1) div BSIZE)" using assms(4) by (simp add: file_ok_def)
  have "length (file_data ?i V) = unat (i_size ?i)" by (rule length_file_data[OF bc.block[OF tx_invD(1)[OF assms(1)]] al size_blocks])
  then show ?thesis
    using dirlookup_loop_safe[OF assms(1-5) N(1), of 0 ?N name] assms(6,8) N(2) by (simp add: dirlookup_def dir_find_def)
qed

text \<open>The example as a directory of two entries, of which the second has inode 7 and the name \<open>a\<close>.\<close>

definition ex_dirblock :: "u8 list" where
  "ex_dirblock = put_at (zeros 50) 16 [7, 0, 97]"

definition ex_dirnode :: inode where
  "ex_dirnode = ex_inode\<lparr>i_type := T_DIR, i_size := 32\<rparr>"

definition ex_dir :: fsstate where
  "ex_dir = (ex_fs 1)\<lparr>medium := dput 50 ex_dirblock (medium (ex_fs 1)), inodes := (\<lambda>_. ex_dirnode\<lparr>i_ref := 0\<rparr>)(0 := ex_dirnode)\<rparr>"

lemma ex_fs_handles: "\<not> hnd 1 (ex_fs k) b n"
  by (simp add: ex_fs_def lgstate.defs hnd_def) (simp add: ex_buf_def)

lemma ex_dirblock_len: "length ex_dirblock = BSIZE"
  unfolding ex_dirblock_def by (subst put_at_length) (simp_all add: zeros_def BSIZE_def)

lemma ex_dir_tx: "tx_inv 0 ex_dir (ex_disk(50 := ex_dirblock)) {} (ex_disk(50 := ex_dirblock))"
proof -
  let ?V = "ex_disk(50 := ex_dirblock)"
  note c = ex_fs_cache[of 1]
  have sm: "small 50" by (simp add: small_def)
  have "dblock (dput 50 ex_dirblock (medium (ex_fs 1))) n = ?V n" if "small n" for n
    using dblock_dput[OF sm that] cache_stD(3)[OF c that] by simp
  moreover have "length (?V n) = BSIZE" for n using ex_disk_len ex_dirblock_len by simp
  moreover have "hnd 1 ex_dir b n = hnd 1 (ex_fs 1) b n" for b n by (simp add: ex_dir_def hnd_def)
  moreover have "quiet 0 ex_dir" using cache_stD(1)[OF c] by (simp add: ex_dir_def quiet_def mycpu_def cpuid_def curp_def)
  ultimately have d: "cache_st 0 1 ex_dir ?V (\<lambda>_. 0) {} ?V"
    using c ex_fs_handles[of 1] unfolding cache_st_def by (simp add: ex_dir_def del: fun_upd_apply)
  have k: "klog ex_dir = ex_log 1 0" by (simp add: ex_dir_def)
  have l: "of_int (log_dev (ex_log 1 0)) = (1 :: u32)" by (simp add: ex_log_def)
  have r: "tx_rc (ex_log 1 0) {} = (\<lambda>_. 0)" by (simp add: tx_rc_def ex_homes fun_eq_iff)
  have h: "get32 (?V (lpos (ex_log 1 0) 0)) 0 = 0" using ex_head by (simp add: ex_disk_def ex_lpos)
  show ?thesis unfolding tx_inv_def k l r using d ex_log_ok(1) h by simp
qed

lemma ex_dir_facts:
  "inodes ex_dir 0 = ex_dirnode" "klog ex_dir = ex_log 1 0" "itable_ok (inodes ex_dir)" "spare (inodes ex_dir) \<noteq> None" "tx_fits ex_dir {}"
proof -
  show "inodes ex_dir 0 = ex_dirnode" "klog ex_dir = ex_log 1 0" by (simp_all add: ex_dir_def)
  then show "tx_fits ex_dir {}" by (simp add: tx_fits_def ex_log_def NBUF_def MAXOPBLOCKS_def)
  show "itable_ok (inodes ex_dir)" by (simp add: itable_ok_def ex_dir_def ex_dirnode_def ex_inode_def)
  have "i_ref (inodes ex_dir 1) = 0" by (simp add: ex_dir_def)
  then show "spare (inodes ex_dir) \<noteq> None" by (auto simp: spare_def find_upt_None NINODE_def intro!: exI[of _ 1])
qed

lemma ex_dir_data: "file_ok (ex_log 1 0) ex_dirnode (ex_disk(50 := ex_dirblock))" "file_data ex_dirnode (ex_disk(50 := ex_dirblock)) = replicate 16 0 @ [7, 0, 97] @ replicate 13 0"
proof -
  let ?V = "ex_disk(50 := ex_dirblock)"
  have b: "file_block ex_dirnode ?V 0 = 50" by (simp add: file_block_def ex_dirnode_def ex_inode_def NDIRECT_def)
  have a: "allocated (ex_log 1 0) ex_dirnode ?V 1" using b ex_data_block[of 50 1 0] by (simp add: allocated_def MAXFILE_def NDIRECT_def del: fun_upd_apply)
  then show "file_ok (ex_log 1 0) ex_dirnode ?V" 
    by (simp add: file_ok_def ex_dirnode_def MAXFILE_def NDIRECT_def NINDIRECT_def BSIZE_def del: fun_upd_apply)
  have V: "small n \<Longrightarrow> length (?V n) = BSIZE" for n using ex_disk_len ex_dirblock_len by simp
  have "file_data ex_dirnode ?V = take 32 (file_raw ex_dirnode ?V 1)"
    using file_data_raw[OF V a] by (simp add: ex_dirnode_def BSIZE_def)
  also have "file_raw ex_dirnode ?V 1 = ex_dirblock" using b by (simp add: file_raw_def)
  also have "take 32 ex_dirblock = replicate 16 0 @ [7, 0, 97] @ replicate 13 0"
    by (simp add: ex_dirblock_def put_at_def zeros_def BSIZE_def)
  finally show "file_data ex_dirnode ?V = replicate 16 0 @ [7, 0, 97] @ replicate 13 0" .
qed

theorem dirlookup_finds_first_witness:
  "safe (disk_rely 0) (unchanged (ex_disk(50 := ex_dirblock))) (\<lambda>r s'. \<exists>ip. r = Some (ip, 16) \<and> i_inum (inodes s' ip) = 7) (dirlookup 0 [97] ex_dir)"
proof -
  let ?F = "replicate 16 0 @ [7, 0, 97] @ replicate 13 0 :: u8 list"
  have d: "i_dev (inodes ex_dir 0) = ldev ex_dir" unfolding ex_dir_facts by (simp add: ex_dirnode_def ex_inode_def ex_log_def)
  have e: "dir_entry ?F 0 = replicate 16 0" "dir_entry ?F 1 = [7, 0, 97] @ replicate 13 0" by (simp_all add: dir_entry_def DIRENT_SIZE_def)
  have u: "[0..<2] = [0, 1 :: nat]" by (simp add: upt_rec)
  have z: "word_of (replicate 2 0) = (0 :: u16)" by (simp add: numeral_2_eq_2)
  have i: "de_inum (replicate 16 0) = 0" "de_inum ([7, 0, 97] @ replicate 13 0) = 7" by (simp_all add: de_inum_def get16_def z)
  have "cname (de_name ([7, 0, 97] @ replicate 13 0)) = [97]" "cname [97] = [97]"
    by (simp_all add: de_name_def cname_def DIRSIZ_def)
  then have "has_name ?F [97] 1" "\<not> has_name ?F [97] 0" unfolding has_name_def e i by simp_all
  moreover have "length ?F div DIRENT_SIZE = 2" by (simp add: DIRENT_SIZE_def)
  ultimately have "dir_find ?F [97] = Some 1" unfolding dir_find_def by (simp only: u find.simps if_True if_False)
  moreover have "de_inum (dir_entry ?F 1) = 7" unfolding e i ..
  moreover have "file_ok (klog ex_dir) (inodes ex_dir 0) (ex_disk(50 := ex_dirblock))" using ex_dir_data(1) unfolding ex_dir_facts .
  moreover have "i_type (inodes ex_dir 0) = T_DIR" "DIRENT_SIZE dvd unat (i_size (inodes ex_dir 0))"
    unfolding ex_dir_facts by (simp_all add: ex_dirnode_def DIRENT_SIZE_def)
  ultimately show ?thesis
    using dirlookup_finds_first[OF ex_dir_tx ex_dir_facts(5) d _ ex_dir_facts(3) _ _ ex_dir_facts(4), of "[97]"]
    unfolding ex_dir_facts(1) ex_dir_data(2) by (auto simp: dir_answer_def DIRENT_SIZE_def elim!: safe_mono)
qed

theorem iget_keeps_unique_witness:
  "\<exists>s'. iget 1 7 ex_dir = Ok 1 s' \<and> itable_ok (inodes s') \<and> i_inum (inodes s' 1) = 7 \<and> i_ref (inodes s' 1) = 1 \<and> inodes s' 0 = ex_dirnode"
proof -
  note q = quietD[OF cache_stD(1)[OF tx_invD(1)[OF ex_dir_tx]]]
  have c: "cached (inodes ex_dir) 1 7 = None"
    by (simp add: cached_def find_upt_None ex_dir_def ex_dirnode_def ex_inode_def)
  have "[0..<NINODE] = 0 # 1 # [2..<NINODE]" by (simp add: NINODE_def upt_rec)
  then have s: "spare (inodes ex_dir) = Some 1" by (simp add: spare_def ex_dir_def ex_dirnode_def ex_inode_def)
  show ?thesis using iget_keeps_unique[OF q(1,4) ex_dir_facts(3), of 1 7] c s ex_dir_facts(1)
    by (cases "iget 1 7 ex_dir") (auto split: if_splits)
qed

end
