(* ===== verification/Ulib.thy ===== *)
theory Ulib
  imports Sysfile
begin

text \<open>
  The C library of the user programs (\<^verbatim>\<open>user/ulib.c\<close>, \<^verbatim>\<open>user/printf.c\<close>) and the way a user program is
  modelled. A program runs on a kernel that answers system calls; the kernel is a parameter
  \<open>K\<close> of every program, a function from a request and the state of the world to a reply and a new
  state. A program returns a value, exits, or is replaced by the program that it executes. Loops whose
  length the kernel decides (reading until the end of a file) are partial functions with value
  \<open>None\<close> when they do not end. A C string is the list of its bytes before the NUL; block operations work on byte-addressed memory.
\<close>

section \<open>Programs and system calls\<close>

datatype request =
    Fork
  | Wait
  | Pipe
  | Read int int
  | Kill int
  | Exec "u8 list" "u8 list list"
  | Fstat int
  | Chdir "u8 list"
  | Dup int
  | Sbrk int
  | Sleep int
  | Open "u8 list" u32
  | Write int "u8 list"
  | Mknod "u8 list" int int
  | Unlink "u8 list"
  | Link "u8 list" "u8 list"
  | Mkdir "u8 list"
  | Close int

text \<open>A reply is the value in \<^verbatim>\<open>a0\<close> and the bytes that the kernel has stored through the pointer argument.\<close>

type_synonym reply = "int \<times> u8 list"
type_synonym 'w kernel = "request \<Rightarrow> 'w \<Rightarrow> reply \<times> 'w"

datatype 'a ures = Ret 'a | Exited int | Execd "u8 list" "u8 list list"

type_synonym ('a, 'w) uout = "('a ures \<times> 'w) option"

definition ubind :: "('a, 'w) uout \<Rightarrow> ('a \<Rightarrow> 'w \<Rightarrow> ('b, 'w) uout) \<Rightarrow> ('b, 'w) uout" where
  "ubind m f = Option.bind m (\<lambda>(r, w).
     case r of Ret a \<Rightarrow> f a w | Exited c \<Rightarrow> Some (Exited c, w) | Execd p av \<Rightarrow> Some (Execd p av, w))"

lemma ubind_simps [simp]:
  "ubind None f = None"
  "ubind (Some (Ret a, w)) f = f a w"
  "ubind (Some (Exited c, w)) f = Some (Exited c, w)"
  "ubind (Some (Execd p av, w)) f = Some (Execd p av, w)"
  by (simp_all add: ubind_def)

lemma ubind_mono [partial_function_mono]:
  assumes "mono_option B" "\<And>a w. mono_option (\<lambda>g. C g a w)"
  shows "mono_option (\<lambda>g. ubind (B g) (\<lambda>a w. C g a w))"
  unfolding ubind_def
proof (rule Partial_Function.bind_mono [OF assms(1)], goal_cases)
  case (1 y)
  show ?case by (cases y, cases "fst y") (auto intro: assms(2) option.const_mono)
qed

lemma ubind_cong [fundef_cong]:
  assumes "m = m'" "\<And>a w. m' = Some (Ret a, w) \<Longrightarrow> f a w = f' a w"
  shows "ubind m f = ubind m' f'"
  using assms by (auto simp: ubind_def split: ures.splits intro!: Option.bind_cong)

lemma ubind_assoc: "ubind (ubind m f) g = ubind m (\<lambda>a w. ubind (f a w) g)"
  by (cases m) (auto simp: ubind_def split: ures.split)

lemma ubind_ret [simp]: "ubind m (\<lambda>a w. Some (Ret a, w)) = m"
  by (cases m) (auto simp: ubind_def split: ures.split)

definition ureturn :: "'a \<Rightarrow> 'w \<Rightarrow> ('a, 'w) uout" where [simp]:
  "ureturn a w = Some (Ret a, w)"

definition uexit :: "int \<Rightarrow> 'w \<Rightarrow> ('a, 'w) uout" where [simp]:
  "uexit c w = Some (Exited c, w)"

definition usys :: "'w kernel \<Rightarrow> request \<Rightarrow> 'w \<Rightarrow> (reply, 'w) uout" where
  "usys K r w = (let (a, w) = K r w in Some (Ret a, w))"

definition ucall :: "'w kernel \<Rightarrow> request \<Rightarrow> 'w \<Rightarrow> (int, 'w) uout" where
  "ucall K r w = ubind (usys K r w) (\<lambda>(n, _) w. ureturn n w)"

text \<open>\<^verbatim>\<open>exec\<close> comes back only when it fails.\<close>

definition uexec :: "'w kernel \<Rightarrow> u8 list \<Rightarrow> u8 list list \<Rightarrow> 'w \<Rightarrow> (int, 'w) uout" where
  "uexec K path argv w =
     ubind (ucall K (Exec path argv) w) (\<lambda>r w. if r < 0 then ureturn r w else Some (Execd path argv, w))"

section \<open>Strings\<close>

text \<open>\<open>ustr bs\<close> is the C string at the start of a buffer, \<open>byte s\<close> the byte a pointer to a string reads.\<close>

definition ustr :: "u8 list \<Rightarrow> u8 list" where
  "ustr bs = takeWhile (\<lambda>b. b \<noteq> 0) bs"

primrec byte :: "u8 list \<Rightarrow> u8" where
  "byte [] = 0"
| "byte (c # s) = c"

fun strcmp :: "u8 list \<Rightarrow> u8 list \<Rightarrow> int" where
  "strcmp (p # ps) (q # qs) = (if p \<noteq> 0 \<and> p = q then strcmp ps qs else uint p - uint q)"
| "strcmp ps qs = uint (byte ps) - uint (byte qs)"

primrec strlen_u :: "u8 list \<Rightarrow> u32" where
  "strlen_u [] = 0"
| "strlen_u (c # s) = (if c \<noteq> 0 then strlen_u s + 1 else 0)"

text \<open>The result of \<^verbatim>\<open>strchr\<close> is the index of the byte it points to.\<close>

fun strchr :: "u8 list \<Rightarrow> u8 \<Rightarrow> nat option" where
  "strchr [] c = None"
| "strchr (b # s) c = (if b = 0 then None else if b = c then Some 0 else map_option Suc (strchr s c))"

text \<open>\<^verbatim>\<open>n * 10 + *s++ - '0'\<close> in the wrapping arithmetic of an \<^verbatim>\<open>int\<close>.\<close>

primrec atoi_loop :: "u32 \<Rightarrow> u8 list \<Rightarrow> u32" where
  "atoi_loop n [] = n"
| "atoi_loop n (c # s) = (if 48 \<le> c \<and> c \<le> 57 then atoi_loop (n * 10 + ucast c - 48) s else n)"

definition atoi :: "u8 list \<Rightarrow> int" where
  "atoi s = sint (atoi_loop 0 s)"

section \<open>Block operations\<close>

primrec memset_u_loop :: "memory \<Rightarrow> u64 \<Rightarrow> u8 \<Rightarrow> nat \<Rightarrow> nat \<Rightarrow> memory" where
  "memset_u_loop m cdst c i 0 = m"
| "memset_u_loop m cdst c i (Suc k) = memset_u_loop (m(cdst + of_nat i := c)) cdst c (Suc i) k"

definition memset_u :: "memory \<Rightarrow> u64 \<Rightarrow> int \<Rightarrow> u32 \<Rightarrow> memory" where
  "memset_u m dst c n = memset_u_loop m dst (of_int c) 0 (unat n)"

text \<open>Copies backwards unless the source is the higher address; a negative count copies nothing.\<close>

definition memmove_u :: "memory \<Rightarrow> u64 \<Rightarrow> u64 \<Rightarrow> int \<Rightarrow> memory" where
  "memmove_u m dst src n =
     (if src > dst then copy_up m dst src (nat n)
      else copy_down m (dst + of_int n) (src + of_int n) (nat n))"

definition memcpy_u :: "memory \<Rightarrow> u64 \<Rightarrow> u64 \<Rightarrow> u32 \<Rightarrow> memory" where
  "memcpy_u m dst src n = memmove_u m dst src (sint n)"

primrec memcmp_u_loop :: "memory \<Rightarrow> u64 \<Rightarrow> u64 \<Rightarrow> nat \<Rightarrow> int" where
  "memcmp_u_loop m p1 p2 0 = 0"
| "memcmp_u_loop m p1 p2 (Suc n) =
     (if m p1 \<noteq> m p2 then uint (m p1) - uint (m p2) else memcmp_u_loop m (p1 + 1) (p2 + 1) n)"

definition memcmp_u :: "memory \<Rightarrow> u64 \<Rightarrow> u64 \<Rightarrow> u32 \<Rightarrow> int" where
  "memcmp_u m s1 s2 n = memcmp_u_loop m s1 s2 (unat n)"

text \<open>\<^verbatim>\<open>strcpy\<close> ends at the first NUL of its source, which the copy itself can overwrite.\<close>

partial_function (option) strcpy_loop :: "memory \<Rightarrow> u64 \<Rightarrow> u64 \<Rightarrow> memory option" where
  "strcpy_loop m s t =
     (let m' = m(s := m t) in if m t \<noteq> 0 then strcpy_loop m' (s + 1) (t + 1) else Some m')"

definition strcpy :: "memory \<Rightarrow> u64 \<Rightarrow> u64 \<Rightarrow> memory option" where
  "strcpy m s t = strcpy_loop m s t"

section \<open>Input\<close>

text \<open>The string that \<^verbatim>\<open>gets\<close> leaves in the buffer, the count of free bytes left as a parameter.\<close>

primrec gets_loop :: "'w kernel \<Rightarrow> nat \<Rightarrow> u8 list \<Rightarrow> 'w \<Rightarrow> (u8 list, 'w) uout" where
  "gets_loop K 0 buf w = ureturn buf w"
| "gets_loop K (Suc k) buf w =
     ubind (usys K (Read 0 1) w) (\<lambda>(cc, bs) w.
       if cc < 1 then ureturn buf w
       else let c = byte bs; buf = buf @ [c] in
         if c = 10 \<or> c = 13 then ureturn buf w else gets_loop K k buf w)"

definition gets :: "'w kernel \<Rightarrow> int \<Rightarrow> 'w \<Rightarrow> (u8 list, 'w) uout" where
  "gets K mx w = gets_loop K (nat (mx - 1)) [] w"

definition stat_u :: "'w kernel \<Rightarrow> u8 list \<Rightarrow> 'w \<Rightarrow> (reply, 'w) uout" where
  "stat_u K n w =
     ubind (ucall K (Open n O_RDONLY) w) (\<lambda>fd w.
       if fd < 0 then ureturn (-1, []) w
       else ubind (usys K (Fstat fd) w) (\<lambda>(r, st) w.
         ubind (ucall K (Close fd) w) (\<lambda>_ w. ureturn (r, st) w)))"

section \<open>Formatted output\<close>

definition putc :: "'w kernel \<Rightarrow> int \<Rightarrow> u8 \<Rightarrow> 'w \<Rightarrow> (unit, 'w) uout" where
  "putc K fd c w = ubind (ucall K (Write fd [c]) w) (\<lambda>_ w. ureturn () w)"

primrec puts :: "'w kernel \<Rightarrow> int \<Rightarrow> u8 list \<Rightarrow> 'w \<Rightarrow> (unit, 'w) uout" where
  "puts K fd [] w = ureturn () w"
| "puts K fd (c # cs) w = ubind (putc K fd c w) (\<lambda>_ w. puts K fd cs w)"

definition digits :: "nat \<Rightarrow> u8" where
  "digits d = of_nat (if d < 10 then 48 + d else 55 + d)"

text \<open>The contents of \<^verbatim>\<open>buf\<close> in the order of its indices; the \<^verbatim>\<open>do\<close> loop is that of \<^verbatim>\<open>printkint\<close> in the kernel.\<close>

definition printint_buf :: "u32 \<Rightarrow> nat \<Rightarrow> bool \<Rightarrow> u8 list" where
  "printint_buf xx base sg =
     (let neg = (sg \<and> sint xx < 0);
          x = (if neg then - xx else xx)
      in map digits (digits_loop base (unat x)) @ (if neg then [45] else []))"

definition printint :: "'w kernel \<Rightarrow> int \<Rightarrow> u32 \<Rightarrow> nat \<Rightarrow> bool \<Rightarrow> 'w \<Rightarrow> (unit, 'w) uout" where
  "printint K fd xx base sg w = puts K fd (rev (printint_buf xx base sg)) w"

primrec printptr_loop :: "nat \<Rightarrow> u64 \<Rightarrow> u8 list" where
  "printptr_loop 0 x = []"
| "printptr_loop (Suc i) x = digits (unat (drop_bit 60 x)) # printptr_loop i (push_bit 4 x)"

definition printptr :: "'w kernel \<Rightarrow> int \<Rightarrow> u64 \<Rightarrow> 'w \<Rightarrow> (unit, 'w) uout" where
  "printptr K fd x w = puts K fd ([48, 120] @ printptr_loop 16 x) w"

text \<open>
  A variadic argument is a register, holding a number or the address of a string (\<open>None\<close> for the null
  pointer). A format that asks for something else than the caller passed has no defined meaning, and the value \<open>None\<close> here.
\<close>

datatype uarg = Num u64 | Str "u8 list option"

fun vprintf_loop :: "'w kernel \<Rightarrow> int \<Rightarrow> bool \<Rightarrow> string \<Rightarrow> uarg list \<Rightarrow> 'w \<Rightarrow> (unit, 'w) uout" where
  "vprintf_loop K fd state [] ap w = ureturn () w"
| "vprintf_loop K fd False (c # fmt) ap w =
     (if c = CHR ''%'' then vprintf_loop K fd True fmt ap w
      else ubind (putc K fd (of_char c) w) (\<lambda>_ w. vprintf_loop K fd False fmt ap w))"
| "vprintf_loop K fd True (c # fmt) ap w =
     (if c = CHR ''d'' then
        (case ap of Num n # ap \<Rightarrow> ubind (printint K fd (ucast n) 10 True w) (\<lambda>_ w. vprintf_loop K fd False fmt ap w) | _ \<Rightarrow> None)
      else if c = CHR ''l'' then
        (case ap of Num n # ap \<Rightarrow> ubind (printint K fd (ucast n) 10 False w) (\<lambda>_ w. vprintf_loop K fd False fmt ap w) | _ \<Rightarrow> None)
      else if c = CHR ''x'' then
        (case ap of Num n # ap \<Rightarrow> ubind (printint K fd (ucast n) 16 False w) (\<lambda>_ w. vprintf_loop K fd False fmt ap w) | _ \<Rightarrow> None)
      else if c = CHR ''p'' then
        (case ap of Num n # ap \<Rightarrow> ubind (printptr K fd n w) (\<lambda>_ w. vprintf_loop K fd False fmt ap w) | _ \<Rightarrow> None)
      else if c = CHR ''s'' then
        (case ap of Str s # ap \<Rightarrow>
           ubind (puts K fd (case s of None \<Rightarrow> cbytes ''(null)'' | Some s \<Rightarrow> ustr s) w) (\<lambda>_ w. vprintf_loop K fd False fmt ap w)
         | _ \<Rightarrow> None)
      else if c = CHR ''c'' then
        (case ap of Num n # ap \<Rightarrow> ubind (putc K fd (ucast n) w) (\<lambda>_ w. vprintf_loop K fd False fmt ap w) | _ \<Rightarrow> None)
      else if c = CHR ''%'' then ubind (putc K fd 37 w) (\<lambda>_ w. vprintf_loop K fd False fmt ap w)
      else ubind (putc K fd 37 w) (\<lambda>_ w. ubind (putc K fd (of_char c) w) (\<lambda>_ w. vprintf_loop K fd False fmt ap w)))"

definition vprintf :: "'w kernel \<Rightarrow> int \<Rightarrow> string \<Rightarrow> uarg list \<Rightarrow> 'w \<Rightarrow> (unit, 'w) uout" where
  "vprintf K fd fmt ap w = vprintf_loop K fd False fmt ap w"

definition fprintf :: "'w kernel \<Rightarrow> int \<Rightarrow> string \<Rightarrow> uarg list \<Rightarrow> 'w \<Rightarrow> (unit, 'w) uout" where
  "fprintf K fd fmt ap w = vprintf K fd fmt ap w"

definition printf :: "'w kernel \<Rightarrow> string \<Rightarrow> uarg list \<Rightarrow> 'w \<Rightarrow> (unit, 'w) uout" where
  "printf K fmt ap w = vprintf K 1 fmt ap w"

end
