(* ===== verification/UlibFacts.thy ===== *)
theory UlibFacts
  imports Ulib
begin

text \<open>
  Facts on the user library: \<^verbatim>\<open>memmove\<close> of the library and of the kernel copy as if through a
  temporary buffer, decimal output and \<^verbatim>\<open>atoi\<close> are inverse, the buffer of \<^verbatim>\<open>printint\<close> is large enough, and
  \<^verbatim>\<open>strcmp\<close> decides equality.
\<close>

section \<open>Strings\<close>

lemma strlen_u_eq: "strlen_u s = of_nat (length (ustr s))"
  by (induction s) (simp_all add: ustr_def)

lemma ustr_Nil_iff: "ustr s = [] \<longleftrightarrow> byte s = 0" "[] = ustr s \<longleftrightarrow> byte s = 0"
  by (cases s; auto simp: ustr_def)+

lemma ustr_Nil [simp]: "ustr [] = []"
  by (simp add: ustr_def)

lemma ustr_Cons: "ustr (c # s) = (if c = 0 then [] else c # ustr s)"
  by (simp add: ustr_def)

lemma strcmp_eq_0: "strcmp p q = 0 \<longleftrightarrow> ustr p = ustr q"
proof (induction p q rule: strcmp.induct)
  case (1 p ps q qs)
  then show ?case by (auto simp: ustr_Cons word_uint_eq_iff)
qed (simp_all add: ustr_Nil_iff word_uint_eq_iff)

lemma strchr_eq:
  "strchr s c = (if c \<in> set (ustr s) then Some (length (takeWhile (\<lambda>b. b \<noteq> c) (ustr s))) else None)"
  by (induction s c rule: strchr.induct) (auto simp: ustr_def)

section \<open>Copying\<close>

lemma copy_down_same: "copy_down m d d n = m"
  by (induction n arbitrary: d) simp_all

lemma store_load_same: "n < 2 ^ 64 \<Longrightarrow> store_bytes m d (load_bytes m d n) = m"
  by (auto simp: store_bytes_def load_bytes_def fun_eq_iff)

lemma memmove_u_eq:
  assumes "unat src + n < 2 ^ 64" "unat dst + n < 2 ^ 64"
  shows "memmove_u m dst src (int n) = store_bytes m dst (load_bytes m src n)"
proof -
  have s: "unat (src + of_nat n) = unat src + n" using assms(1) by (rule unat_add_of_nat)
  have d: "unat (dst + of_nat n) = unat dst + n" using assms(2) by (rule unat_add_of_nat)
  consider "dst < src" | "src < dst" | "src = dst" by (meson linorder_less_linear)
  then show ?thesis
  proof cases
    case 1
    then show ?thesis using assms copy_up_eq[of dst n src m] by (simp add: memmove_u_def order_less_imp_le)
  next
    case 2
    then have "copy_down m (dst + of_nat n) (src + of_nat n) n = store_bytes m dst (load_bytes m src n)"
      using copy_down_eq[of n "dst + of_nat n" "src + of_nat n" m] s d by (simp add: word_less_nat_alt)
    with 2 show ?thesis by (auto simp: memmove_u_def)
  next
    case 3
    then show ?thesis using assms by (simp add: memmove_u_def copy_down_same store_load_same)
  qed
qed

lemma sint_nonneg: "unat (n :: u32) < 2 ^ 31 \<Longrightarrow> sint n = int (unat n)"
proof -
  assume a: "unat n < 2 ^ 31"
  have "sint (of_int (int (unat n)) :: u32) = int (unat n)"
    unfolding sint_sbintrunc' using a by (intro signed_take_bit_int_eq_self) (simp_all del: of_nat_unat)
  then show ?thesis by simp
qed

text \<open>
  C0: \<^verbatim>\<open>memmove\<close> of the kernel and \<^verbatim>\<open>memmove\<close> of the user library, which choose the direction of the
  copy by different tests, have the same effect for overlapping ranges too: the bytes that the source range held before
  the call are in the destination range, and no other byte changes. The ranges do not run past the end of the address
  space and the count is not negative as an \<^verbatim>\<open>int\<close>.
\<close>

theorem memmove_snapshot:
  assumes "unat src + unat n < 2 ^ 64" "unat dst + unat n < 2 ^ 64" "unat n < 2 ^ 31"
  shows "memmove m dst src n = store_bytes m dst (load_bytes m src (unat n)) \<and>
    memmove_u m dst src (sint n) = store_bytes m dst (load_bytes m src (unat n))"
  using memmove_eq[OF assms(1,2)] memmove_u_eq[OF assms(1,2)] by (simp only: sint_nonneg[OF assms(3)])

theorem memmove_snapshot_witness:
  "memmove (\<lambda>a. ucast a) 100 98 5 = store_bytes (\<lambda>a. ucast a) 100 (load_bytes (\<lambda>a. ucast a) 98 5) \<and>
   memmove_u (\<lambda>a. ucast a) 100 98 5 = store_bytes (\<lambda>a. ucast a) 100 (load_bytes (\<lambda>a. ucast a) 98 5)"
  using memmove_snapshot[of 98 5 100 "\<lambda>a. ucast a"] by simp

section \<open>Decimal output and input\<close>

lemma digits_range: "d < 10 \<Longrightarrow> 48 \<le> digits d \<and> digits d \<le> 57 \<and> (ucast (digits d) :: u32) = of_nat d + 48"
proof -
  assume "d < 10"
  then have "d = 0 \<or> d = 1 \<or> d = 2 \<or> d = 3 \<or> d = 4 \<or> d = 5 \<or> d = 6 \<or> d = 7 \<or> d = 8 \<or> d = 9" by arith
  then show ?thesis by (elim disjE) (simp_all add: digits_def)
qed

lemma atoi_digit: "d < 10 \<Longrightarrow> atoi_loop n (digits d # s) = atoi_loop (n * 10 + of_nat d) s"
  using digits_range[of d] by simp

lemma atoi_append:
  "list_all (\<lambda>d. d < 10) ds \<Longrightarrow> atoi_loop n (map digits ds @ s) = atoi_loop (atoi_loop n (map digits ds)) s"
  by (induction ds arbitrary: n) (simp_all add: atoi_digit del: atoi_loop.simps(2))

lemma digits_loop_less: "list_all (\<lambda>d. d < 10) (digits_loop 10 x)"
  by (induction "10 :: nat" x rule: digits_loop.induct) (subst digits_loop.simps, auto)

lemma atoi_digits_loop:
  "atoi_loop 0 (map digits (rev (digits_loop 10 x)) @ s) = atoi_loop (of_nat x) s"
proof (induction "10 :: nat" x arbitrary: s rule: digits_loop.induct)
  case (1 x)
  show ?case
  proof (cases "x div 10 = 0")
    case True
    then show ?thesis by (subst digits_loop.simps) (auto simp: atoi_digit simp del: atoi_loop.simps(2))
  next
    case False
    have "of_nat (x div 10) * 10 + of_nat (x mod 10) = (of_nat x :: u32)"
      by (metis div_mult_mod_eq of_nat_add of_nat_mult of_nat_numeral)
    with False 1 show ?thesis
      by (subst digits_loop.simps) (auto simp: atoi_digit simp del: atoi_loop.simps(2))
  qed
qed

lemma digits_loop_length:
  assumes "1 < base" "x < base ^ k" "0 < k"
  shows "length (digits_loop base x) \<le> k"
  using assms
proof (induction base x arbitrary: k rule: digits_loop.induct)
  case (1 base x)
  show ?case
  proof (cases "x div base = 0")
    case True
    then show ?thesis using 1 by (subst digits_loop.simps) auto
  next
    case False
    obtain j where k: "k = Suc j" using "1.prems" by (cases k) auto
    have j: "0 < j" using "1.prems" False k by (cases j) auto
    have "x div base < base ^ j" using "1.prems" k by (simp add: div_less_iff_less_mult mult.commute[of _ base])
    with 1 False k j show ?thesis by (subst digits_loop.simps) auto
  qed
qed

text \<open>
  C0: what \<^verbatim>\<open>printf\<close> prints for \<^verbatim>\<open>%d\<close> \<^verbatim>\<open>atoi\<close> reads back: for a nonnegative \<^verbatim>\<open>int\<close> followed by
  anything that does not begin with a digit, \<^verbatim>\<open>atoi\<close> returns the number.
\<close>

theorem atoi_printint:
  assumes "0 \<le> sint xx" "\<not> (48 \<le> byte rest \<and> byte rest \<le> 57)"
  shows "atoi (rev (printint_buf xx 10 True) @ rest) = sint xx"
proof -
  have "atoi_loop n rest = n" for n using assms(2) by (cases rest) auto
  then have "atoi_loop 0 (rev (map digits (digits_loop 10 (unat xx))) @ rest) = xx"
    using atoi_digits_loop[of "unat xx" rest] by (simp add: rev_map)
  then show ?thesis using assms(1) by (simp add: atoi_def printint_buf_def)
qed

theorem atoi_printint_witness: "atoi (rev (printint_buf 4096 10 True) @ [10]) = 4096"
  using atoi_printint[of 4096 "[10]"] by simp

text \<open>
  C0: \<^verbatim>\<open>printint\<close> never writes past its buffer of 16 bytes, for any number and for both bases it is
  called with: at most ten digits and a sign.
\<close>

theorem printint_buf_fits:
  assumes "base = 10 \<or> base = 16"
  shows "length (printint_buf xx base sg) \<le> 11"
proof -
  have "length (digits_loop base (unat x)) \<le> 10" for x :: u32
  proof -
    have "unat x < 2 ^ 32" using unsigned_less[of x, where 'a = nat] by simp
    also have "\<dots> \<le> base ^ 10" using assms by auto
    finally show ?thesis using assms by (intro digits_loop_length) auto
  qed
  from this[of xx] this[of "- xx"] show ?thesis by (simp add: printint_buf_def Let_def)
qed

theorem printint_buf_fits_witness: "length (printint_buf (- 2147483648) 10 True) \<le> 11"
  using printint_buf_fits[of 10 "- 2147483648" True] by simp

section \<open>Formatting\<close>

lemma ucast_32_64_32 [simp]: "(ucast (ucast (x :: u32) :: u64) :: u32) = x"
  by (simp add: word_unat_eq_iff unsigned_ucast_eq take_bit_word_eq_self)

definition decimal :: "u32 \<Rightarrow> u8 list" where
  "decimal n = rev (printint_buf n 10 True)"

text \<open>The bytes of one directive and the arguments left, and the bytes of a whole format.\<close>

definition directive :: "char \<Rightarrow> uarg list \<Rightarrow> (u8 list \<times> uarg list) option" where
  "directive c ap =
     (if c \<in> {CHR ''d'', CHR ''l'', CHR ''x'', CHR ''p'', CHR ''c''} then
        (case ap of
           Num n # ap \<Rightarrow> Some (
             if c = CHR ''d'' then decimal (ucast n)
             else if c = CHR ''l'' then rev (printint_buf (ucast n) 10 False)
             else if c = CHR ''x'' then rev (printint_buf (ucast n) 16 False)
             else if c = CHR ''p'' then [48, 120] @ printptr_loop 16 n
             else [ucast n], ap)
         | _ \<Rightarrow> None)
      else if c = CHR ''s'' then
        (case ap of Str s # ap \<Rightarrow> Some (case s of None \<Rightarrow> cbytes ''(null)'' | Some s \<Rightarrow> ustr s, ap) | _ \<Rightarrow> None)
      else if c = CHR ''%'' then Some ([37], ap)
      else Some ([37, of_char c], ap))"

fun formatted :: "bool \<Rightarrow> string \<Rightarrow> uarg list \<Rightarrow> u8 list option" where
  "formatted state [] ap = Some []"
| "formatted False (c # fmt) ap =
     (if c = CHR ''%'' then formatted True fmt ap else map_option (\<lambda>bs. of_char c # bs) (formatted False fmt ap))"
| "formatted True (c # fmt) ap =
     (case directive c ap of None \<Rightarrow> None | Some (bs, ap) \<Rightarrow> map_option (\<lambda>cs. bs @ cs) (formatted False fmt ap))"

lemma ubind_unit: "ubind m (\<lambda>_ w. Some (Ret (), w)) = m"
  using ubind_ret[of m] by simp

lemma putc_puts: "putc K fd c w = puts K fd [c] w"
  by (simp add: ubind_unit)

lemma puts_append: "ubind (puts K fd as w) (\<lambda>_. puts K fd bs) = puts K fd (as @ bs) w"
  by (induction as arbitrary: w) (simp_all add: ubind_assoc)

lemma vprintf_directive:
  assumes "directive c ap = Some (bs, ap')"
  shows "vprintf_loop K fd True (c # fmt) ap w = ubind (puts K fd bs w) (\<lambda>_ w. vprintf_loop K fd False fmt ap' w)"
  using assms
  by (auto simp: directive_def printint_def printptr_def decimal_def putc_puts puts_append ubind_assoc[symmetric]
      simp del: puts.simps split: if_splits list.splits uarg.splits)

lemma vprintf_formatted:
  "formatted state fmt ap = Some bs \<Longrightarrow> vprintf_loop K fd state fmt ap w = puts K fd bs w"
proof (induction state fmt ap arbitrary: bs w rule: formatted.induct)
  case (2 c fmt ap)
  have "vprintf_loop K fd False fmt ap = puts K fd cs" if "c \<noteq> CHR ''%''" "formatted False fmt ap = Some cs" for cs
    using 2(2)[OF that] by (auto simp: fun_eq_iff)
  with 2 show ?case by (cases "formatted False fmt ap") (auto split: if_splits)
next
  case (3 c fmt ap)
  then obtain b ap' cs where *: "directive c ap = Some (b, ap')" "formatted False fmt ap' = Some cs" "bs = b @ cs"
    by (auto split: option.splits prod.splits)
  then have "vprintf_loop K fd False fmt ap' = puts K fd cs" using 3 by (auto simp: fun_eq_iff)
  with * show ?case by (simp add: vprintf_directive puts_append del: vprintf_loop.simps)
qed simp

end
