(* ===== verification/Programs.thy ===== *)
theory Programs
  imports Ulib
begin

text \<open>
  The small user programs: \<^verbatim>\<open>cat.c\<close>, \<^verbatim>\<open>echo.c\<close>, \<^verbatim>\<open>wc.c\<close>, \<^verbatim>\<open>kill.c\<close>, \<^verbatim>\<open>ln.c\<close>, \<^verbatim>\<open>mkdir.c\<close>, \<^verbatim>\<open>rm.c\<close>, \<^verbatim>\<open>ls.c\<close>,
  \<^verbatim>\<open>zombie.c\<close>, \<^verbatim>\<open>init.c\<close>, \<^verbatim>\<open>forktest.c\<close> and \<^verbatim>\<open>stressfs.c\<close>. The argument vector is the list of its strings. A program
  that forks is modelled as each of the two processes sees it: the reply to \<open>Fork\<close> decides which of the
  two continues. What a read leaves in a buffer are the first \<open>n\<close> bytes of the reply.
\<close>

section \<open>cat\<close>

partial_function (option) cat :: "'w kernel \<Rightarrow> int \<Rightarrow> 'w \<Rightarrow> (unit, 'w) uout" where
  "cat K fd w =
     ubind (usys K (Read fd 512) w) (\<lambda>(n, bs) w.
       if n > 0 then
         ubind (ucall K (Write 1 (take (nat n) bs)) w) (\<lambda>r w.
           if r \<noteq> n then ubind (fprintf K 2 ''cat: write error\<newline>'' [] w) (\<lambda>_ w. uexit 1 w)
           else cat K fd w)
       else if n < 0 then ubind (fprintf K 2 ''cat: read error\<newline>'' [] w) (\<lambda>_ w. uexit 1 w)
       else ureturn () w)"

primrec cat_files :: "'w kernel \<Rightarrow> u8 list list \<Rightarrow> 'w \<Rightarrow> (unit, 'w) uout" where
  "cat_files K [] w = uexit 0 w"
| "cat_files K (a # args) w =
     ubind (ucall K (Open a 0) w) (\<lambda>fd w.
       if fd < 0 then ubind (fprintf K 2 ''cat: cannot open %s\<newline>'' [Str (Some a)] w) (\<lambda>_ w. uexit 1 w)
       else ubind (cat K fd w) (\<lambda>_ w. ubind (ucall K (Close fd) w) (\<lambda>_ w. cat_files K args w)))"

definition cat_main :: "'w kernel \<Rightarrow> u8 list list \<Rightarrow> 'w \<Rightarrow> (unit, 'w) uout" where
  "cat_main K argv w =
     (if length argv \<le> 1 then ubind (cat K 0 w) (\<lambda>_ w. uexit 0 w) else cat_files K (tl argv) w)"

section \<open>echo\<close>

fun echo_args :: "'w kernel \<Rightarrow> u8 list list \<Rightarrow> 'w \<Rightarrow> (unit, 'w) uout" where
  "echo_args K [] w = uexit 0 w"
| "echo_args K (a # args) w =
     ubind (ucall K (Write 1 (take (unat (strlen_u a)) a)) w) (\<lambda>_ w.
     ubind (ucall K (Write 1 (if args \<noteq> [] then cbytes '' '' else [10])) w) (\<lambda>_ w. echo_args K args w))"

definition echo_main :: "'w kernel \<Rightarrow> u8 list list \<Rightarrow> 'w \<Rightarrow> (unit, 'w) uout" where
  "echo_main K argv w = echo_args K (tl argv) w"

section \<open>wc\<close>

record counts =
  lines :: u32
  words :: u32
  chars :: u32
  inword :: bool

definition wc_char :: "u8 \<Rightarrow> counts \<Rightarrow> counts" where
  "wc_char b k =
     (let k = k\<lparr>chars := chars k + 1\<rparr>;
          k = (if b = 10 then k\<lparr>lines := lines k + 1\<rparr> else k)
      in if strchr [32, 13, 9, 10, 11] b \<noteq> None then k\<lparr>inword := False\<rparr>
         else if \<not> inword k then k\<lparr>words := words k + 1, inword := True\<rparr>
         else k)"

partial_function (option) wc_loop :: "'w kernel \<Rightarrow> int \<Rightarrow> counts \<Rightarrow> 'w \<Rightarrow> (int \<times> counts, 'w) uout" where
  "wc_loop K fd k w =
     ubind (usys K (Read fd 512) w) (\<lambda>(n, bs) w.
       if n > 0 then wc_loop K fd (fold wc_char (take (nat n) bs) k) w else ureturn (n, k) w)"

definition wc :: "'w kernel \<Rightarrow> int \<Rightarrow> u8 list \<Rightarrow> 'w \<Rightarrow> (unit, 'w) uout" where
  "wc K fd name w =
     ubind (wc_loop K fd \<lparr>lines = 0, words = 0, chars = 0, inword = False\<rparr> w) (\<lambda>(n, k) w.
       if n < 0 then ubind (printf K ''wc: read error\<newline>'' [] w) (\<lambda>_ w. uexit 1 w)
       else printf K ''%d %d %d %s\<newline>'' [Num (ucast (lines k)), Num (ucast (words k)), Num (ucast (chars k)), Str (Some name)] w)"

primrec wc_files :: "'w kernel \<Rightarrow> u8 list list \<Rightarrow> 'w \<Rightarrow> (unit, 'w) uout" where
  "wc_files K [] w = uexit 0 w"
| "wc_files K (a # args) w =
     ubind (ucall K (Open a 0) w) (\<lambda>fd w.
       if fd < 0 then ubind (printf K ''wc: cannot open %s\<newline>'' [Str (Some a)] w) (\<lambda>_ w. uexit 1 w)
       else ubind (wc K fd a w) (\<lambda>_ w. ubind (ucall K (Close fd) w) (\<lambda>_ w. wc_files K args w)))"

definition wc_main :: "'w kernel \<Rightarrow> u8 list list \<Rightarrow> 'w \<Rightarrow> (unit, 'w) uout" where
  "wc_main K argv w =
     (if length argv \<le> 1 then ubind (wc K 0 [] w) (\<lambda>_ w. uexit 0 w) else wc_files K (tl argv) w)"

section \<open>kill, ln, mkdir, rm, zombie\<close>

primrec kill_pids :: "'w kernel \<Rightarrow> u8 list list \<Rightarrow> 'w \<Rightarrow> (unit, 'w) uout" where
  "kill_pids K [] w = uexit 0 w"
| "kill_pids K (a # args) w = ubind (ucall K (Kill (atoi a)) w) (\<lambda>_ w. kill_pids K args w)"

definition kill_main :: "'w kernel \<Rightarrow> u8 list list \<Rightarrow> 'w \<Rightarrow> (unit, 'w) uout" where
  "kill_main K argv w =
     (if length argv < 2 then ubind (fprintf K 2 ''usage: kill pid...\<newline>'' [] w) (\<lambda>_ w. uexit 1 w)
      else kill_pids K (tl argv) w)"

definition ln_main :: "'w kernel \<Rightarrow> u8 list list \<Rightarrow> 'w \<Rightarrow> (unit, 'w) uout" where
  "ln_main K argv w =
     (case argv of
        [_, old, new] \<Rightarrow>
          ubind (ucall K (Link old new) w) (\<lambda>r w.
            if r < 0 then ubind (fprintf K 2 ''link %s %s: failed\<newline>'' [Str (Some old), Str (Some new)] w) (\<lambda>_ w. uexit 0 w)
            else uexit 0 w)
      | _ \<Rightarrow> ubind (fprintf K 2 ''Usage: ln old new\<newline>'' [] w) (\<lambda>_ w. uexit 1 w))"

primrec mkdir_files :: "'w kernel \<Rightarrow> u8 list list \<Rightarrow> 'w \<Rightarrow> (unit, 'w) uout" where
  "mkdir_files K [] w = uexit 0 w"
| "mkdir_files K (a # args) w =
     ubind (ucall K (Mkdir a) w) (\<lambda>r w.
       if r < 0 then ubind (fprintf K 2 ''mkdir: %s failed to create\<newline>'' [Str (Some a)] w) (\<lambda>_ w. uexit 0 w)
       else mkdir_files K args w)"

definition mkdir_main :: "'w kernel \<Rightarrow> u8 list list \<Rightarrow> 'w \<Rightarrow> (unit, 'w) uout" where
  "mkdir_main K argv w =
     (if length argv < 2 then ubind (fprintf K 2 ''Usage: mkdir files...\<newline>'' [] w) (\<lambda>_ w. uexit 1 w)
      else mkdir_files K (tl argv) w)"

primrec rm_files :: "'w kernel \<Rightarrow> u8 list list \<Rightarrow> 'w \<Rightarrow> (unit, 'w) uout" where
  "rm_files K [] w = uexit 0 w"
| "rm_files K (a # args) w =
     ubind (ucall K (Unlink a) w) (\<lambda>r w.
       if r < 0 then ubind (fprintf K 2 ''rm: %s failed to delete\<newline>'' [Str (Some a)] w) (\<lambda>_ w. uexit 0 w)
       else rm_files K args w)"

definition rm_main :: "'w kernel \<Rightarrow> u8 list list \<Rightarrow> 'w \<Rightarrow> (unit, 'w) uout" where
  "rm_main K argv w =
     (if length argv < 2 then ubind (fprintf K 2 ''Usage: rm files...\<newline>'' [] w) (\<lambda>_ w. uexit 1 w)
      else rm_files K (tl argv) w)"

definition zombie_main :: "'w kernel \<Rightarrow> 'w \<Rightarrow> (unit, 'w) uout" where
  "zombie_main K w =
     ubind (ucall K Fork w) (\<lambda>r w.
       if r > 0 then ubind (ucall K (Sleep 5) w) (\<lambda>_ w. uexit 0 w) else uexit 0 w)"

section \<open>init\<close>

text \<open>The inner loop returns when the shell with the given process id has exited.\<close>

partial_function (option) init_wait :: "'w kernel \<Rightarrow> int \<Rightarrow> 'w \<Rightarrow> (unit, 'w) uout" where
  "init_wait K pid w =
     ubind (ucall K Wait w) (\<lambda>wpid w.
       if wpid = pid then ureturn () w
       else if wpid < 0 then ubind (printf K ''init: wait returned an error\<newline>'' [] w) (\<lambda>_ w. uexit 1 w)
       else init_wait K pid w)"

partial_function (option) init_loop :: "'w kernel \<Rightarrow> 'w \<Rightarrow> (unit, 'w) uout" where
  "init_loop K w =
     ubind (printf K ''init: starting sh\<newline>'' [] w) (\<lambda>_ w.
     ubind (ucall K Fork w) (\<lambda>pid w.
       if pid < 0 then ubind (printf K ''init: fork failed\<newline>'' [] w) (\<lambda>_ w. uexit 1 w)
       else if pid = 0 then
         ubind (uexec K (cbytes ''sh'') [cbytes ''sh''] w) (\<lambda>_ w.
         ubind (printf K ''init: exec sh failed\<newline>'' [] w) (\<lambda>_ w. uexit 1 w))
       else ubind (init_wait K pid w) (\<lambda>_ w. init_loop K w)))"

definition init_main :: "'w kernel \<Rightarrow> 'w \<Rightarrow> (unit, 'w) uout" where
  "init_main K w =
     ubind (ucall K (Open (cbytes ''console'') O_RDWR) w) (\<lambda>r w.
     ubind (if r < 0 then
              ubind (ucall K (Mknod (cbytes ''console'') (int CONSOLE) 0) w) (\<lambda>_ w.
              ubind (ucall K (Open (cbytes ''console'') O_RDWR) w) (\<lambda>_ w. ureturn () w))
            else ureturn () w) (\<lambda>_ w.
     ubind (ucall K (Dup 0) w) (\<lambda>_ w.
     ubind (ucall K (Dup 0) w) (\<lambda>_ w. init_loop K w))))"

section \<open>ls\<close>

text \<open>The index of the first byte after the last slash of the first \<open>i\<close> bytes.\<close>

primrec fmtname_start :: "u8 list \<Rightarrow> nat \<Rightarrow> nat" where
  "fmtname_start path 0 = 0"
| "fmtname_start path (Suc i) = (if path ! i \<noteq> 47 then fmtname_start path i else Suc i)"

definition fmtname :: "u8 list \<Rightarrow> u8 list" where
  "fmtname path =
     (let p = drop (fmtname_start path (length path)) path in
      if length p \<ge> DIRSIZ then p else p @ replicate (DIRSIZ - length p) 32)"

text \<open>The fields of \<^verbatim>\<open>struct stat\<close> that \<^verbatim>\<open>ls\<close> prints, at their offsets.\<close>

definition ls_args :: "u8 list \<Rightarrow> u8 list \<Rightarrow> uarg list" where
  "ls_args path st =
     [Str (Some (fmtname path)), Num (scast (get16 st 8)), Num (ucast (get32 st 4)), Num (word_of (take 8 (drop 16 st)))]"

partial_function (option) ls_entries :: "'w kernel \<Rightarrow> int \<Rightarrow> u8 list \<Rightarrow> 'w \<Rightarrow> (unit, 'w) uout" where
  "ls_entries K fd path w =
     ubind (usys K (Read fd (int DIRENT_SIZE)) w) (\<lambda>(n, de) w.
       if n \<noteq> int DIRENT_SIZE then ureturn () w
       else if de_inum de = 0 then ls_entries K fd path w
       else let buf = path @ [47] @ ustr (de_name de) in
         ubind (stat_u K buf w) (\<lambda>(r, st) w.
           ubind (if r < 0 then printf K ''ls: cannot stat %s\<newline>'' [Str (Some buf)] w
                  else printf K ''%s %d %d %d\<newline>'' (ls_args buf st) w) (\<lambda>_ w. ls_entries K fd path w)))"

definition ls :: "'w kernel \<Rightarrow> u8 list \<Rightarrow> 'w \<Rightarrow> (unit, 'w) uout" where
  "ls K path w =
     ubind (ucall K (Open path 0) w) (\<lambda>fd w.
       if fd < 0 then fprintf K 2 ''ls: cannot open %s\<newline>'' [Str (Some path)] w
       else ubind (usys K (Fstat fd) w) (\<lambda>(r, st) w.
         if r < 0 then
           ubind (fprintf K 2 ''ls: cannot stat %s\<newline>'' [Str (Some path)] w) (\<lambda>_ w.
           ubind (ucall K (Close fd) w) (\<lambda>_ w. ureturn () w))
         else
           ubind (if get16 st 8 = T_DEVICE \<or> get16 st 8 = T_FILE then printf K ''%s %d %d %l\<newline>'' (ls_args path st) w
                  else if get16 st 8 = T_DIR then
                    (if strlen_u path + 1 + of_nat DIRSIZ + 1 > 512 then printf K ''ls: path too long\<newline>'' [] w
                     else ls_entries K fd path w)
                  else ureturn () w) (\<lambda>_ w.
           ubind (ucall K (Close fd) w) (\<lambda>_ w. ureturn () w))))"

primrec ls_files :: "'w kernel \<Rightarrow> u8 list list \<Rightarrow> 'w \<Rightarrow> (unit, 'w) uout" where
  "ls_files K [] w = uexit 0 w"
| "ls_files K (a # args) w = ubind (ls K a w) (\<lambda>_ w. ls_files K args w)"

definition ls_main :: "'w kernel \<Rightarrow> u8 list list \<Rightarrow> 'w \<Rightarrow> (unit, 'w) uout" where
  "ls_main K argv w =
     (if length argv < 2 then ubind (ls K (cbytes ''.'') w) (\<lambda>_ w. uexit 0 w) else ls_files K (tl argv) w)"

section \<open>forktest and stressfs\<close>

definition N_forks :: nat where "N_forks = 1000"

definition print_str :: "'w kernel \<Rightarrow> string \<Rightarrow> 'w \<Rightarrow> (unit, 'w) uout" where
  "print_str K s w = ubind (ucall K (Write 1 (cbytes s)) w) (\<lambda>_ w. ureturn () w)"

text \<open>The number of children forked; a child exits.\<close>

primrec forktest_fork :: "'w kernel \<Rightarrow> nat \<Rightarrow> nat \<Rightarrow> 'w \<Rightarrow> (nat, 'w) uout" where
  "forktest_fork K 0 n w = ureturn n w"
| "forktest_fork K (Suc k) n w =
     ubind (ucall K Fork w) (\<lambda>pid w.
       if pid < 0 then ureturn n w else if pid = 0 then uexit 0 w else forktest_fork K k (Suc n) w)"

primrec forktest_wait :: "'w kernel \<Rightarrow> nat \<Rightarrow> 'w \<Rightarrow> (unit, 'w) uout" where
  "forktest_wait K 0 w = ureturn () w"
| "forktest_wait K (Suc n) w =
     ubind (ucall K Wait w) (\<lambda>r w.
       if r < 0 then ubind (print_str K ''wait stopped early\<newline>'' w) (\<lambda>_ w. uexit 1 w) else forktest_wait K n w)"

definition forktest :: "'w kernel \<Rightarrow> 'w \<Rightarrow> (unit, 'w) uout" where
  "forktest K w =
     ubind (print_str K ''fork test\<newline>'' w) (\<lambda>_ w.
     ubind (forktest_fork K N_forks 0 w) (\<lambda>n w.
       if n = N_forks then ubind (print_str K ''fork claimed to work N times!\<newline>'' w) (\<lambda>_ w. uexit 1 w)
       else ubind (forktest_wait K n w) (\<lambda>_ w.
         ubind (ucall K Wait w) (\<lambda>r w.
           if r \<noteq> -1 then ubind (print_str K ''wait got too many\<newline>'' w) (\<lambda>_ w. uexit 1 w)
           else print_str K ''fork test OK\<newline>'' w))))"

definition forktest_main :: "'w kernel \<Rightarrow> 'w \<Rightarrow> (unit, 'w) uout" where
  "forktest_main K w = ubind (forktest K w) (\<lambda>_ w. uexit 0 w)"

text \<open>The value of \<^verbatim>\<open>i\<close> after the loop: a parent leaves it, a child goes on.\<close>

primrec stressfs_fork :: "'w kernel \<Rightarrow> nat \<Rightarrow> nat \<Rightarrow> 'w \<Rightarrow> (nat, 'w) uout" where
  "stressfs_fork K 0 i w = ureturn i w"
| "stressfs_fork K (Suc k) i w =
     ubind (ucall K Fork w) (\<lambda>r w. if r > 0 then ureturn i w else stressfs_fork K k (Suc i) w)"

primrec repeat_call :: "'w kernel \<Rightarrow> request \<Rightarrow> nat \<Rightarrow> 'w \<Rightarrow> (unit, 'w) uout" where
  "repeat_call K r 0 w = ureturn () w"
| "repeat_call K r (Suc k) w = ubind (ucall K r w) (\<lambda>_ w. repeat_call K r k w)"

definition stressfs_main :: "'w kernel \<Rightarrow> 'w \<Rightarrow> (unit, 'w) uout" where
  "stressfs_main K w =
     ubind (printf K ''stressfs starting\<newline>'' [] w) (\<lambda>_ w.
     ubind (stressfs_fork K 4 0 w) (\<lambda>i w.
     ubind (printf K ''write %d\<newline>'' [Num (of_nat i)] w) (\<lambda>_ w.
     let path = (cbytes ''stressfs0'')[8 := cbytes ''stressfs0'' ! 8 + of_nat i] in
     ubind (ucall K (Open path (O_CREATE OR O_RDWR)) w) (\<lambda>fd w.
     ubind (repeat_call K (Write fd (replicate 512 97)) 20 w) (\<lambda>_ w.
     ubind (ucall K (Close fd) w) (\<lambda>_ w.
     ubind (printf K ''read\<newline>'' [] w) (\<lambda>_ w.
     ubind (ucall K (Open path O_RDONLY) w) (\<lambda>fd w.
     ubind (repeat_call K (Read fd 512) 20 w) (\<lambda>_ w.
     ubind (ucall K (Close fd) w) (\<lambda>_ w.
     ubind (ucall K Wait w) (\<lambda>_ w. uexit 0 w)))))))))))"

end
