(* ===== verification/Grep.thy ===== *)
theory Grep
  imports UlibFacts
begin

text \<open>
  \<^verbatim>\<open>user/grep.c\<close>: the matcher of Kernighan and Pike and the loop that reads lines. A pointer into the pattern or into the text is
  the list of the bytes from there on. The second part gives the patterns a meaning as languages and proves
  that the matcher decides them.
\<close>

section \<open>The matcher\<close>

function matchhere :: "u8 list \<Rightarrow> u8 list \<Rightarrow> bool" and matchstar :: "u8 \<Rightarrow> u8 list \<Rightarrow> u8 list \<Rightarrow> bool" where
  "matchhere re text =
     (if byte re = 0 then True
      else if byte (tl re) = 42 then matchstar (byte re) (tl (tl re)) text
      else if byte re = 36 \<and> byte (tl re) = 0 then byte text = 0
      else if byte text \<noteq> 0 \<and> (byte re = 46 \<or> byte re = byte text) then matchhere (tl re) (tl text)
      else False)"
| "matchstar c re text =
     (if matchhere re text then True
      else if byte text \<noteq> 0 \<and> (byte text = c \<or> c = 46) then matchstar c re (tl text)
      else False)"
  by pat_completeness auto
termination
proof (relation "measures [\<lambda>x. case x of Inl (re, text) \<Rightarrow> length re | Inr (c, re, text) \<Rightarrow> Suc (length re),
    \<lambda>x. case x of Inl (re, text) \<Rightarrow> length text | Inr (c, re, text) \<Rightarrow> length text]", goal_cases)
  case (2 re t)
  then obtain a b r where "re = a # b # r" by (cases re; cases "tl re") auto
  then show ?case by simp
next
  case (3 re t)
  then obtain a r where "re = a # r" by (cases re) auto
  then show ?case by simp
next
  case (5 c re t)
  then obtain a r where "t = a # r" by (cases t) auto
  then show ?case by simp
qed simp_all

declare matchhere.simps [simp del] matchstar.simps [simp del]

fun match_loop :: "u8 list \<Rightarrow> u8 list \<Rightarrow> bool" where
  "match_loop re [] = matchhere re []"
| "match_loop re (c # text) = (if matchhere re (c # text) then True else if c \<noteq> 0 then match_loop re text else False)"

definition match :: "u8 list \<Rightarrow> u8 list \<Rightarrow> bool" where
  "match re text = (if byte re = 94 then matchhere (tl re) text else match_loop re text)"

section \<open>The loop over the lines\<close>

text \<open>
  \<open>p\<close> are the bytes of the buffer from \<^verbatim>\<open>p\<close> to \<^verbatim>\<open>m\<close>, where the program has put a NUL; the result is what is left
  after the last newline.
\<close>

function grep_lines :: "'w kernel \<Rightarrow> u8 list \<Rightarrow> u8 list \<Rightarrow> 'w \<Rightarrow> (u8 list, 'w) uout" where
  "grep_lines K pattern p w =
     (case strchr p 10 of
        None \<Rightarrow> ureturn p w
      | Some q \<Rightarrow>
          ubind (if match pattern (take q p) then ucall K (Write 1 (take (Suc q) p)) w else ureturn 0 w) (\<lambda>_ w.
            grep_lines K pattern (drop (Suc q) p) w))"
  by pat_completeness auto
termination
proof (relation "measure (\<lambda>(K, pattern, p, w). length p)", goal_cases)
  case (2 K pattern p w q)
  then show ?case by (cases p) auto
qed simp

declare grep_lines.simps [simp del]

text \<open>The loop keeps \<open>length buf\<close> bytes of an unfinished line (\<^verbatim>\<open>m\<close>) at the start of its buffer of 1024 bytes.\<close>

partial_function (option) grep_loop :: "'w kernel \<Rightarrow> u8 list \<Rightarrow> int \<Rightarrow> u8 list \<Rightarrow> 'w \<Rightarrow> (unit, 'w) uout" where
  "grep_loop K pattern fd buf w =
     ubind (usys K (Read fd (1024 - int (length buf) - 1)) w) (\<lambda>(n, bs) w.
       if n > 0 then ubind (grep_lines K pattern (buf @ take (nat n) bs) w) (\<lambda>p w. grep_loop K pattern fd p w)
       else ureturn () w)"

definition grep :: "'w kernel \<Rightarrow> u8 list \<Rightarrow> int \<Rightarrow> 'w \<Rightarrow> (unit, 'w) uout" where
  "grep K pattern fd w = grep_loop K pattern fd [] w"

primrec grep_files :: "'w kernel \<Rightarrow> u8 list \<Rightarrow> u8 list list \<Rightarrow> 'w \<Rightarrow> (unit, 'w) uout" where
  "grep_files K pattern [] w = uexit 0 w"
| "grep_files K pattern (a # args) w =
     ubind (ucall K (Open a 0) w) (\<lambda>fd w.
       if fd < 0 then ubind (printf K ''grep: cannot open %s\<newline>'' [Str (Some a)] w) (\<lambda>_ w. uexit 1 w)
       else ubind (grep K pattern fd w) (\<lambda>_ w. ubind (ucall K (Close fd) w) (\<lambda>_ w. grep_files K pattern args w)))"

definition grep_main :: "'w kernel \<Rightarrow> u8 list list \<Rightarrow> 'w \<Rightarrow> (unit, 'w) uout" where
  "grep_main K argv w =
     (if length argv \<le> 1 then ubind (fprintf K 2 ''usage: grep pattern [file ...]\<newline>'' [] w) (\<lambda>_ w. uexit 1 w)
      else let pattern = argv ! 1 in
        if length argv \<le> 2 then ubind (grep K pattern 0 w) (\<lambda>_ w. uexit 0 w)
        else grep_files K pattern (drop 2 argv) w)"

section \<open>The meaning of patterns\<close>

datatype item = One u8 | Star u8

text \<open>A byte of the pattern matches itself, a dot every byte.\<close>

definition symb :: "u8 \<Rightarrow> u8 \<Rightarrow> bool" where
  "symb c b \<longleftrightarrow> c = 46 \<or> c = b"

fun items :: "u8 list \<Rightarrow> item list" where
  "items [] = []"
| "items [c] = (if c = 36 then [] else [One c])"
| "items (c # d # re) = (if d = 42 then Star c # items re else One c # items (d # re))"

text \<open>Whether a pattern ends with a dollar sign.\<close>

fun to_end :: "u8 list \<Rightarrow> bool" where
  "to_end [] = False"
| "to_end [c] = (c = 36)"
| "to_end (c # d # re) = (if d = 42 then to_end re else to_end (d # re))"

primrec lang :: "item list \<Rightarrow> u8 list set" where
  "lang [] = {[]}"
| "lang (i # xs) =
     (case i of
        One c \<Rightarrow> {b # u | b u. symb c b \<and> u \<in> lang xs}
      | Star c \<Rightarrow> {v @ u | v u. list_all (symb c) v \<and> u \<in> lang xs})"

text \<open>\<open>heads xs e text\<close>: a prefix of the text is in the language, the whole text if \<open>e\<close>.\<close>

definition heads :: "item list \<Rightarrow> bool \<Rightarrow> u8 list \<Rightarrow> bool" where
  "heads xs e text \<longleftrightarrow> (\<exists>u post. text = u @ post \<and> u \<in> lang xs \<and> (e \<longrightarrow> post = []))"

definition matches :: "u8 list \<Rightarrow> u8 list \<Rightarrow> bool" where
  "matches re text \<longleftrightarrow>
     (if byte re = 94 then heads (items (tl re)) (to_end (tl re)) text
      else \<exists>pre post. text = pre @ post \<and> heads (items re) (to_end re) post)"

lemma heads_Nil: "heads [] e text \<longleftrightarrow> (e \<longrightarrow> text = [])"
  by (auto simp: heads_def)

lemma heads_One: "heads (One c # xs) e text \<longleftrightarrow> (\<exists>b u. text = b # u \<and> symb c b \<and> heads xs e u)"
proof
  assume "heads (One c # xs) e text"
  then obtain b u post where *: "text = (b # u) @ post" "symb c b" "u \<in> lang xs" "e \<longrightarrow> post = []"
    unfolding heads_def lang.simps item.case by blast
  then have "heads xs e (u @ post)" unfolding heads_def by blast
  with * show "\<exists>b u. text = b # u \<and> symb c b \<and> heads xs e u" by auto
next
  assume "\<exists>b u. text = b # u \<and> symb c b \<and> heads xs e u"
  then obtain b u post where "text = (b # u) @ post" "symb c b" "u \<in> lang xs" "e \<longrightarrow> post = []"
    unfolding heads_def by auto
  then show "heads (One c # xs) e text"
    unfolding heads_def lang.simps item.case by blast
qed

lemma heads_Star: "heads (Star c # xs) e text \<longleftrightarrow> (\<exists>v u. text = v @ u \<and> list_all (symb c) v \<and> heads xs e u)"
proof
  assume "heads (Star c # xs) e text"
  then obtain v u post where *: "text = (v @ u) @ post" "list_all (symb c) v" "u \<in> lang xs" "e \<longrightarrow> post = []"
    unfolding heads_def lang.simps item.case by blast
  then have "heads xs e (u @ post)" unfolding heads_def by blast
  with * show "\<exists>v u. text = v @ u \<and> list_all (symb c) v \<and> heads xs e u" by auto
next
  assume "\<exists>v u. text = v @ u \<and> list_all (symb c) v \<and> heads xs e u"
  then obtain v u post where "text = (v @ u) @ post" "list_all (symb c) v" "u \<in> lang xs" "e \<longrightarrow> post = []"
    unfolding heads_def by auto
  then show "heads (Star c # xs) e text"
    unfolding heads_def lang.simps item.case by blast
qed

lemma heads_Star_rec:
  "heads (Star c # xs) e text \<longleftrightarrow> heads xs e text \<or> (\<exists>b u. text = b # u \<and> symb c b \<and> heads (Star c # xs) e u)"
proof
  assume "heads (Star c # xs) e text"
  then obtain v u where *: "text = v @ u" "list_all (symb c) v" "heads xs e u" by (auto simp: heads_Star)
  then show "heads xs e text \<or> (\<exists>b u. text = b # u \<and> symb c b \<and> heads (Star c # xs) e u)"
    unfolding heads_Star by (cases v) auto
next
  assume "heads xs e text \<or> (\<exists>b u. text = b # u \<and> symb c b \<and> heads (Star c # xs) e u)"
  then show "heads (Star c # xs) e text"
  proof
    assume "heads xs e text"
    then show ?thesis unfolding heads_Star by (intro exI[of _ "[]"] exI[of _ "text"]) simp
  next
    assume "\<exists>b u. text = b # u \<and> symb c b \<and> heads (Star c # xs) e u"
    then obtain b v u where "text = (b # v) @ u" "list_all (symb c) (b # v)" "heads xs e u" by (auto simp: heads_Star)
    then show ?thesis unfolding heads_Star by blast
  qed
qed

section \<open>The matcher decides the language\<close>

abbreviation cstring :: "u8 list \<Rightarrow> bool" where
  "cstring s \<equiv> 0 \<notin> set s"

lemma byte_0: "cstring s \<Longrightarrow> byte s = 0 \<longleftrightarrow> s = []"
  by (cases s) auto

lemma matchhere_single: "c \<noteq> 0 \<Longrightarrow> matchhere [c] t \<longleftrightarrow>
    (if c = 36 then byte t = 0 else byte t \<noteq> 0 \<and> (c = 46 \<or> c = byte t) \<and> matchhere [] (tl t))"
  by (subst matchhere.simps) auto

lemma matchhere_two: "c \<noteq> 0 \<Longrightarrow> d \<noteq> 0 \<Longrightarrow> matchhere (c # d # r) t \<longleftrightarrow>
    (if d = 42 then matchstar c r t else byte t \<noteq> 0 \<and> (c = 46 \<or> c = byte t) \<and> matchhere (d # r) (tl t))"
  by (subst matchhere.simps) auto

lemma match_decides:
  "cstring re \<Longrightarrow> cstring t \<Longrightarrow> matchhere re t \<longleftrightarrow> heads (items re) (to_end re) t"
  "cstring re \<Longrightarrow> cstring t \<Longrightarrow> matchstar c re t \<longleftrightarrow> heads (Star c # items re) (to_end re) t"
proof (induction re t and c re t rule: matchhere_matchstar.induct)
  case (1 re t)
  consider "re = []" | c where "re = [c]" | c d r where "re = c # d # r" by (cases re; cases "tl re") auto
  then show ?case
  proof cases
    case 1
    then show ?thesis by (simp add: matchhere.simps heads_Nil)
  next
    case (2 c)
    then show ?thesis using "1.IH" "1.prems"
      by (cases t) (auto simp: matchhere_single heads_Nil heads_One symb_def)
  next
    case (3 c d r)
    show ?thesis
    proof (cases "d = 42")
      case True
      then show ?thesis using 3 "1.IH"(1) "1.prems" by (auto simp: matchhere_two)
    next
      case False
      then show ?thesis using 3 "1.IH"(2) "1.prems"
        by (cases t) (auto simp: matchhere_two heads_One symb_def)
    qed
  qed
next
  case (2 c re t)
  show ?case
    unfolding matchstar.simps[of c re t] heads_Star_rec[of c "items re" _ t]
    using 2 by (cases t) (auto simp: symb_def)
qed

lemma match_loop_decides:
  "cstring re \<Longrightarrow> cstring t \<Longrightarrow> match_loop re t \<longleftrightarrow> (\<exists>pre post. t = pre @ post \<and> heads (items re) (to_end re) post)"
  by (induction re t rule: match_loop.induct) (auto simp: match_decides Cons_eq_append_conv)

text \<open>
  C0: \<^verbatim>\<open>match\<close> decides the language of its pattern: it accepts a line exactly if some part of the line is in the
  language that the pattern denotes (a letter for itself, a dot for any letter, a star for any number of repetitions), where
  a leading caret makes that part begin at the start of the line and a final dollar sign makes it end at the end of the line.
\<close>

theorem match_regex:
  assumes "cstring re" "cstring t"
  shows "match re t \<longleftrightarrow> matches re t"
proof -
  have "cstring (tl re)" using assms(1) by (cases re) auto
  then show ?thesis using assms by (simp add: match_def matches_def match_decides match_loop_decides)
qed

text \<open>Pattern \<^verbatim>\<open>^ab*.$\<close>.\<close>

theorem match_regex_witness:
  "matches [94, 97, 98, 42, 46, 36] [97, 98, 98, 99] \<and> \<not> matches [94, 97, 98, 42, 46, 36] [97, 98, 99, 99]"
  using match_regex[of "[94, 97, 98, 42, 46, 36]" "[97, 98, 98, 99]"] match_regex[of "[94, 97, 98, 42, 46, 36]" "[97, 98, 99, 99]"]
  by (simp add: match_def matchhere.simps matchstar.simps)

end
