(* ===== verification/ProgramFacts.thy ===== *)
theory ProgramFacts
  imports Programs Grep
begin

text \<open>
  What \<^verbatim>\<open>cat\<close>, \<^verbatim>\<open>wc\<close> and \<^verbatim>\<open>grep\<close> do with a file, for every way in which the kernel may cut the file into pieces.
\<close>

section \<open>Reading a file\<close>

text \<open>
  The documented behaviour of \<^verbatim>\<open>read\<close> on a file and \<^verbatim>\<open>write\<close> to the standard output: \<open>unread w\<close> are the bytes of the
  file that have not been read, \<open>out w\<close> the bytes written so far. A read returns some of the unread bytes, at least one unless there are
  none left, and a write writes everything.
\<close>

definition serves :: "'w kernel \<Rightarrow> int \<Rightarrow> ('w \<Rightarrow> u8 list) \<Rightarrow> ('w \<Rightarrow> u8 list) \<Rightarrow> bool" where
  "serves K fd unread out \<longleftrightarrow>
     (\<forall>w n. 0 < n \<longrightarrow> (\<exists>bs w'. K (Read fd n) w = ((int (length bs), bs), w') \<and> int (length bs) \<le> n \<and>
        (bs = [] \<longrightarrow> unread w = []) \<and> unread w = bs @ unread w' \<and> out w' = out w)) \<and>
     (\<forall>w bs. \<exists>x w'. K (Write 1 bs) w = ((int (length bs), x), w') \<and> unread w' = unread w \<and> out w' = out w @ bs)"

lemma serves_read:
  assumes "serves K fd unread out" "0 < n"
  obtains bs w' where "usys K (Read fd n) w = Some (Ret (int (length bs), bs), w')" "int (length bs) \<le> n"
    "bs = [] \<longrightarrow> unread w = []" "unread w = bs @ unread w'" "out w' = out w"
proof -
  obtain bs w' where "K (Read fd n) w = ((int (length bs), bs), w')" "int (length bs) \<le> n" "bs = [] \<longrightarrow> unread w = []"
    "unread w = bs @ unread w'" "out w' = out w" using assms unfolding serves_def by blast
  then show ?thesis by (intro that[of bs w']) (simp_all add: usys_def)
qed

lemma serves_write:
  assumes "serves K fd unread out"
  obtains w' where "ucall K (Write 1 bs) w = Some (Ret (int (length bs)), w')" "unread w' = unread w" "out w' = out w @ bs"
proof -
  obtain x w' where "K (Write 1 bs) w = ((int (length bs), x), w')" "unread w' = unread w" "out w' = out w @ bs"
    using assms unfolding serves_def by blast
  then show ?thesis by (intro that[of w']) (simp_all add: ucall_def usys_def)
qed

text \<open>A kernel whose state is the unread part of a file and the output, which returns at most \<open>k + 1\<close> bytes at once.\<close>

fun file_kernel :: "nat \<Rightarrow> (u8 list \<times> u8 list) kernel" where
  "file_kernel k (Read fd n) (inp, out) = (let bs = take (min (Suc k) (nat n)) inp in ((int (length bs), bs), (drop (length bs) inp, out)))"
| "file_kernel k (Write fd bs) (inp, out) = ((int (length bs), []), (inp, out @ bs))"
| "file_kernel k _ w = ((-1, []), w)"

lemma file_kernel_serves: "serves (file_kernel k) fd fst snd"
  unfolding serves_def by (auto simp: Let_def min_def)

section \<open>cat\<close>

text \<open>
  C0: \<^verbatim>\<open>cat\<close> ends and copies the whole rest of the file to the standard output, unchanged and in order, however the
  kernel cuts it into pieces.
\<close>

theorem cat_copies:
  assumes "serves K fd unread out"
  shows "\<exists>w'. cat K fd w = Some (Ret (), w') \<and> unread w' = [] \<and> out w' = out w @ unread w"
proof (induction "length (unread w)" arbitrary: w rule: less_induct)
  case less
  obtain bs w1 where r: "usys K (Read fd 512) w = Some (Ret (int (length bs), bs), w1)" "int (length bs) \<le> 512"
    "bs = [] \<longrightarrow> unread w = []" "unread w = bs @ unread w1" "out w1 = out w" using serves_read[OF assms] zero_less_numeral .
  show ?case
  proof (cases "bs = []")
    case True
    with r show ?thesis by (simp add: cat.simps[of K fd w])
  next
    case False
    obtain w2 where u: "ucall K (Write 1 bs) w1 = Some (Ret (int (length bs)), w2)" "unread w2 = unread w1" "out w2 = out w1 @ bs"
      using serves_write[OF assms] .
    have "length (unread w2) < length (unread w)" using r(4) u(2) False by simp
    from less[OF this] obtain w3 where "cat K fd w2 = Some (Ret (), w3)" "unread w3 = []" "out w3 = out w2 @ unread w2" by blast
    with r u False show ?thesis by (simp add: cat.simps[of K fd w])
  qed
qed

theorem cat_copies_witness:
  "\<exists>w'. cat (file_kernel 1) 3 ([104, 105, 33], []) = Some (Ret (), w') \<and> fst w' = [] \<and> snd w' = [104, 105, 33]"
  using cat_copies[OF file_kernel_serves, of 1 3 "([104, 105, 33], [])"] by simp

section \<open>wc\<close>

definition blank :: "u8 \<Rightarrow> bool" where
  "blank b \<longleftrightarrow> b \<in> {32, 13, 9, 10, 11}"

function split_words :: "u8 list \<Rightarrow> u8 list list" where
  "split_words [] = []"
| "split_words (b # bs) =
     (if blank b then split_words bs else (b # takeWhile (\<lambda>b. \<not> blank b) bs) # split_words (dropWhile (\<lambda>b. \<not> blank b) bs))"
  by pat_completeness auto
termination by (relation "measure length") (auto simp: less_Suc_eq_le length_dropWhile_le)

lemma strchr_blank: "strchr [32, 13, 9, 10, 11] b \<noteq> None \<longleftrightarrow> blank b"
  by (simp add: blank_def)

lemma wc_char_simps:
  "chars (wc_char b k) = chars k + 1"
  "lines (wc_char b k) = (if b = 10 then lines k + 1 else lines k)"
  "inword (wc_char b k) \<longleftrightarrow> \<not> blank b"
  "words (wc_char b k) = (if \<not> blank b \<and> \<not> inword k then words k + 1 else words k)"
  unfolding wc_char_def strchr_blank by (simp_all add: Let_def)

lemma fold_wc_char:
  "chars (fold wc_char bs k) = chars k + of_nat (length bs)"
  "lines (fold wc_char bs k) = lines k + of_nat (count_list bs 10)"
  "words (fold wc_char bs k) =
     words k + of_nat (length (split_words (if inword k then dropWhile (\<lambda>b. \<not> blank b) bs else bs)))"
  by (induction bs arbitrary: k) (auto simp: wc_char_simps)

lemma wc_loop_counts:
  assumes "serves K fd unread out"
  shows "\<exists>w'. wc_loop K fd k w = Some (Ret (0, fold wc_char (unread w) k), w') \<and> unread w' = [] \<and> out w' = out w"
proof (induction "length (unread w)" arbitrary: k w rule: less_induct)
  case less
  obtain bs w1 where r: "usys K (Read fd 512) w = Some (Ret (int (length bs), bs), w1)" "int (length bs) \<le> 512"
    "bs = [] \<longrightarrow> unread w = []" "unread w = bs @ unread w1" "out w1 = out w" using serves_read[OF assms] zero_less_numeral .
  show ?case
  proof (cases "bs = []")
    case True
    with r show ?thesis by (simp add: wc_loop.simps[of K fd k w])
  next
    case False
    have "length (unread w1) < length (unread w)" using r(4) False by simp
    from less[OF this, of "fold wc_char bs k"] r False show ?thesis by (auto simp: wc_loop.simps[of K fd k w])
  qed
qed

lemma puts_out:
  assumes "serves K fd unread out"
  shows "\<exists>w'. puts K 1 bs w = Some (Ret (), w') \<and> out w' = out w @ bs"
proof (induction bs arbitrary: w)
  case (Cons c bs)
  obtain w1 where "ucall K (Write 1 [c]) w = Some (Ret (int (length [c])), w1)" "out w1 = out w @ [c]"
    using serves_write[OF assms] by metis
  with Cons[of w1] show ?case by (auto simp: putc_def)
qed simp

text \<open>
  C0: \<^verbatim>\<open>wc\<close> ends and prints one line with the numbers of newlines, of words and of bytes of the file and its name.
  The numbers do not depend on how the kernel cuts the file into pieces, although the program keeps only one bit about the
  word in which a piece ends. They are exact as long as they fit an \<^verbatim>\<open>int\<close>.
\<close>

theorem wc_prints_counts:
  assumes "serves K fd unread out"
  shows "\<exists>w'. wc K fd name w = Some (Ret (), w') \<and>
    out w' = out w @ decimal (of_nat (count_list (unread w) 10)) @ [32] @ decimal (of_nat (length (split_words (unread w)))) @ [32] @
      decimal (of_nat (length (unread w))) @ [32] @ ustr name @ [10]"
proof -
  let ?k = "fold wc_char (unread w) \<lparr>lines = 0, words = 0, chars = 0, inword = False\<rparr>"
  obtain w1 where w1: "wc_loop K fd \<lparr>lines = 0, words = 0, chars = 0, inword = False\<rparr> w = Some (Ret (0, ?k), w1)" "out w1 = out w"
    using wc_loop_counts[OF assms] by blast
  have "printf K ''%d %d %d %s\<newline>'' [Num (ucast l), Num (ucast u), Num (ucast c), Str (Some name)] w1 =
      puts K 1 (decimal l @ [32] @ decimal u @ [32] @ decimal c @ [32] @ ustr name @ [10]) w1" for l u c :: u32
    unfolding printf_def vprintf_def by (rule vprintf_formatted) (simp add: directive_def)
  then have "wc K fd name w = puts K 1 (decimal (lines ?k) @ [32] @ decimal (words ?k) @ [32] @ decimal (chars ?k) @ [32] @ ustr name @ [10]) w1"
    by (simp add: wc_def w1 del: puts.simps)
  then show ?thesis
    using puts_out[OF assms] unfolding w1(2)[symmetric] by (simp add: fold_wc_char del: puts.simps)
qed

theorem wc_prints_counts_witness:
  "\<exists>w'. wc (file_kernel 1) 3 [102] ([104, 105, 32, 33, 10], []) = Some (Ret (), w') \<and>
    snd w' = decimal 1 @ [32] @ decimal 2 @ [32] @ decimal 5 @ [32, 102, 10]"
  using wc_prints_counts[OF file_kernel_serves, of 1 3 "[102]" "([104, 105, 32, 33, 10], [])"] by (simp add: blank_def ustr_def)

section \<open>grep\<close>

text \<open>\<open>nl_split cur bs\<close>: the lines that end in \<open>bs\<close>, the first of them beginning with \<open>cur\<close>, and what follows the last newline.\<close>

fun nl_split :: "u8 list \<Rightarrow> u8 list \<Rightarrow> u8 list list \<times> u8 list" where
  "nl_split cur [] = ([], cur)"
| "nl_split cur (b # bs) =
     (if b = 10 then (cur # fst (nl_split [] bs), snd (nl_split [] bs)) else nl_split (cur @ [b]) bs)"

definition text_lines :: "u8 list \<Rightarrow> u8 list list" where
  "text_lines bs = fst (nl_split [] bs)"

definition unfinished :: "u8 list \<Rightarrow> u8 list" where
  "unfinished bs = snd (nl_split [] bs)"

definition printed :: "u8 list \<Rightarrow> u8 list list \<Rightarrow> u8 list" where
  "printed pattern xs = concat (map (\<lambda>l. l @ [10]) (filter (match pattern) xs))"

lemma printed_simps [simp]:
  "printed pattern [] = []"
  "printed pattern (l # xs) = (if match pattern l then l @ [10] else []) @ printed pattern xs"
  "printed pattern (xs @ ys) = printed pattern xs @ printed pattern ys"
  by (simp_all add: printed_def)

lemma nl_split_append:
  "nl_split cur (xs @ ys) =
     (fst (nl_split cur xs) @ fst (nl_split (snd (nl_split cur xs)) ys), snd (nl_split (snd (nl_split cur xs)) ys))"
  by (induction cur xs rule: nl_split.induct) auto

lemma nl_split_none: "10 \<notin> set xs \<Longrightarrow> nl_split cur xs = ([], cur @ xs)"
  by (induction cur xs rule: nl_split.induct) auto

lemma nl_split_snd: "10 \<notin> set cur \<Longrightarrow> 10 \<notin> set (snd (nl_split cur xs)) \<and> set (snd (nl_split cur xs)) \<subseteq> set cur \<union> set xs"
  by (induction cur xs rule: nl_split.induct) auto

lemma nl_split_bound:
  "\<forall>l \<in> set (fst (nl_split cur xs)). length l \<le> k \<Longrightarrow> length (snd (nl_split cur xs)) \<le> k \<Longrightarrow> length cur \<le> k"
  by (induction cur xs rule: nl_split.induct) (auto split: if_splits)

lemma nl_split_strchr:
  assumes "strchr p 10 = Some q"
  shows "nl_split [] p = (take q p # text_lines (drop (Suc q) p), unfinished (drop (Suc q) p))"
proof -
  have "nl_split cur p = ((cur @ take q p) # text_lines (drop (Suc q) p), unfinished (drop (Suc q) p))" for cur
    using assms by (induction p arbitrary: q cur) (auto simp: text_lines_def unfinished_def split: if_splits)
  from this[of "[]"] show ?thesis by simp
qed

lemma ustr_cstring: "cstring p \<Longrightarrow> ustr p = p"
  unfolding ustr_def takeWhile_eq_all_conv by auto

lemma strchr_drop: "strchr p c = Some q \<Longrightarrow> q < length p \<and> p ! q = c"
  by (induction p arbitrary: q) (auto split: if_splits)

lemma grep_lines_prints:
  assumes "serves K fd unread out" "cstring p"
  shows "\<exists>w'. grep_lines K pattern p w = Some (Ret (unfinished p), w') \<and> unread w' = unread w \<and>
    out w' = out w @ printed pattern (text_lines p)"
  using assms(2)
proof (induction "length p" arbitrary: p w rule: less_induct)
  case less
  show ?case
  proof (cases "strchr p 10")
    case None
    then have "10 \<notin> set p" using less.prems by (simp add: strchr_eq ustr_cstring split: if_splits)
    with None show ?thesis by (simp add: grep_lines.simps[of K pattern p] nl_split_none text_lines_def unfinished_def)
  next
    case (Some q)
    note q = strchr_drop[OF Some]
    have rest: "length (drop (Suc q) p) < length p" "cstring (drop (Suc q) p)"
      using q less.prems by (auto dest: in_set_dropD)
    have l: "take (Suc q) p = take q p @ [10]" using q by (simp add: take_Suc_conv_app_nth)
    obtain w1 x where w1: "(if match pattern (take q p) then ucall K (Write 1 (take (Suc q) p)) w else ureturn 0 w) = Some (Ret x, w1)"
      "unread w1 = unread w" "out w1 = out w @ (if match pattern (take q p) then take q p @ [10] else [])"
    proof (cases "match pattern (take q p)")
      case True
      obtain w2 where "ucall K (Write 1 (take (Suc q) p)) w = Some (Ret (int (length (take (Suc q) p))), w2)"
        "unread w2 = unread w" "out w2 = out w @ take (Suc q) p" using serves_write[OF assms(1)] .
      with True l show ?thesis by (intro that[of _ w2]) auto
    qed (use that in simp)
    from less.hyps[OF rest, of w1] obtain w2 where "grep_lines K pattern (drop (Suc q) p) w1 = Some (Ret (unfinished (drop (Suc q) p)), w2)"
      "unread w2 = unread w1" "out w2 = out w1 @ printed pattern (text_lines (drop (Suc q) p))" by blast
    then show ?thesis
      by (simp add: grep_lines.simps[of K pattern p] Some w1 text_lines_def[of p] unfinished_def[of p] nl_split_strchr[OF Some] del: ureturn_def)
  qed
qed

lemma grep_loop_prints:
  assumes "serves K fd unread out" "10 \<notin> set buf" "cstring (buf @ unread w)"
    "\<forall>l \<in> set (fst (nl_split buf (unread w))). length l \<le> 1022" "length (snd (nl_split buf (unread w))) \<le> 1022"
  shows "\<exists>w'. grep_loop K pattern fd buf w = Some (Ret (), w') \<and>
    out w' = out w @ printed pattern (fst (nl_split buf (unread w)))"
  using assms(2-5)
proof (induction "length (unread w)" arbitrary: buf w rule: less_induct)
  case less
  have "length buf \<le> 1022" using nl_split_bound[OF less.prems(3,4)] .
  then have n: "0 < 1024 - int (length buf) - 1" by simp
  obtain bs w1 where r: "usys K (Read fd (1024 - int (length buf) - 1)) w = Some (Ret (int (length bs), bs), w1)"
    "int (length bs) \<le> 1024 - int (length buf) - 1" "bs = [] \<longrightarrow> unread w = []" "unread w = bs @ unread w1" "out w1 = out w"
    using serves_read[OF assms(1) n] .
  show ?case
  proof (cases "bs = []")
    case True
    with r show ?thesis by (simp add: grep_loop.simps[of K pattern fd buf w])
  next
    case False
    have c: "cstring (buf @ bs)" using less.prems(2) r(4) by auto
    have s: "nl_split [] (buf @ bs) = nl_split buf bs" using less.prems(1) by (simp add: nl_split_append nl_split_none)
    obtain w2 where w2: "grep_lines K pattern (buf @ bs) w1 = Some (Ret (snd (nl_split buf bs)), w2)" "unread w2 = unread w1"
      "out w2 = out w1 @ printed pattern (fst (nl_split buf bs))"
      using grep_lines_prints[OF assms(1) c, of pattern w1] unfolding text_lines_def unfinished_def s by blast
    let ?p = "snd (nl_split buf bs)"
    have sp: "nl_split buf (unread w) = (fst (nl_split buf bs) @ fst (nl_split ?p (unread w2)), snd (nl_split ?p (unread w2)))"
      unfolding r(4) w2(2) by (rule nl_split_append)
    have "length (unread w2) < length (unread w)" using r(4) w2(2) False by simp
    moreover have "10 \<notin> set ?p" using nl_split_snd[OF less.prems(1)] by simp
    moreover have "cstring (?p @ unread w2)"
      using nl_split_snd[OF less.prems(1), of bs] less.prems(2) r(4) w2(2) by auto
    ultimately obtain w3 where "grep_loop K pattern fd ?p w2 = Some (Ret (), w3)"
      "out w3 = out w2 @ printed pattern (fst (nl_split ?p (unread w2)))"
      using less.hyps[of w2 ?p] less.prems(3,4) unfolding sp by auto
    with r w2 False show ?thesis by (simp add: grep_loop.simps[of K pattern fd buf w] nl_split_append)
  qed
qed

text \<open>
  C0: \<^verbatim>\<open>grep\<close> ends and prints exactly the lines of the file that match the pattern, whole and in order, however the
  kernel cuts the file into pieces, provided that the file has no NUL byte and that no line is longer than 1022 bytes, what
  the buffer can hold with the newline. What follows the last newline is not looked at.
\<close>

theorem grep_prints_matching_lines:
  assumes "serves K fd unread out" "0 \<notin> set (unread w)" "\<forall>l \<in> set (text_lines (unread w)). length l \<le> 1022"
    "length (unfinished (unread w)) \<le> 1022"
  shows "\<exists>w'. grep K pattern fd w = Some (Ret (), w') \<and>
    out w' = out w @ concat (map (\<lambda>l. l @ [10]) (filter (match pattern) (text_lines (unread w))))"
  using grep_loop_prints[OF assms(1), of "[]" w pattern] assms(2-4)
  unfolding grep_def text_lines_def unfinished_def printed_def by simp

theorem grep_prints_matching_lines_witness:
  "\<exists>w'. grep (file_kernel 1) [97, 42, 98] 3 ([97, 98, 10, 99, 10, 98, 10, 98], []) = Some (Ret (), w') \<and> snd w' = [97, 98, 10, 98, 10]"
  using grep_prints_matching_lines[OF file_kernel_serves, of "([97, 98, 10, 99, 10, 98, 10, 98], [])" 1 "[97, 42, 98]" 3]
  by (simp add: text_lines_def unfinished_def match_def matchhere.simps matchstar.simps)

end
