(* ===== verification/Shell.thy ===== *)
theory Shell
  imports UlibFacts
begin

text \<open>
  The shell, \<^verbatim>\<open>user/sh.c\<close>. A command line is the list of its bytes without the NUL; a pointer into it is an
  index, and \<^verbatim>\<open>es\<close> is the length. The parsed command holds pointers to the beginning and the end of every word, as in
  the source. A call of \<^verbatim>\<open>panic\<close> inside the parser is a value; \<^verbatim>\<open>parsecmd\<close> prints its message and exits. The
  functions of the parser that call each other have a fuel argument, one unit for each call that is active at the same time;
  \<open>parsecmd\<close> gives them enough for every line, as theory \<open>ShellFacts\<close> proves. Memory for the nodes of a command is always available.
\<close>

section \<open>Commands\<close>

definition MAXARGS :: nat where "MAXARGS = 10"

text \<open>An element of \<open>EXEC\<close> is a pair of an element of \<^verbatim>\<open>argv\<close> and one of \<^verbatim>\<open>eargv\<close>, up to the null pointer that ends them.\<close>

datatype cmd =
    EXEC "(nat \<times> nat) list"
  | REDIR cmd nat nat u32 int
  | PIPE cmd cmd
  | LIST cmd cmd
  | BACK cmd

definition execcmd :: cmd where
  "execcmd = EXEC []"

definition redircmd :: "cmd \<Rightarrow> nat \<Rightarrow> nat \<Rightarrow> u32 \<Rightarrow> int \<Rightarrow> cmd" where
  "redircmd subcmd file efile mode fd = REDIR subcmd file efile mode fd"

definition pipecmd :: "cmd \<Rightarrow> cmd \<Rightarrow> cmd" where
  "pipecmd l r = PIPE l r"

definition listcmd :: "cmd \<Rightarrow> cmd \<Rightarrow> cmd" where
  "listcmd l r = LIST l r"

definition backcmd :: "cmd \<Rightarrow> cmd" where
  "backcmd subcmd = BACK subcmd"

section \<open>Tokens\<close>

definition at :: "u8 list \<Rightarrow> nat \<Rightarrow> u8" where
  "at buf s = (if s < length buf then buf ! s else 0)"

definition whitespace :: "u8 list" where "whitespace = [32, 9, 13, 10, 11]"
definition symbols :: "u8 list" where "symbols = [60, 124, 62, 38, 59, 40, 41]"

function skip_white :: "u8 list \<Rightarrow> nat \<Rightarrow> nat" where
  "skip_white buf s = (if s < length buf \<and> strchr whitespace (at buf s) \<noteq> None then skip_white buf (Suc s) else s)"
  by pat_completeness auto
termination by (relation "measure (\<lambda>(buf, s). length buf - s)") auto

function skip_word :: "u8 list \<Rightarrow> nat \<Rightarrow> nat" where
  "skip_word buf s =
     (if s < length buf \<and> strchr whitespace (at buf s) = None \<and> strchr symbols (at buf s) = None
      then skip_word buf (Suc s) else s)"
  by pat_completeness auto
termination by (relation "measure (\<lambda>(buf, s). length buf - s)") auto

declare skip_white.simps [simp del] skip_word.simps [simp del]

text \<open>The results are the token, \<^verbatim>\<open>*q\<close>, \<^verbatim>\<open>*eq\<close> and \<^verbatim>\<open>*ps\<close>.\<close>

definition gettoken :: "u8 list \<Rightarrow> nat \<Rightarrow> u8 \<times> nat \<times> nat \<times> nat" where
  "gettoken buf ps =
     (let q = skip_white buf ps;
          c = at buf q;
          (ret, s) =
            (if c = 0 then (c, q)
             else if c \<in> {124, 40, 41, 59, 38, 60} then (c, Suc q)
             else if c = 62 then (if at buf (Suc q) = 62 then (43, Suc (Suc q)) else (c, Suc q))
             else (97, skip_word buf q))
      in (ret, q, s, skip_white buf s))"

definition peek :: "u8 list \<Rightarrow> nat \<Rightarrow> u8 list \<Rightarrow> bool \<times> nat" where
  "peek buf ps toks =
     (let s = skip_white buf ps in (at buf s \<noteq> 0 \<and> strchr toks (at buf s) \<noteq> None, s))"

section \<open>The parser\<close>

datatype 'a parsed = Parsed 'a nat | Panicked string | Starved

primrec pbind :: "'a parsed \<Rightarrow> ('a \<Rightarrow> nat \<Rightarrow> 'b parsed) \<Rightarrow> 'b parsed" where
  "pbind (Parsed a ps) f = f a ps"
| "pbind (Panicked m) f = Panicked m"
| "pbind Starved f = Starved"

lemma skip_white_ge: "s \<le> skip_white buf s"
  by (induction buf s rule: skip_white.induct) (subst skip_white.simps, auto)

lemma skip_word_ge: "s \<le> skip_word buf s"
  by (induction buf s rule: skip_word.induct) (subst skip_word.simps, auto)

lemma at_0: "length buf \<le> s \<Longrightarrow> at buf s = 0"
  by (simp add: at_def)

lemma gettoken_ge:
  assumes "gettoken buf ps = (tok, q, eq, ps')"
  shows "ps \<le> q \<and> q \<le> eq \<and> eq \<le> ps'"
  using assms skip_white_ge[of ps buf] skip_white_ge[of eq buf] skip_word_ge[of q buf]
  by (auto simp: gettoken_def Let_def split: if_splits)

lemma skip_white_idem [simp]: "skip_white buf (skip_white buf s) = skip_white buf s"
proof (induction buf s rule: skip_white.induct)
  case (1 buf s)
  show ?case
  proof (cases "s < length buf \<and> strchr whitespace (at buf s) \<noteq> None")
    case True
    with 1 show ?thesis by (simp add: skip_white.simps[of buf s])
  next
    case False
    then have "skip_white buf s = s" by (subst skip_white.simps) auto
    then show ?thesis by simp
  qed
qed

lemma skip_white_stop: "skip_white buf s < length buf \<Longrightarrow> strchr whitespace (at buf (skip_white buf s)) = None"
proof (induction buf s rule: skip_white.induct)
  case (1 buf s)
  then show ?case
    by (cases "s < length buf \<and> strchr whitespace (at buf s) \<noteq> None") (auto simp: skip_white.simps[of buf s] split: if_splits)
qed

lemma gettoken_less:
  assumes "gettoken buf ps = (tok, q, eq, ps')" "tok \<noteq> 0"
  shows "q < length buf \<and> q < eq"
proof -
  from assms(1) have q: "q = skip_white buf ps" by (auto simp: gettoken_def Let_def split: if_splits)
  have c: "at buf q \<noteq> 0" using assms by (auto simp: gettoken_def Let_def split: if_splits)
  then have l: "q < length buf" using at_0[of buf q] by force
  have "q < eq"
  proof (cases "at buf q \<in> {124, 40, 41, 59, 38, 60, 62}")
    case True
    then show ?thesis using assms(1) q by (auto simp: gettoken_def Let_def split: if_splits)
  next
    case False
    then have "eq = skip_word buf q" using assms(1) c q by (auto simp: gettoken_def Let_def split: if_splits)
    also have "\<dots> = skip_word buf (Suc q)"
      using False l skip_white_stop[of buf ps] c q by (subst skip_word.simps) (auto simp: symbols_def)
    finally show ?thesis using skip_word_ge[of "Suc q" buf] by simp
  qed
  with l show ?thesis by simp
qed

lemma peek_ge: "peek buf ps toks = (b, ps') \<Longrightarrow> ps \<le> ps' \<and> (b \<longrightarrow> ps' < length buf)"
  using skip_white_ge[of ps buf] at_0[of buf ps'] by (force simp: peek_def Let_def)

lemma gettoken_after_peek:
  assumes "peek buf ps toks = (True, ps1)" "gettoken buf ps1 = (tok, q, eq, ps2)"
  shows "ps1 < ps2 \<and> ps \<le> ps1 \<and> ps1 < length buf"
proof -
  have "at buf ps1 \<noteq> 0" "ps1 = skip_white buf ps" using assms(1) by (auto simp: peek_def Let_def)
  then have "tok \<noteq> 0" using assms(2) by (auto simp: gettoken_def Let_def split: if_splits)
  from gettoken_less[OF assms(2) this] gettoken_ge[OF assms(2)] peek_ge[OF assms(1)] show ?thesis by simp
qed

function parseredirs :: "u8 list \<Rightarrow> cmd \<Rightarrow> nat \<Rightarrow> cmd parsed" where
  "parseredirs buf cmd ps =
     (let (b, ps) = peek buf ps [60, 62] in
      if b then
        let (tok, _, _, ps) = gettoken buf ps; (tok', q, eq, ps) = gettoken buf ps in
        if tok' \<noteq> 97 then Panicked ''missing file for redirection''
        else parseredirs buf
          (if tok = 60 then redircmd cmd q eq O_RDONLY 0
           else if tok = 62 then redircmd cmd q eq (O_WRONLY OR O_CREATE OR O_TRUNC) 1
           else if tok = 43 then redircmd cmd q eq (O_WRONLY OR O_CREATE) 1
           else cmd) ps
      else Parsed cmd ps)"
  by pat_completeness auto
termination
proof (relation "measure (\<lambda>(buf, cmd, ps). length buf - ps)", goal_cases)
  case (2 buf cmd ps x b ps1 y tok y1 q1 y2 eq1 ps2 z tok' z1 q z2 eq ps3)
  then have "peek buf ps [60, 62] = (True, ps1)" "gettoken buf ps1 = (tok, q1, eq1, ps2)"
    and g: "gettoken buf ps2 = (tok', q, eq, ps3)" by simp_all
  from gettoken_after_peek[OF this(1,2)] gettoken_ge[OF g] show ?case by auto
qed simp

text \<open>\<^verbatim>\<open>cmd\<close> points to the innermost node of what \<^verbatim>\<open>ret\<close> points to: a new argument is stored there.\<close>

primrec add_arg :: "cmd \<Rightarrow> nat \<Rightarrow> nat \<Rightarrow> cmd" where
  "add_arg (EXEC args) q eq = EXEC (args @ [(q, eq)])"
| "add_arg (REDIR c file efile mode fd) q eq = REDIR (add_arg c q eq) file efile mode fd"
| "add_arg (PIPE l r) q eq = PIPE l r"
| "add_arg (LIST l r) q eq = LIST l r"
| "add_arg (BACK c) q eq = BACK c"

function parse_args :: "u8 list \<Rightarrow> nat \<Rightarrow> cmd \<Rightarrow> nat \<Rightarrow> cmd parsed" where
  "parse_args buf argc ret ps =
     (let (b, ps) = peek buf ps [124, 41, 38, 59] in
      if b then Parsed ret ps
      else let (tok, q, eq, ps) = gettoken buf ps in
        if tok = 0 then Parsed ret ps
        else if tok \<noteq> 97 then Panicked ''syntax''
        else if Suc argc \<ge> MAXARGS then Panicked ''too many args''
        else pbind (parseredirs buf (add_arg ret q eq) ps) (\<lambda>ret ps. parse_args buf (Suc argc) ret ps))"
  by pat_completeness auto
termination by (relation "measure (\<lambda>(buf, argc, ret, ps). MAXARGS - argc)") auto

function parse_back :: "u8 list \<Rightarrow> cmd \<Rightarrow> nat \<Rightarrow> cmd \<times> nat" where
  "parse_back buf cmd ps =
     (let (b, ps) = peek buf ps [38] in
      if b then let (_, _, _, ps) = gettoken buf ps in parse_back buf (backcmd cmd) ps else (cmd, ps))"
  by pat_completeness auto
termination
proof (relation "measure (\<lambda>(buf, cmd, ps). length buf - ps)", goal_cases)
  case (2 buf cmd ps x b ps1 y tok y1 q y2 eq ps2)
  then have "peek buf ps [38] = (True, ps1)" "gettoken buf ps1 = (tok, q, eq, ps2)" by simp_all
  from gettoken_after_peek[OF this] show ?case by auto
qed simp

declare parseredirs.simps [simp del] parse_args.simps [simp del] parse_back.simps [simp del]

fun parseline :: "nat \<Rightarrow> u8 list \<Rightarrow> nat \<Rightarrow> cmd parsed"
  and parsepipe :: "nat \<Rightarrow> u8 list \<Rightarrow> nat \<Rightarrow> cmd parsed"
  and parseexec :: "nat \<Rightarrow> u8 list \<Rightarrow> nat \<Rightarrow> cmd parsed"
  and parseblock :: "nat \<Rightarrow> u8 list \<Rightarrow> nat \<Rightarrow> cmd parsed" where
  "parseline 0 buf ps = Starved"
| "parseline (Suc n) buf ps =
     pbind (parsepipe n buf ps) (\<lambda>cmd ps.
       let (cmd, ps) = parse_back buf cmd ps; (b, ps) = peek buf ps [59] in
       if b then
         let (_, _, _, ps) = gettoken buf ps in
         pbind (parseline n buf ps) (\<lambda>r ps. Parsed (listcmd cmd r) ps)
       else Parsed cmd ps)"
| "parsepipe 0 buf ps = Starved"
| "parsepipe (Suc n) buf ps =
     pbind (parseexec n buf ps) (\<lambda>cmd ps.
       let (b, ps) = peek buf ps [124] in
       if b then
         let (_, _, _, ps) = gettoken buf ps in
         pbind (parsepipe n buf ps) (\<lambda>r ps. Parsed (pipecmd cmd r) ps)
       else Parsed cmd ps)"
| "parseexec 0 buf ps = Starved"
| "parseexec (Suc n) buf ps =
     (let (b, ps) = peek buf ps [40] in
      if b then parseblock n buf ps
      else pbind (parseredirs buf execcmd ps) (\<lambda>ret ps. parse_args buf 0 ret ps))"
| "parseblock 0 buf ps = Starved"
| "parseblock (Suc n) buf ps =
     (let (b, ps) = peek buf ps [40] in
      if \<not> b then Panicked ''parseblock''
      else let (_, _, _, ps) = gettoken buf ps in
        pbind (parseline n buf ps) (\<lambda>cmd ps.
          let (b, ps) = peek buf ps [41] in
          if \<not> b then Panicked ''syntax - missing )''
          else let (_, _, _, ps) = gettoken buf ps in parseredirs buf cmd ps))"

text \<open>The buffer of \<^verbatim>\<open>nulterminate\<close> is the line with its final NUL.\<close>

primrec nulterminate :: "cmd \<Rightarrow> u8 list \<Rightarrow> u8 list" where
  "nulterminate (EXEC args) buf = fold (\<lambda>(q, eq) buf. buf[eq := 0]) args buf"
| "nulterminate (REDIR c file efile mode fd) buf = (nulterminate c buf)[efile := 0]"
| "nulterminate (PIPE l r) buf = nulterminate r (nulterminate l buf)"
| "nulterminate (LIST l r) buf = nulterminate r (nulterminate l buf)"
| "nulterminate (BACK c) buf = nulterminate c buf"

definition panic_sh :: "'w kernel \<Rightarrow> string \<Rightarrow> 'w \<Rightarrow> ('a, 'w) uout" where
  "panic_sh K s w = ubind (fprintf K 2 ''%s\<newline>'' [Str (Some (cbytes s))] w) (\<lambda>_ w. uexit 1 w)"

definition parse_fuel :: "u8 list \<Rightarrow> nat" where
  "parse_fuel line = 4 * length line + 4"

definition parsecmd :: "'w kernel \<Rightarrow> u8 list \<Rightarrow> 'w \<Rightarrow> (cmd \<times> u8 list, 'w) uout" where
  "parsecmd K line w =
     (case parseline (parse_fuel line) line 0 of
        Starved \<Rightarrow> None
      | Panicked m \<Rightarrow> panic_sh K m w
      | Parsed cmd ps \<Rightarrow>
          let (_, s) = peek line ps [] in
          if s \<noteq> length line then
            ubind (fprintf K 2 ''leftovers: %s\<newline>'' [Str (Some (drop s line))] w) (\<lambda>_ w. panic_sh K ''syntax'' w)
          else ureturn (cmd, nulterminate cmd (line @ [0])) w)"

section \<open>Running commands\<close>

definition fork1 :: "'w kernel \<Rightarrow> 'w \<Rightarrow> (int, 'w) uout" where
  "fork1 K w = ubind (ucall K Fork w) (\<lambda>pid w. if pid = -1 then panic_sh K ''fork'' w else ureturn pid w)"

text \<open>The C string that a pointer into the buffer points to.\<close>

definition str_at :: "u8 list \<Rightarrow> nat \<Rightarrow> u8 list" where
  "str_at buf q = ustr (drop q buf)"

primrec calls :: "'w kernel \<Rightarrow> request list \<Rightarrow> 'w \<Rightarrow> (unit, 'w) uout" where
  "calls K [] w = ureturn () w"
| "calls K (r # rs) w = ubind (ucall K r w) (\<lambda>_ w. calls K rs w)"

text \<open>The two descriptors that \<^verbatim>\<open>pipe\<close> stores.\<close>

definition pipe_fd :: "u8 list \<Rightarrow> nat \<Rightarrow> int" where
  "pipe_fd p i = sint (get32 p (4 * i))"

primrec runcmd :: "'w kernel \<Rightarrow> u8 list \<Rightarrow> cmd \<Rightarrow> 'w \<Rightarrow> (unit, 'w) uout" where
  "runcmd K buf (EXEC args) w =
     (case args of
        [] \<Rightarrow> uexit 1 w
      | a # _ \<Rightarrow>
          ubind (uexec K (str_at buf (fst a)) (map (\<lambda>(q, eq). str_at buf q) args) w) (\<lambda>_ w.
          ubind (fprintf K 2 ''exec %s failed\<newline>'' [Str (Some (str_at buf (fst a)))] w) (\<lambda>_ w. uexit 0 w)))"
| "runcmd K buf (REDIR c file efile mode fd) w =
     ubind (ucall K (Close fd) w) (\<lambda>_ w.
     ubind (ucall K (Open (str_at buf file) mode) w) (\<lambda>r w.
       if r < 0 then ubind (fprintf K 2 ''open %s failed\<newline>'' [Str (Some (str_at buf file))] w) (\<lambda>_ w. uexit 1 w)
       else runcmd K buf c w))"
| "runcmd K buf (LIST l r) w =
     ubind (fork1 K w) (\<lambda>pid w.
       if pid = 0 then runcmd K buf l w
       else ubind (ucall K Wait w) (\<lambda>_ w. runcmd K buf r w))"
| "runcmd K buf (PIPE l r) w =
     ubind (usys K Pipe w) (\<lambda>(e, p) w.
       if e < 0 then panic_sh K ''pipe'' w
       else let p0 = pipe_fd p 0; p1 = pipe_fd p 1 in
         ubind (fork1 K w) (\<lambda>pid w.
           if pid = 0 then ubind (calls K [Close 1, Dup p1, Close p0, Close p1] w) (\<lambda>_ w. runcmd K buf l w)
           else ubind (fork1 K w) (\<lambda>pid w.
             if pid = 0 then ubind (calls K [Close 0, Dup p0, Close p0, Close p1] w) (\<lambda>_ w. runcmd K buf r w)
             else ubind (calls K [Close p0, Close p1, Wait, Wait] w) (\<lambda>_ w. uexit 0 w))))"
| "runcmd K buf (BACK c) w =
     ubind (fork1 K w) (\<lambda>pid w. if pid = 0 then runcmd K buf c w else uexit 0 w)"

definition getcmd :: "'w kernel \<Rightarrow> int \<Rightarrow> 'w \<Rightarrow> (int \<times> u8 list, 'w) uout" where
  "getcmd K nbuf w =
     ubind (ucall K (Write 2 (cbytes ''$ '')) w) (\<lambda>_ w.
     ubind (gets K nbuf w) (\<lambda>buf w. ureturn (if byte buf = 0 then -1 else 0, buf) w))"

partial_function (option) open_console :: "'w kernel \<Rightarrow> 'w \<Rightarrow> (unit, 'w) uout" where
  "open_console K w =
     ubind (ucall K (Open (cbytes ''console'') O_RDWR) w) (\<lambda>fd w.
       if fd < 0 then ureturn () w
       else if fd \<ge> 3 then ubind (ucall K (Close fd) w) (\<lambda>_ w. ureturn () w)
       else open_console K w)"

partial_function (option) sh_loop :: "'w kernel \<Rightarrow> 'w \<Rightarrow> (unit, 'w) uout" where
  "sh_loop K w =
     ubind (getcmd K 100 w) (\<lambda>(r, buf) w.
       if r < 0 then uexit 0 w
       else let line = ustr buf in
         if take 3 line = cbytes ''cd '' then
           let dir = drop 3 (butlast line) in
           ubind (ucall K (Chdir dir) w) (\<lambda>r w.
             if r < 0 then ubind (fprintf K 2 ''cannot cd %s\<newline>'' [Str (Some dir)] w) (\<lambda>_ w. sh_loop K w)
             else sh_loop K w)
         else
           ubind (fork1 K w) (\<lambda>pid w.
             if pid = 0 then ubind (parsecmd K line w) (\<lambda>(cmd, buf) w. runcmd K buf cmd w)
             else ubind (ucall K Wait w) (\<lambda>_ w. sh_loop K w)))"

definition sh_main :: "'w kernel \<Rightarrow> 'w \<Rightarrow> (unit, 'w) uout" where
  "sh_main K w = ubind (open_console K w) (\<lambda>_ w. sh_loop K w)"

end
