(* ===== verification/ShellFacts.thy ===== *)
theory ShellFacts
  imports Shell
begin

text \<open>
  Facts on the shell. Every line is parsed or rejected: the fuel of the parser is enough, no command has more words than its
  arrays can hold, and after \<^verbatim>\<open>nulterminate\<close> every pointer of the command points to exactly the word it was made for.
  \<^verbatim>\<open>runcmd\<close> never returns.
\<close>

section \<open>runcmd does not return\<close>

definition ends :: "('a, 'w) uout \<Rightarrow> bool" where
  "ends m \<longleftrightarrow> (\<exists>r w. m = Some (r, w) \<and> (\<forall>a. r \<noteq> Ret a))"

definition defined :: "('a, 'w) uout \<Rightarrow> bool" where
  "defined m \<longleftrightarrow> m \<noteq> None"

lemma ends_bind:
  assumes "defined m" "\<And>a w. m = Some (Ret a, w) \<Longrightarrow> ends (f a w)"
  shows "ends (ubind m f)"
proof -
  obtain r w where m: "m = Some (r, w)" using assms(1) by (auto simp: defined_def)
  show ?thesis
  proof (cases r)
    case (Ret a)
    then show ?thesis using assms(2) m by simp
  qed (use m in \<open>simp_all add: ends_def\<close>)
qed

lemma defined_bind:
  assumes "defined m" "\<And>a w. m = Some (Ret a, w) \<Longrightarrow> defined (f a w)"
  shows "defined (ubind m f)"
proof -
  obtain r w where m: "m = Some (r, w)" using assms(1) by (auto simp: defined_def)
  show ?thesis
  proof (cases r)
    case (Ret a)
    then show ?thesis using assms(2) m by simp
  qed (use m in \<open>simp_all add: defined_def\<close>)
qed

lemma ends_exit [simp]: "ends (uexit c w)" "ends (Some (Exited c, w))"
  by (simp_all add: ends_def)

lemma ends_defined: "ends m \<Longrightarrow> defined m"
  by (auto simp: ends_def defined_def)

lemma defined_call [simp]: "defined (usys K r w)" "defined (ucall K r w)" "defined (ureturn a w)"
  by (simp_all add: defined_def usys_def ucall_def split: prod.split)

lemma puts_ret: "\<exists>w'. puts K fd bs w = Some (Ret (), w')"
  by (induction bs arbitrary: w) (auto simp: putc_def ucall_def usys_def split: prod.split)

lemma fprintf_ret: "formatted False fmt ap \<noteq> None \<Longrightarrow> \<exists>w'. fprintf K fd fmt ap w = Some (Ret (), w')"
  using vprintf_formatted[of False fmt ap _ K fd w] puts_ret[of K fd _ w] by (auto simp: fprintf_def vprintf_def)

lemma defined_fprintf: "formatted False fmt ap \<noteq> None \<Longrightarrow> defined (fprintf K fd fmt ap w)"
  using fprintf_ret[of fmt ap K fd w] by (auto simp: defined_def)

lemma panic_exits: "\<exists>w'. panic_sh K m w = Some (Exited 1, w')"
proof -
  obtain w' where "fprintf K 2 ''%s\<newline>'' [Str (Some (cbytes m))] w = Some (Ret (), w')"
    using fprintf_ret[of "''%s\<newline>''" "[Str (Some (cbytes m))]" K 2 w] by (auto simp: directive_def)
  then show ?thesis by (simp add: panic_sh_def)
qed

lemma ends_panic [simp]: "ends (panic_sh K m w)"
  using panic_exits[of K m w] by (auto simp: ends_def)

lemma defined_fork1 [simp]: "defined (fork1 K w)"
  unfolding fork1_def by (intro defined_bind) (auto intro: ends_defined simp del: ureturn_def)

lemma defined_calls [simp]: "defined (calls K rs w)"
  by (induction rs arbitrary: w) (auto intro!: defined_bind simp del: ureturn_def)

lemma defined_uexec [simp]: "defined (uexec K p av w)"
  unfolding uexec_def by (intro defined_bind) (simp_all add: defined_def[of "if _ then _ else _"])

text \<open>
  C0: \<^verbatim>\<open>runcmd\<close> never returns, as its declaration promises: whatever the kernel answers, the process ends in a call of \<^verbatim>\<open>exit\<close> or is replaced
  by the program it executes. In particular a child that \<^verbatim>\<open>runcmd\<close> forks never falls through into the code of its parent.
\<close>

theorem runcmd_noreturn: "\<exists>r w'. runcmd K buf cmd w = Some (r, w') \<and> (\<forall>a. r \<noteq> Ret a)"
proof -
  have "ends (runcmd K buf cmd w)"
  proof (induction cmd arbitrary: w)
    case (EXEC args)
    then show ?case
      by (cases args) (auto intro!: ends_bind defined_fprintf simp: directive_def simp del: uexit_def)
  next
    case (REDIR cmd f e m d)
    then show ?case
      by (auto intro!: ends_bind defined_fprintf simp: directive_def simp del: uexit_def)
  qed (auto intro!: ends_bind simp: Let_def simp del: uexit_def calls.simps)
  then show ?thesis by (simp add: ends_def)
qed

section \<open>Tokens\<close>

definition wordc :: "u8 \<Rightarrow> bool" where
  "wordc b \<longleftrightarrow> b \<notin> set (0 # whitespace @ symbols)"

lemma strchr_None: "0 \<notin> set s \<Longrightarrow> strchr s b = None \<longleftrightarrow> b \<notin> set s"
  by (induction s b rule: strchr.induct) auto

lemma wordc_iff: "wordc b \<longleftrightarrow> b \<noteq> 0 \<and> strchr whitespace b = None \<and> strchr symbols b = None"
  by (simp add: wordc_def strchr_None whitespace_def symbols_def)

text \<open>A token of the buffer: a maximal run of bytes of words.\<close>

definition token_ok :: "u8 list \<Rightarrow> nat \<times> nat \<Rightarrow> bool" where
  "token_ok buf t \<longleftrightarrow> (case t of (q, eq) \<Rightarrow>
     q < eq \<and> eq \<le> length buf \<and> (\<forall>i \<in> {q..<eq}. wordc (buf ! i)) \<and> (eq < length buf \<longrightarrow> \<not> wordc (buf ! eq)))"

lemma skip_white_le: "s \<le> length buf \<Longrightarrow> skip_white buf s \<le> length buf"
  by (induction buf s rule: skip_white.induct) (subst skip_white.simps, auto)

lemma at_nz: "0 \<notin> set buf \<Longrightarrow> s < length buf \<Longrightarrow> at buf s = buf ! s \<and> buf ! s \<noteq> 0"
  by (auto simp: at_def) (metis nth_mem)

lemma skip_word_run:
  assumes "0 \<notin> set buf" "s \<le> length buf"
  shows "skip_word buf s \<le> length buf \<and> (\<forall>i \<in> {s..<skip_word buf s}. wordc (buf ! i)) \<and>
    (skip_word buf s < length buf \<longrightarrow> \<not> wordc (buf ! skip_word buf s))"
  using assms
proof (induction buf s rule: skip_word.induct)
  case (1 buf s)
  show ?case
  proof (cases "s < length buf \<and> wordc (buf ! s)")
    case True
    then have c: "s < length buf \<and> strchr whitespace (at buf s) = None \<and> strchr symbols (at buf s) = None"
      by (simp add: at_def wordc_iff)
    then have e: "skip_word buf s = skip_word buf (Suc s)" by (subst skip_word.simps) simp
    have "wordc (buf ! i)" if "i \<in> {s..<skip_word buf (Suc s)}" for i
      using that 1(1)[OF c] 1(2) True by (cases "i = s") auto
    then show ?thesis unfolding e using 1(1)[OF c] 1(2) c by auto
  next
    case False
    then have "skip_word buf s = s" by (subst skip_word.simps) (use at_nz[OF 1(2)] in \<open>auto simp: wordc_iff\<close>)
    then show ?thesis using False 1(3) by auto
  qed
qed

lemma gettoken_word:
  assumes "0 \<notin> set buf" "ps \<le> length buf" "gettoken buf ps = (97, q, eq, ps')"
  shows "token_ok buf (q, eq)"
proof -
  have q: "q = skip_white buf ps" using assms(3) by (auto simp: gettoken_def Let_def split: if_splits)
  have "q \<le> length buf" unfolding q using assms(2) by (rule skip_white_le)
  moreover have "eq = skip_word buf q" using assms(3) by (auto simp: gettoken_def Let_def split: if_splits)
  moreover have "q < eq" using gettoken_less[OF assms(3)] by simp
  ultimately show ?thesis using skip_word_run[OF assms(1)] by (simp add: token_ok_def)
qed

lemma gettoken_le:
  assumes "0 \<notin> set buf" "ps \<le> length buf" "gettoken buf ps = (tok, q, eq, ps')"
  shows "ps' \<le> length buf"
proof -
  have q: "q = skip_white buf ps" and ps': "ps' = skip_white buf eq"
    using assms(3) by (auto simp: gettoken_def Let_def split: if_splits)
  have ql: "q \<le> length buf" unfolding q using assms(2) by (rule skip_white_le)
  have a: "at buf i \<noteq> 0 \<Longrightarrow> i < length buf" for i by (simp add: at_def split: if_splits)
  have "eq \<le> length buf"
    using assms(3) ql skip_word_run[OF assms(1) ql] a[of q] a[of "Suc q"]
    by (auto simp: gettoken_def Let_def q[symmetric] split: if_splits)
  then show ?thesis unfolding ps' by (rule skip_white_le)
qed

section \<open>Every line is parsed or rejected\<close>

definition redir_modes :: "(u32 \<times> int) set" where
  "redir_modes = {(O_RDONLY, 0), (O_WRONLY OR O_CREATE OR O_TRUNC, 1), (O_WRONLY OR O_CREATE, 1)}"

primrec cmd_ok :: "u8 list \<Rightarrow> cmd \<Rightarrow> bool" where
  "cmd_ok buf (EXEC args) \<longleftrightarrow> length args < MAXARGS \<and> list_all (token_ok buf) args"
| "cmd_ok buf (REDIR c file efile mode fd) \<longleftrightarrow> cmd_ok buf c \<and> token_ok buf (file, efile) \<and> (mode, fd) \<in> redir_modes"
| "cmd_ok buf (PIPE l r) \<longleftrightarrow> cmd_ok buf l \<and> cmd_ok buf r"
| "cmd_ok buf (LIST l r) \<longleftrightarrow> cmd_ok buf l \<and> cmd_ok buf r"
| "cmd_ok buf (BACK c) \<longleftrightarrow> cmd_ok buf c"

text \<open>The arguments of the innermost node that redirections wrap.\<close>

primrec args_of :: "cmd \<Rightarrow> (nat \<times> nat) list option" where
  "args_of (EXEC args) = Some args"
| "args_of (REDIR c file efile mode fd) = args_of c"
| "args_of (PIPE l r) = None"
| "args_of (LIST l r) = None"
| "args_of (BACK c) = None"

definition ok_result :: "u8 list \<Rightarrow> nat \<Rightarrow> cmd parsed \<Rightarrow> bool" where
  "ok_result buf ps r \<longleftrightarrow> (case r of
     Parsed c ps' \<Rightarrow> cmd_ok buf c \<and> ps \<le> ps' \<and> ps' \<le> length buf | Panicked m \<Rightarrow> True | Starved \<Rightarrow> False)"

lemma ok_result_simps [simp]:
  "ok_result buf ps (Parsed c ps') \<longleftrightarrow> cmd_ok buf c \<and> ps \<le> ps' \<and> ps' \<le> length buf"
  "ok_result buf ps (Panicked m)" "\<not> ok_result buf ps Starved"
  by (simp_all add: ok_result_def)

lemma ok_pbind:
  assumes "ok_result buf ps0 m" "ps \<le> ps0"
    "\<And>c ps'. m = Parsed c ps' \<Longrightarrow> cmd_ok buf c \<Longrightarrow> ps0 \<le> ps' \<Longrightarrow> ps' \<le> length buf \<Longrightarrow> ok_result buf ps (f c ps')"
  shows "ok_result buf ps (pbind m f)"
  using assms by (cases m) auto

lemma ok_result_le: "ok_result buf ps0 r \<Longrightarrow> ps \<le> ps0 \<Longrightarrow> ok_result buf ps r"
  by (cases r) auto

lemma peek_le: "ps \<le> length buf \<Longrightarrow> peek buf ps toks = (b, ps') \<Longrightarrow> ps' \<le> length buf"
  using skip_white_le[of ps buf] by (auto simp: peek_def Let_def)

lemma parseredirs_ok:
  assumes "0 \<notin> set buf" "cmd_ok buf c" "ps \<le> length buf"
  shows "ok_result buf ps (parseredirs buf c ps) \<and>
    (\<forall>c' ps'. parseredirs buf c ps = Parsed c' ps' \<longrightarrow> args_of c' = args_of c)"
  using assms
proof (induction buf c ps rule: parseredirs.induct)
  case (1 buf c ps)
  obtain b ps1 where p: "peek buf ps [60, 62] = (b, ps1)" by force
  note p1 = peek_ge[OF p] peek_le[OF 1(4) p]
  obtain tok q1 e1 ps2 where g1: "gettoken buf ps1 = (tok, q1, e1, ps2)" by (metis prod_cases4)
  note g1' = gettoken_ge[OF g1] gettoken_le[OF 1(2) _ g1]
  obtain tok' q e ps3 where g2: "gettoken buf ps2 = (tok', q, e, ps3)" by (metis prod_cases4)
  note g2' = gettoken_ge[OF g2] gettoken_le[OF 1(2) _ g2]
  let ?c = "if tok = 60 then redircmd c q e O_RDONLY 0
           else if tok = 62 then redircmd c q e (O_WRONLY OR O_CREATE OR O_TRUNC) 1
           else if tok = 43 then redircmd c q e (O_WRONLY OR O_CREATE) 1 else c"
  show ?case
  proof (cases "b \<and> tok' = 97")
    case True
    have "token_ok buf (q, e)" using gettoken_word[OF 1(2), of ps2] g2 True g1' p1 by simp
    then have c: "cmd_ok buf ?c" "args_of ?c = args_of c" using 1(3) by (auto simp: redircmd_def redir_modes_def)
    have e: "parseredirs buf c ps = parseredirs buf ?c ps3"
      using True p g1 g2 by (subst parseredirs.simps) simp
    have "ok_result buf ps3 (parseredirs buf ?c ps3) \<and>
        (\<forall>c' ps'. parseredirs buf ?c ps3 = Parsed c' ps' \<longrightarrow> args_of c' = args_of ?c)"
      by (rule 1(1)[OF p[symmetric] _ _ g1[symmetric] _ _ _ g2[symmetric]]) (use True p1 g1' g2' c 1(2) in auto)
    then show ?thesis unfolding e using p1 g1' g2' c(2) by (auto intro: ok_result_le)
  next
    case False
    then show ?thesis using p g1 g2 p1 1(3) by (subst parseredirs.simps, subst (2) parseredirs.simps) auto
  qed
qed

lemma add_arg_ok:
  assumes "args_of c = Some args" "cmd_ok buf c" "token_ok buf (q, e)" "Suc (length args) < MAXARGS"
  shows "cmd_ok buf (add_arg c q e) \<and> args_of (add_arg c q e) = Some (args @ [(q, e)])"
  using assms by (induction c) auto

lemma parse_args_ok:
  assumes "0 \<notin> set buf" "cmd_ok buf c" "ps \<le> length buf" "args_of c = Some args" "length args = argc"
  shows "ok_result buf ps (parse_args buf argc c ps)"
  using assms
proof (induction buf argc c ps arbitrary: args rule: parse_args.induct)
  case (1 buf argc c ps)
  obtain b ps1 where p: "peek buf ps [124, 41, 38, 59] = (b, ps1)" by force
  note p1 = peek_ge[OF p] peek_le[OF 1(4) p]
  obtain tok q e ps2 where g: "gettoken buf ps1 = (tok, q, e, ps2)" by (metis prod_cases4)
  note g' = gettoken_ge[OF g] gettoken_le[OF 1(2) _ g]
  show ?case
  proof (cases "\<not> b \<and> tok = 97 \<and> Suc argc < MAXARGS")
    case True
    have "token_ok buf (q, e)" using gettoken_word[OF 1(2) _ g[unfolded True[THEN conjunct2, THEN conjunct1]]] p1 by simp
    then have a: "cmd_ok buf (add_arg c q e)" "args_of (add_arg c q e) = Some (args @ [(q, e)])"
      using add_arg_ok[OF 1(5,3)] True 1(6) by auto
    have ps2: "ps2 \<le> length buf" "ps \<le> ps2" using p1 g' by auto
    note r = parseredirs_ok[OF 1(2) a(1) ps2(1)]
    have e: "parse_args buf argc c ps =
        pbind (parseredirs buf (add_arg c q e) ps2) (\<lambda>ret ps. parse_args buf (Suc argc) ret ps)"
      using True p g by (subst parse_args.simps) simp
    show ?thesis unfolding e
    proof (rule ok_pbind[OF r[THEN conjunct1] ps2(2)])
      fix c' ps' assume c': "parseredirs buf (add_arg c q e) ps2 = Parsed c' ps'" "cmd_ok buf c'" "ps2 \<le> ps'" "ps' \<le> length buf"
      then have "args_of c' = Some (args @ [(q, e)])" using r a(2) by simp
      then have "ok_result buf ps' (parse_args buf (Suc argc) c' ps')"
        by (intro 1(1)[OF p[symmetric] _ _ g[symmetric]]) (use True c' 1(2,6) in auto)
      then show "ok_result buf ps (parse_args buf (Suc argc) c' ps')" by (rule ok_result_le) (use ps2 c' in simp)
    qed
  next
    case False
    then show ?thesis using p g p1 g' 1(3) by (subst parse_args.simps) auto
  qed
qed

lemma parse_back_ok:
  assumes "0 \<notin> set buf" "cmd_ok buf c" "ps \<le> length buf" "parse_back buf c ps = (c', ps')"
  shows "cmd_ok buf c' \<and> ps \<le> ps' \<and> ps' \<le> length buf"
  using assms
proof (induction buf c ps rule: parse_back.induct)
  case (1 buf c ps)
  obtain b ps1 where p: "peek buf ps [38] = (b, ps1)" by force
  note p1 = peek_ge[OF p] peek_le[OF 1(4) p]
  obtain tok q e ps2 where g: "gettoken buf ps1 = (tok, q, e, ps2)" by (metis prod_cases4)
  note g' = gettoken_ge[OF g] gettoken_le[OF 1(2) _ g]
  show ?case
  proof (cases b)
    case True
    then have e: "parse_back buf (backcmd c) ps2 = (c', ps')" using p g 1(5) by (subst (asm) parse_back.simps) simp
    have "cmd_ok buf c' \<and> ps2 \<le> ps' \<and> ps' \<le> length buf"
      by (rule 1(1)[OF p[symmetric] _ _ g[symmetric]]) (use True p1 g' e 1(2,3) in \<open>auto simp: backcmd_def\<close>)
    then show ?thesis using p1 g' by auto
  next
    case False
    then show ?thesis using p p1 1(3,5) by (subst (asm) parse_back.simps) simp
  qed
qed

text \<open>An operator between two commands: if it is there, what follows is parsed too.\<close>

lemma ok_operator:
  assumes "0 \<notin> set buf" "cmd_ok buf c" "ps \<le> ps2" "ps2 \<le> length buf"
    and "\<And>r. cmd_ok buf r \<Longrightarrow> cmd_ok buf (mk c r)"
    and "\<And>ps4. ps2 < ps4 \<Longrightarrow> ps2 < length buf \<Longrightarrow> ps4 \<le> length buf \<Longrightarrow> ok_result buf ps4 (rest ps4)"
  shows "ok_result buf ps (let (b, ps) = peek buf ps2 [x] in
    if b then let (_, _, _, ps) = gettoken buf ps in pbind (rest ps) (\<lambda>r ps. Parsed (mk c r) ps) else Parsed c ps)"
proof -
  obtain t ps3 where p: "peek buf ps2 [x] = (t, ps3)" by force
  obtain tok q e ps4 where g: "gettoken buf ps3 = (tok, q, e, ps4)" by (metis prod_cases4)
  have le: "ps2 \<le> ps3" "ps3 \<le> length buf" using peek_ge[OF p] peek_le[OF _ p] assms(4) by auto
  note g' = gettoken_le[OF assms(1) le(2) g]
  have "ok_result buf ps (pbind (rest ps4) (\<lambda>r ps. Parsed (mk c r) ps))" if t
  proof -
    have "ps3 < ps4 \<and> ps3 < length buf" using gettoken_after_peek[OF _ g, of ps2 "[x]"] p that by simp
    then have "ok_result buf ps4 (rest ps4)" "ps \<le> ps4" using assms(6)[of ps4] g' le assms(3) by auto
    then show ?thesis by (rule ok_pbind) (use assms(5) \<open>ps \<le> ps4\<close> in auto)
  qed
  then show ?thesis using p g le assms(2,3) by simp
qed

lemma parser_ok:
  assumes "0 \<notin> set buf" "ps \<le> length buf"
  shows "4 * (length buf - ps) + 4 \<le> n \<Longrightarrow> ok_result buf ps (parseline n buf ps)"
    "4 * (length buf - ps) + 3 \<le> n \<Longrightarrow> ok_result buf ps (parsepipe n buf ps)"
    "4 * (length buf - ps) + 2 \<le> n \<Longrightarrow> ok_result buf ps (parseexec n buf ps)"
    "4 * (length buf - ps) + 1 \<le> n \<Longrightarrow> ok_result buf ps (parseblock n buf ps)"
  using assms(2)
proof (induction n arbitrary: ps)
  case (Suc n)
  { case 1
    show ?case unfolding parseline.simps
    proof (rule ok_pbind)
      show "ok_result buf ps (parsepipe n buf ps)" using Suc.IH(2)[of ps] 1 by simp
    next
      fix c ps1 assume c: "cmd_ok buf c" "ps \<le> ps1" "ps1 \<le> length buf"
      obtain c2 ps2 where b: "parse_back buf c ps1 = (c2, ps2)" by force
      note b' = parse_back_ok[OF assms(1) c(1,3) b]
      have "ok_result buf ps (let (b, ps) = peek buf ps2 [59] in
          if b then let (_, _, _, ps) = gettoken buf ps in pbind (parseline n buf ps) (\<lambda>r ps. Parsed (listcmd c2 r) ps)
          else Parsed c2 ps)"
        by (rule ok_operator[OF assms(1)]) (use Suc.IH(1) 1 b' c in \<open>auto simp: listcmd_def\<close>)
      then show "ok_result buf ps (let (cmd, ps) = parse_back buf c ps1; (b, ps) = peek buf ps [59] in
          if b then let (_, _, _, ps) = gettoken buf ps in pbind (parseline n buf ps) (\<lambda>r ps. Parsed (listcmd cmd r) ps)
          else Parsed cmd ps)"
        using b by simp
    qed simp
  next
    case 2
    show ?case unfolding parsepipe.simps
    proof (rule ok_pbind)
      show "ok_result buf ps (parseexec n buf ps)" using Suc.IH(3)[of ps] 2 by simp
    next
      fix c ps2 assume c: "cmd_ok buf c" "ps \<le> ps2" "ps2 \<le> length buf"
      then show "ok_result buf ps (let (b, ps) = peek buf ps2 [124] in
          if b then let (_, _, _, ps) = gettoken buf ps in pbind (parsepipe n buf ps) (\<lambda>r ps. Parsed (pipecmd c r) ps)
          else Parsed c ps)"
        by (intro ok_operator[OF assms(1)]) (use Suc.IH(2) 2 in \<open>auto simp: pipecmd_def\<close>)
    qed simp
  next
    case 3
    obtain t ps3 where p: "peek buf ps [40] = (t, ps3)" by force
    have le: "ps \<le> ps3" "ps3 \<le> length buf" using peek_ge[OF p] peek_le[OF _ p] 3 by auto
    have e: "cmd_ok buf execcmd" "args_of execcmd = Some []" by (simp_all add: execcmd_def MAXARGS_def)
    note r = parseredirs_ok[OF assms(1) e(1) le(2)]
    have "ok_result buf ps (pbind (parseredirs buf execcmd ps3) (\<lambda>ret ps. parse_args buf 0 ret ps))"
    proof (rule ok_pbind[OF r[THEN conjunct1] le(1)])
      fix c ps' assume c: "parseredirs buf execcmd ps3 = Parsed c ps'" "cmd_ok buf c" "ps3 \<le> ps'" "ps' \<le> length buf"
      then have "ok_result buf ps' (parse_args buf 0 c ps')" using r e(2) by (intro parse_args_ok[OF assms(1), of c ps' "[]"]) auto
      then show "ok_result buf ps (parse_args buf 0 c ps')" by (rule ok_result_le) (use le c in simp)
    qed
    moreover have "ok_result buf ps (parseblock n buf ps3)" if t
      using Suc.IH(4)[of ps3] 3 le that by (auto intro!: ok_result_le[OF _ le(1)])
    ultimately show ?case using p by simp
  next
    case 4
    obtain t ps3 where p: "peek buf ps [40] = (t, ps3)" by force
    have le: "ps \<le> ps3" "ps3 \<le> length buf" using peek_ge[OF p] peek_le[OF _ p] 4 by auto
    obtain tok q e ps4 where g: "gettoken buf ps3 = (tok, q, e, ps4)" by (metis prod_cases4)
    note g' = gettoken_le[OF assms(1) le(2) g] gettoken_ge[OF g]
    have "ok_result buf ps (pbind (parseline n buf ps4) (\<lambda>cmd ps.
        let (b, ps) = peek buf ps [41] in if \<not> b then Panicked ''syntax - missing )''
        else let (_, _, _, ps) = gettoken buf ps in parseredirs buf cmd ps))" if t
    proof (rule ok_pbind)
      have "ps3 < ps4 \<and> ps3 < length buf" using gettoken_after_peek[OF _ g, of ps "[40]"] p that by simp
      then show "ok_result buf ps4 (parseline n buf ps4)" using Suc.IH(1)[of ps4] 4 g' le by auto
      show "ps \<le> ps4" using g' le by simp
    next
      fix c ps5 assume c: "cmd_ok buf c" "ps4 \<le> ps5" "ps5 \<le> length buf"
      obtain b ps6 where p2: "peek buf ps5 [41] = (b, ps6)" by force
      have le2: "ps5 \<le> ps6" "ps6 \<le> length buf" using peek_ge[OF p2] peek_le[OF _ p2] c by auto
      obtain tok2 q2 e2 ps7 where g2: "gettoken buf ps6 = (tok2, q2, e2, ps7)" by (metis prod_cases4)
      note g2' = gettoken_le[OF assms(1) le2(2) g2] gettoken_ge[OF g2]
      show "ok_result buf ps (let (b, ps) = peek buf ps5 [41] in if \<not> b then Panicked ''syntax - missing )''
          else let (_, _, _, ps) = gettoken buf ps in parseredirs buf c ps)"
        using p2 g2 parseredirs_ok[OF assms(1) c(1) g2'(1)] le le2 g' g2' c by (auto intro: ok_result_le)
    qed
    then show ?case using p g by simp
  }
qed simp_all

section \<open>The words of a command\<close>

primrec tokens :: "cmd \<Rightarrow> (nat \<times> nat) set" where
  "tokens (EXEC args) = set args"
| "tokens (REDIR c file efile mode fd) = insert (file, efile) (tokens c)"
| "tokens (PIPE l r) = tokens l \<union> tokens r"
| "tokens (LIST l r) = tokens l \<union> tokens r"
| "tokens (BACK c) = tokens c"

definition span :: "u8 list \<Rightarrow> nat \<times> nat \<Rightarrow> u8 list" where
  "span buf t = take (snd t - fst t) (drop (fst t) buf)"

lemma cmd_ok_tokens: "cmd_ok buf c \<Longrightarrow> t \<in> tokens c \<Longrightarrow> token_ok buf t"
  by (induction c) (auto simp: list_all_iff)

lemma fold_nul:
  "length (fold (\<lambda>(q, eq) buf. buf[eq := 0]) args buf) = length buf \<and>
   (i < length buf \<longrightarrow> fold (\<lambda>(q, eq) buf. buf[eq := 0]) args buf ! i = (if i \<in> snd ` set args then 0 else buf ! i))"
proof (induction args arbitrary: buf)
  case (Cons a args)
  from Cons[of "buf[snd a := 0]"] show ?case by (cases a) (auto simp: nth_list_update)
qed simp

lemma nulterminate_nth:
  "length (nulterminate c buf) = length buf \<and>
   (i < length buf \<longrightarrow> nulterminate c buf ! i = (if i \<in> snd ` tokens c then 0 else buf ! i))"
proof (induction c arbitrary: buf)
  case (EXEC args)
  show ?case unfolding nulterminate.simps tokens.simps by (rule fold_nul)
next
  case (REDIR c f e m d)
  from REDIR[of buf] show ?case by (cases "i = e") (simp_all add: nth_list_update)
qed auto

lemma nulterminate_str:
  assumes "cmd_ok line c" "(q, e) \<in> tokens c"
  shows "str_at (nulterminate c (line @ [0])) q = span line (q, e)"
proof -
  let ?b = "nulterminate c (line @ [0])"
  have t: "q < e" "e \<le> length line" "\<forall>i \<in> {q..<e}. wordc (line ! i)"
    using cmd_ok_tokens[OF assms] by (auto simp: token_ok_def)
  have nth: "?b ! i = line ! i \<and> line ! i \<noteq> 0" if "q \<le> i" "i < e" for i
  proof -
    have w: "wordc (line ! i)" using t that by auto
    have "i \<noteq> snd u" if "u \<in> tokens c" for u
      using cmd_ok_tokens[OF assms(1) that] w t(2) \<open>i < e\<close> by (auto simp: token_ok_def split: prod.splits)
    then have "i \<notin> snd ` tokens c" by auto
    then show ?thesis using nulterminate_nth[of c "line @ [0]" i] t that w by (simp add: nth_append wordc_def)
  qed
  have end0: "?b ! e = 0"
    using nulterminate_nth[of c "line @ [0]" e] t(2) assms(2) by (force simp: image_iff)
  have "str_at ?b q = take (e - q) (drop q ?b)"
    unfolding str_at_def ustr_def using nth end0 t nulterminate_nth[of c "line @ [0]"]
    by (intro takeWhile_eq_take_P_nth) auto
  also have "\<dots> = span line (q, e)"
    unfolding span_def using t nulterminate_nth[of c "line @ [0]"] nth by (intro nth_equalityI) auto
  finally show ?thesis .
qed

text \<open>
  C0: the parser of the shell is total and its result well-typed. For every line, \<^verbatim>\<open>parsecmd\<close> either exits with status 1 after a
  message or returns a command in which every list of arguments fits the arrays of \<^verbatim>\<open>struct execcmd\<close>, with room for the
  null pointer, every word is a maximal run of bytes that are no separators, and the pointers lead, after
  \<^verbatim>\<open>nulterminate\<close>, to C strings that are exactly these words, in spite of the NUL bytes that other words put into the buffer.
\<close>

theorem parsecmd_total:
  assumes "0 \<notin> set line"
  shows "(\<exists>w'. parsecmd K line w = Some (Exited 1, w')) \<or>
    (\<exists>c buf. parsecmd K line w = Some (Ret (c, buf), w) \<and> cmd_ok line c \<and>
      (\<forall>(q, e) \<in> tokens c. str_at buf q = take (e - q) (drop q line)))"
proof -
  have ok: "ok_result line 0 (parseline (parse_fuel line) line 0)"
    using parser_ok(1)[OF assms, of 0] by (simp add: parse_fuel_def)
  show ?thesis
  proof (cases "parseline (parse_fuel line) line 0")
    case (Parsed c ps)
    then have c: "cmd_ok line c" using ok by simp
    obtain b s where s: "peek line ps [] = (b, s)" by force
    obtain w1 where w1: "fprintf K 2 ''leftovers: %s\<newline>'' [Str (Some (drop s line))] w = Some (Ret (), w1)"
      using fprintf_ret[of "''leftovers: %s\<newline>''" "[Str (Some (drop s line))]" K 2 w] by (auto simp: directive_def)
    show ?thesis
    proof (cases "s = length line")
      case True
      then have "parsecmd K line w = Some (Ret (c, nulterminate c (line @ [0])), w)"
        using Parsed s by (simp add: parsecmd_def)
      then show ?thesis using c nulterminate_str[OF c] by (auto simp: span_def)
    next
      case False
      then show ?thesis using Parsed s w1 by (intro disjI1) (simp add: parsecmd_def panic_exits)
    qed
  next
    case (Panicked m)
    then show ?thesis by (intro disjI1) (simp add: parsecmd_def panic_exits)
  next
    case Starved
    then show ?thesis using ok by simp
  qed
qed

theorem parsecmd_total_witness:
  "(\<exists>w'. parsecmd (\<lambda>r w. ((0, []), w)) [108, 115, 62, 97] () = Some (Exited 1, w')) \<or>
   (\<exists>c buf. parsecmd (\<lambda>r w. ((0, []), w)) [108, 115, 62, 97] () = Some (Ret (c, buf), ()) \<and> cmd_ok [108, 115, 62, 97] c \<and>
     (\<forall>(q, e) \<in> tokens c. str_at buf q = take (e - q) (drop q [108, 115, 62, 97])))"
  by (rule parsecmd_total) simp

end
