(* ===== verification/Spec2Isabelle.thy ===== *)
theory Spec2Isabelle
  imports Prelude Riscv Machine Spin Cstring Kalloc Vm Ring PageTable UserMem Proc Sleeplock Pipe Virtio Uart Printf Console Bio Log Fs FsData File ProcLife Sysfile Exec Syscall Trap ProcFacts PipeFacts SleepFacts VirtioFacts LruFacts BlockCache BioFacts Overlay LogFacts TxFacts Example CrashFacts FsFacts TxOps FsOps FileFacts WriteFacts ExampleFs FileProps DirFacts UlibFacts ProgramFacts ShellFacts
begin

text \<open>xv6n\<close>

end
